(* ===== verification/Prelude.thy ===== *)
theory Prelude
  imports Main "HOL-Library.Word"
begin

text \<open>
  Shared vocabulary of the development: the machine integers and the fallible calls of the Rust
  sources, and the standard-library pieces the components use (saturating and checked arithmetic,
  \<open>Ordering\<close>, \<open>BTreeMap\<close>, \<open>HashMap\<close>, \<open>IndexMap\<close>, big-endian bytes), each with the lemmas the
  components rely on.

  Unsigned integers are words of the same width.  The workspace's release profile sets \<open>lto\<close> only,
  so overflow checks are off and \<open>+\<close> and \<open>-\<close> wrap, as they do on words.  Lengths and indices of
  collections (\<open>usize\<close>) are natural numbers.
\<close>

section \<open>Machine integers\<close>

type_synonym u8 = "8 word"
type_synonym u32 = "32 word"
type_synonym u64 = "64 word"
type_synonym u128 = "128 word"

type_synonym hash = "256 word"  \<comment> \<open>\<open>monero::Hash\<close>, 32 bytes\<close>

definition saturating_sub :: "'a::len word \<Rightarrow> 'a word \<Rightarrow> 'a word" where
  "saturating_sub a b = (if b \<le> a then a - b else 0)"

definition saturating_add :: "'a::len word \<Rightarrow> 'a word \<Rightarrow> 'a word" where
  "saturating_add a b = (if a \<le> a + b then a + b else - 1)"

definition checked_add :: "'a::len word \<Rightarrow> 'a word \<Rightarrow> 'a word option" where
  "checked_add a b = (if a \<le> a + b then Some (a + b) else None)"

lemma neg_1_iff_plus_1: "a + 1 = 0 \<longleftrightarrow> a = (- 1 :: 'a::len word)"
  by (metis add.inverse_unique add_eq_0_iff2 neg_equal_iff_equal)

lemma unat_plus_1: "a \<noteq> - 1 \<Longrightarrow> unat (a + 1) = Suc (unat (a :: 'a::len word))"
  by (metis add.commute neg_1_iff_plus_1 unatSuc)

lemma unat_u32_less: "unat (a :: u32) < 4294967296"
  using unsigned_less [of a] by simp

lemma checked_add_1_Some: "checked_add a 1 = Some b \<longleftrightarrow> a \<noteq> - 1 \<and> b = a + 1"
proof (cases "a = - 1")
  case False
  then have "a \<le> a + 1" by (simp add: word_le_nat_alt unat_plus_1)
  with False show ?thesis by (auto simp: checked_add_def)
qed (simp add: checked_add_def)

lemma checked_add_1_None [simp]: "checked_add a 1 = None \<longleftrightarrow> a = - 1"
  by (metis checked_add_1_Some not_None_eq)

lemma unat_u32_max: "unat (- 1 :: u32) = 4294967295"
  by (simp add: unsigned_minus_1_eq_mask mask_eq_exp_minus_1)

lemma unat_of_nat_u32: "n < 4294967296 \<Longrightarrow> unat (of_nat n :: u32) = n"
  by (simp add: unat_of_nat)

lemma unat_u64_less: "unat (a :: u64) < 18446744073709551616"
  using unsigned_less [of a] by simp

lemma unat_of_nat_u64: "n < 18446744073709551616 \<Longrightarrow> unat (of_nat n :: u64) = n"
  by (simp add: unat_of_nat)

section \<open>Fallible calls\<close>

text \<open>
  What a call of a function of type \<open>Result\<close> can do: return \<open>Ok\<close>, return \<open>Err\<close>, or panic.
\<close>

datatype ('a, 'e) result = Ok 'a | Err 'e | Panic

fun map_err :: "('e \<Rightarrow> 'f) \<Rightarrow> ('a, 'e) result \<Rightarrow> ('a, 'f) result" where
  "map_err f (Ok a) = Ok a"
| "map_err f (Err e) = Err (f e)"
| "map_err f Panic = Panic"

fun map_ok :: "('a \<Rightarrow> 'b) \<Rightarrow> ('a, 'e) result \<Rightarrow> ('b, 'e) result" where
  "map_ok f (Ok a) = Ok (f a)"
| "map_ok f (Err e) = Err e"
| "map_ok f Panic = Panic"

fun and_then :: "('a, 'e) result \<Rightarrow> ('a \<Rightarrow> ('b, 'e) result) \<Rightarrow> ('b, 'e) result" where
  "and_then (Ok a) f = f a"
| "and_then (Err e) f = Err e"
| "and_then Panic f = Panic"

text \<open>The \<open>?\<close> operator in a function that also changes a state \<open>'s\<close>.\<close>

fun try_st :: "('a, 'e) result \<times> 's \<Rightarrow> ('a \<Rightarrow> 's \<Rightarrow> ('b, 'e) result \<times> 's) \<Rightarrow> ('b, 'e) result \<times> 's"
  where
  "try_st (Ok a, s) k = k a s"
| "try_st (Err e, s) k = (Err e, s)"
| "try_st (Panic, s) k = (Panic, s)"

fun ok_or :: "'a option \<Rightarrow> 'e \<Rightarrow> ('a, 'e) result" where
  "ok_or (Some a) e = Ok a"
| "ok_or None e = Err e"

text \<open>\<open>iter().map(f).collect::<Result<Vec<_>, _>>()\<close>: stops at the first error.\<close>

fun collect_results :: "('a, 'e) result list \<Rightarrow> ('a list, 'e) result" where
  "collect_results [] = Ok []"
| "collect_results (r # rs) = and_then r (\<lambda>a. map_ok ((#) a) (collect_results rs))"

lemma map_err_eq_Ok [simp]: "map_err f r = Ok a \<longleftrightarrow> r = Ok a"
  by (cases r) auto

lemma Ok_eq_map_err [simp]: "Ok a = map_err f r \<longleftrightarrow> r = Ok a"
  by (cases r) auto

lemma map_err_eq_Err: "map_err f r = Err e \<longleftrightarrow> (\<exists>e'. r = Err e' \<and> e = f e')"
  by (cases r) auto

lemma map_ok_eq_Ok: "map_ok f r = Ok b \<longleftrightarrow> (\<exists>a. r = Ok a \<and> b = f a)"
  by (cases r) auto

lemma map_ok_eq_Panic [simp]: "map_ok f r = Panic \<longleftrightarrow> r = Panic"
  by (cases r) auto

lemma and_then_eq_Ok: "and_then r f = Ok b \<longleftrightarrow> (\<exists>a. r = Ok a \<and> f a = Ok b)"
  by (cases r) auto

lemma try_st_eq_Ok:
  "try_st rs k = (Ok b, s') \<longleftrightarrow> (\<exists>a s. rs = (Ok a, s) \<and> k a s = (Ok b, s'))"
  by (cases "(rs, k)" rule: try_st.cases) auto

lemma try_st_snd:
  assumes "P (snd rs)" and "\<And>a s. rs = (Ok a, s) \<Longrightarrow> P s \<Longrightarrow> P (snd (k a s))"
  shows "P (snd (try_st rs k))"
  using assms by (cases "(rs, k)" rule: try_st.cases) auto

lemma collect_results_map_Ok [simp]: "collect_results (map (\<lambda>x. Ok (f x)) xs) = Ok (map f xs)"
  by (induction xs) auto

lemma map_Ok_inject [simp]: "map Ok xs = map Ok ys \<longleftrightarrow> xs = ys"
  by (simp add: inj_map_eq_map inj_def)

lemma snoc_Err_not_Ok: "rs @ [Err e] \<noteq> map Ok ys"
proof
  assume eq: "rs @ [Err e] = map Ok ys"
  have "Err e \<in> set (rs @ [Err e])" by simp
  then show False unfolding eq by auto
qed

lemma collect_results_Ok_iff: "collect_results rs = Ok xs \<longleftrightarrow> rs = map Ok xs"
proof (induction rs arbitrary: xs)
  case (Cons r rs)
  then show ?case by (cases r) (auto simp: map_ok_eq_Ok)
qed auto

lemma collect_results_Ok_length: "collect_results rs = Ok xs \<Longrightarrow> length xs = length rs"
  by (induction rs arbitrary: xs) (auto simp: and_then_eq_Ok map_ok_eq_Ok)

section \<open>Comparison\<close>

datatype ordering = Less | Equal | Greater

definition cmp :: "'a::linorder \<Rightarrow> 'a \<Rightarrow> ordering" where
  "cmp a b = (if a < b then Less else if a = b then Equal else Greater)"

lemma cmp_simps [simp]:
  "cmp a b = Less \<longleftrightarrow> a < b" "cmp a b = Equal \<longleftrightarrow> a = b" "cmp a b = Greater \<longleftrightarrow> b < a"
  by (auto simp: cmp_def)


section \<open>Maps of the standard library\<close>

subsection \<open>\<open>BTreeMap\<close>\<close>

text \<open>A \<open>BTreeMap\<close> is its list of entries in key order.\<close>

type_synonym ('k, 'v) btree_map = "('k \<times> 'v) list"

definition bt_ok :: "('k::linorder, 'v) btree_map \<Rightarrow> bool" where
  "bt_ok m \<longleftrightarrow> sorted (map fst m) \<and> distinct (map fst m)"

definition bt_remove :: "'k \<Rightarrow> ('k, 'v) btree_map \<Rightarrow> ('k, 'v) btree_map" where
  "bt_remove k m = filter (\<lambda>p. fst p \<noteq> k) m"

definition bt_insert :: "'k::linorder \<Rightarrow> 'v \<Rightarrow> ('k, 'v) btree_map \<Rightarrow> ('k, 'v) btree_map" where
  "bt_insert k v m = insort_key fst (k, v) (bt_remove k m)"

lemma bt_ok_Nil [simp]: "bt_ok []"
  by (simp add: bt_ok_def)

lemma map_fst_filter_fst: "map fst (filter (\<lambda>p. P (fst p)) m) = filter P (map fst m)"
  by (induction m) auto

lemma bt_ok_filter: "bt_ok m \<Longrightarrow> bt_ok (filter (\<lambda>p. P (fst p)) m)"
  by (auto simp: bt_ok_def map_fst_filter_fst intro: sorted_wrt_filter)

lemma bt_ok_remove [simp]: "bt_ok m \<Longrightarrow> bt_ok (bt_remove k m)"
  by (simp add: bt_remove_def bt_ok_filter [of m "\<lambda>x. x \<noteq> k"])

lemma set_bt_remove [simp]: "set (bt_remove k m) = {p \<in> set m. fst p \<noteq> k}"
  by (auto simp: bt_remove_def)

lemma set_bt_insert [simp]: "set (bt_insert k v m) = insert (k, v) {p \<in> set m. fst p \<noteq> k}"
  by (simp add: bt_insert_def set_insort_key)

lemma map_of_bt_remove [simp]: "map_of (bt_remove k m) = (map_of m)(k := None)"
  by (induction m) (auto simp: bt_remove_def fun_eq_iff)

lemma map_of_insort_key:
  "k \<notin> fst ` set m \<Longrightarrow> map_of (insort_key fst (k, v) m) = (map_of m)(k \<mapsto> v)"
  by (induction m) (auto simp: fun_eq_iff)

lemma map_of_bt_insert [simp]: "map_of (bt_insert k v m) = (map_of m)(k \<mapsto> v)"
proof -
  have "k \<notin> fst ` set (bt_remove k m)" by auto
  then show ?thesis by (simp add: bt_insert_def map_of_insort_key)
qed

lemma distinct_fst_insort_key:
  "distinct (map fst (insort_key fst (k, v) m)) \<longleftrightarrow> k \<notin> fst ` set m \<and> distinct (map fst m)"
  by (induction m) (auto simp: set_insort_key)

lemma bt_ok_insert [simp]: "bt_ok m \<Longrightarrow> bt_ok (bt_insert k v m)"
proof -
  assume m: "bt_ok m"
  have "k \<notin> fst ` set (bt_remove k m)" by auto
  with bt_ok_remove [OF m, of k] show ?thesis
    by (simp add: bt_insert_def bt_ok_def sorted_insort_key distinct_fst_insort_key)
qed

lemma bt_ok_map_of: "bt_ok m \<Longrightarrow> map_of m k = Some v \<longleftrightarrow> (k, v) \<in> set m"
  by (simp add: bt_ok_def)

subsection \<open>\<open>IndexMap\<close> (crate indexmap) and \<open>HashMap\<close>\<close>

text \<open>
  An \<open>IndexMap\<close> is its list of entries in index order: \<open>insert\<close> replaces the value of a present
  key in place and appends a new key, \<open>shift_remove_index\<close> closes the gap, \<open>swap_remove\<close> moves the
  last entry into it.  A \<open>HashMap\<close> is such a list too, its order standing for one of the iteration
  orders the hasher may give.
\<close>

type_synonym ('k, 'v) index_map = "('k \<times> 'v) list"
type_synonym ('k, 'v) hash_map = "('k \<times> 'v) list"

fun im_insert :: "'k \<Rightarrow> 'v \<Rightarrow> ('k, 'v) index_map \<Rightarrow> ('k, 'v) index_map" where
  "im_insert k v [] = [(k, v)]"
| "im_insert k v (p # m) = (if fst p = k then (k, v) # m else p # im_insert k v m)"

definition im_extend :: "('k, 'v) index_map \<Rightarrow> ('k \<times> 'v) list \<Rightarrow> ('k, 'v) index_map" where
  "im_extend m xs = foldl (\<lambda>acc p. im_insert (fst p) (snd p) acc) m xs"

definition shift_remove_index :: "nat \<Rightarrow> 'a list \<Rightarrow> 'a list" where
  "shift_remove_index i xs = take i xs @ drop (Suc i) xs"

definition swap_remove_index :: "nat \<Rightarrow> 'a list \<Rightarrow> 'a list" where
  "swap_remove_index i xs =
     (if i < length xs then butlast (xs[i := last xs]) else xs)"

fun index_of :: "'k \<Rightarrow> ('k \<times> 'v) list \<Rightarrow> nat" where
  "index_of k [] = 0"
| "index_of k (p # m) = (if fst p = k then 0 else Suc (index_of k m))"

definition swap_remove :: "'k \<Rightarrow> ('k, 'v) index_map \<Rightarrow> ('k, 'v) index_map" where
  "swap_remove k m = swap_remove_index (index_of k m) m"

lemma map_of_im_insert [simp]: "map_of (im_insert k v m) = (map_of m)(k \<mapsto> v)"
  by (induction m) (auto simp: fun_eq_iff)

lemma fst_im_insert: "fst ` set (im_insert k v m) = insert k (fst ` set m)"
  by (induction m) auto

lemma set_im_insert:
  "distinct (map fst m) \<Longrightarrow> set (im_insert k v m) = insert (k, v) {p \<in> set m. fst p \<noteq> k}"
  by (induction m) (auto simp: image_iff)

lemma distinct_im_insert [simp]: "distinct (map fst (im_insert k v m)) = distinct (map fst m)"
proof (induction m)
  case (Cons p m)
  then show ?case
    using fst_im_insert [of k v m] by (auto simp: image_iff)
qed simp

lemma im_insert_fresh: "k \<notin> fst ` set m \<Longrightarrow> im_insert k v m = m @ [(k, v)]"
  by (induction m) auto

lemma im_extend_Nil [simp]: "im_extend m [] = m"
  by (simp add: im_extend_def)

lemma im_extend_Cons [simp]: "im_extend m (p # xs) = im_extend (im_insert (fst p) (snd p) m) xs"
  by (simp add: im_extend_def)

lemma fst_im_extend: "fst ` set (im_extend m xs) = fst ` set m \<union> fst ` set xs"
  by (induction xs arbitrary: m) (auto simp: fst_im_insert)

lemma distinct_im_extend [simp]: "distinct (map fst (im_extend m xs)) = distinct (map fst m)"
  by (induction xs arbitrary: m) auto

lemma im_extend_fresh:
  "distinct (map fst xs) \<Longrightarrow> fst ` set xs \<inter> fst ` set m = {} \<Longrightarrow> im_extend m xs = m @ xs"
proof (induction xs arbitrary: m)
  case (Cons p xs)
  then have "im_insert (fst p) (snd p) m = m @ [p]"
    by (subst im_insert_fresh) auto
  with Cons show ?case by auto
qed simp

lemma map_of_im_extend:
  "map_of (im_extend m xs) k = (case map_of (rev xs) k of None \<Rightarrow> map_of m k | Some v \<Rightarrow> Some v)"
  by (induction xs arbitrary: m) (auto simp: map_add_def split: option.splits)

lemma length_shift_remove_index [simp]:
  "i < length xs \<Longrightarrow> length (shift_remove_index i xs) = length xs - 1"
  by (simp add: shift_remove_index_def)

lemma shift_remove_index_set:
  assumes "distinct (map f xs)" and "i < length xs"
  shows "set (shift_remove_index i xs) = set xs - {xs ! i}"
proof -
  have d: "distinct xs" using assms(1) by (simp add: distinct_map)
  have "xs = take i xs @ xs ! i # drop (Suc i) xs"
    using assms(2) by (simp add: id_take_nth_drop)
  moreover from this d have "xs ! i \<notin> set (take i xs) \<union> set (drop (Suc i) xs)"
    by (metis disjoint_insert(1) distinct.simps(2) distinct_append list.simps(15) UnE)
  ultimately show ?thesis
    by (metis (no_types, lifting) Diff_insert_absorb Un_insert_right list.simps(15) set_append
        shift_remove_index_def)
qed

lemma shift_remove_index_simps [simp]:
  "shift_remove_index i [] = []"
  "shift_remove_index 0 (x # xs) = xs"
  "shift_remove_index (Suc i) (x # xs) = x # shift_remove_index i xs"
  by (simp_all add: shift_remove_index_def)

lemma set_shift_remove_index_subset: "set (shift_remove_index i xs) \<subseteq> set xs"
  by (auto simp: shift_remove_index_def dest: in_set_takeD in_set_dropD)

lemma distinct_shift_remove_index:
  "distinct (map f xs) \<Longrightarrow> distinct (map f (shift_remove_index i xs))"
proof (induction xs arbitrary: i)
  case (Cons x xs)
  then show ?case
    using set_shift_remove_index_subset by (cases i) fastforce+
qed simp

lemma length_swap_remove_index [simp]:
  "i < length xs \<Longrightarrow> length (swap_remove_index i xs) = length xs - 1"
  by (simp add: swap_remove_index_def)

lemma index_of_nth: "distinct (map fst m) \<Longrightarrow> i < length m \<Longrightarrow> index_of (fst (m ! i)) m = i"
proof (induction m arbitrary: i)
  case (Cons p m)
  then show ?case
    by (cases i) (auto dest: nth_mem)
qed simp

section \<open>Big-endian bytes\<close>

definition to_be_bytes :: "'a::len word \<Rightarrow> u8 list" where
  "to_be_bytes w =
     map (\<lambda>i. ucast (drop_bit (8 * i) w)) (rev [0..<LENGTH('a) div 8])"

definition from_be_bytes :: "u8 list \<Rightarrow> 'a::len word" where
  "from_be_bytes bs = foldl (\<lambda>acc b. push_bit 8 acc + ucast b) 0 bs"

lemma length_to_be_bytes [simp]: "length (to_be_bytes (w :: 'a::len word)) = LENGTH('a) div 8"
  by (simp add: to_be_bytes_def)

lemma ucast_ucast_u8: "(ucast (ucast x :: u8) :: 'a::len word) = take_bit 8 x"
  by (rule bit_word_eqI) (auto simp: bit_simps)

lemma foldl_be_bytes:
  "foldl (\<lambda>acc b. push_bit 8 acc + ucast b) (drop_bit (8 * n) w)
     (map (\<lambda>i. ucast (drop_bit (8 * i) w) :: u8) (rev [0..<n])) = (w :: 'a::len word)"
proof (induction n)
  case (Suc n)
  have "push_bit 8 (drop_bit (8 * Suc n) w) + ucast (ucast (drop_bit (8 * n) w) :: u8)
      = drop_bit (8 * n) w"
  proof -
    have "drop_bit (8 * Suc n) w = drop_bit 8 (drop_bit (8 * n) w)"
      by (simp add: drop_bit_drop_bit)
    then show ?thesis
      by (simp only: ucast_ucast_u8 bits_ident)
  qed
  with Suc show ?case by simp
qed simp

theorem from_to_be_bytes:
  assumes "8 dvd LENGTH('a)"
  shows "from_be_bytes (to_be_bytes w) = (w :: 'a::len word)"
proof -
  have "8 * (LENGTH('a) div 8) = LENGTH('a)" using assms by simp
  then have "drop_bit (8 * (LENGTH('a) div 8)) w = 0"
    by (simp add: drop_bit_eq_div unsigned_eq_0_iff flip: drop_bit_eq_div)
  then show ?thesis
    using foldl_be_bytes [of "LENGTH('a) div 8" w]
    by (simp add: from_be_bytes_def to_be_bytes_def)
qed

lemma from_be_bytes_snoc: "from_be_bytes (bs @ [b]) = push_bit 8 (from_be_bytes bs) + ucast b"
  by (simp add: from_be_bytes_def)

lemma push_ucast_or: "push_bit 8 x + ucast (b :: u8) = or (push_bit 8 (x :: 'a::len word)) (ucast b)"
  by (rule disjunctive_add) (auto simp: bit_simps dest: bit_imp_le_length)

lemma ucast_push_ucast:
  "8 \<le> LENGTH('a) \<Longrightarrow> (ucast (push_bit 8 x + ucast (b :: u8) :: 'a::len word) :: u8) = b"
  by (rule bit_word_eqI) (auto simp: push_ucast_or bit_simps)

lemma drop_push_ucast:
  assumes "8 * k + 16 \<le> LENGTH('a)"
  shows "(ucast (drop_bit (8 * Suc k) (push_bit 8 x + ucast (b :: u8) :: 'a::len word)) :: u8)
       = ucast (drop_bit (8 * k) x)"
  by (rule bit_word_eqI)
    (use assms in \<open>auto simp: push_ucast_or bit_simps dest: bit_imp_le_length\<close>)

lemma be_byte_nth:
  "8 * length bs \<le> LENGTH('a) \<Longrightarrow> j < length bs \<Longrightarrow>
     (ucast (drop_bit (8 * j) (from_be_bytes bs :: 'a::len word)) :: u8) = rev bs ! j"
proof (induction bs arbitrary: j rule: rev_induct)
  case (snoc b bs)
  show ?case
  proof (cases j)
    case 0
    with snoc.prems show ?thesis
      by (simp add: from_be_bytes_snoc ucast_push_ucast)
  next
    case (Suc k)
    with snoc show ?thesis
      by (simp only: from_be_bytes_snoc drop_push_ucast) simp
  qed
qed simp

theorem to_from_be_bytes:
  assumes "8 * length bs = LENGTH('a)"
  shows "to_be_bytes (from_be_bytes bs :: 'a::len word) = bs"
proof -
  have n: "LENGTH('a) div 8 = length bs" using assms by simp
  have "rev (to_be_bytes (from_be_bytes bs :: 'a word)) = rev bs"
    by (rule nth_equalityI)
      (use assms n in \<open>auto simp: to_be_bytes_def rev_map be_byte_nth\<close>)
  then show ?thesis by simp
qed

lemma from_be_bytes_append:
  "(from_be_bytes (as @ bs) :: 'a::len word)
     = push_bit (8 * length bs) (from_be_bytes as) + from_be_bytes bs"
proof (induction bs rule: rev_induct)
  case (snoc b bs)
  have "(from_be_bytes (as @ bs @ [b]) :: 'a word) = push_bit 8 (from_be_bytes (as @ bs)) + ucast b"
    using from_be_bytes_snoc [of "as @ bs" b] by simp
  with snoc show ?case
    by (simp add: from_be_bytes_snoc push_bit_add push_bit_push_bit algebra_simps)
qed (simp add: from_be_bytes_def)

lemma foldl_be_bytes_ucast:
  "foldl (\<lambda>acc b. push_bit 8 acc + ucast b) (ucast (drop_bit (8 * n) w) :: 'b::len word)
     (map (\<lambda>i. ucast (drop_bit (8 * i) w) :: u8) (rev [0..<n])) = ucast (w :: 'a::len word)"
proof (induction n)
  case (Suc n)
  have "push_bit 8 (ucast (drop_bit (8 * Suc n) w)) + ucast (ucast (drop_bit (8 * n) w) :: u8)
      = (ucast (drop_bit (8 * n) w) :: 'b word)"
    unfolding push_ucast_or by (rule bit_word_eqI) (auto simp: bit_simps)
  with Suc show ?case by simp
qed simp

lemma from_to_be_bytes_ucast:
  assumes "8 dvd LENGTH('a)"
  shows "(from_be_bytes (to_be_bytes (w :: 'a::len word)) :: 'b::len word) = ucast w"
proof -
  have "8 * (LENGTH('a) div 8) = LENGTH('a)" using assms by simp
  then have "ucast (drop_bit (8 * (LENGTH('a) div 8)) w) = (0 :: 'b word)"
    by (simp add: drop_bit_eq_div unsigned_eq_0_iff flip: drop_bit_eq_div)
  then show ?thesis
    using foldl_be_bytes_ucast [of "LENGTH('a) div 8" w, where 'b = 'b]
    by (simp add: from_be_bytes_def to_be_bytes_def)
qed

section \<open>Strings\<close>

definition digit_char :: "nat \<Rightarrow> char" where
  "digit_char d = char_of (48 + d)"

definition digit_val :: "char \<Rightarrow> nat" where
  "digit_val c = of_char c - 48"

text \<open>Decimal formatting of an unsigned integer, and reading it back.\<close>

fun show_nat :: "nat \<Rightarrow> string" where
  "show_nat n = (if n < 10 then [digit_char n] else show_nat (n div 10) @ [digit_char (n mod 10)])"

declare show_nat.simps [simp del]

definition read_nat :: "string \<Rightarrow> nat" where
  "read_nat s = foldl (\<lambda>acc c. 10 * acc + digit_val c) 0 s"

lemma digit_val_char [simp]: "d < 10 \<Longrightarrow> digit_val (digit_char d) = d"
  by (simp add: digit_val_def digit_char_def)

lemma read_nat_snoc [simp]: "read_nat (s @ [c]) = 10 * read_nat s + digit_val c"
  by (simp add: read_nat_def)

lemma read_nat_Nil [simp]: "read_nat [] = 0"
  by (simp add: read_nat_def)

lemma read_show_nat [simp]: "read_nat (show_nat n) = n"
proof (induction n rule: show_nat.induct)
  case (1 n)
  show ?case
  proof (cases "n < 10")
    case True
    then show ?thesis
      using read_nat_snoc [of "[]" "digit_char n"] by (simp add: show_nat.simps [of n])
  next
    case False
    with 1 show ?thesis by (simp add: show_nat.simps [of n])
  qed
qed

text \<open>\<open>str::trim_start_matches\<close> for a string pattern.\<close>

function trim_start_str :: "string \<Rightarrow> string \<Rightarrow> string" where
  "trim_start_str pat s =
     (if pat \<noteq> [] \<and> take (length pat) s = pat then trim_start_str pat (drop (length pat) s) else s)"
  by pat_completeness auto
termination
proof (relation "measure (\<lambda>(pat, s). length s)")
  fix pat s :: string
  assume a: "pat \<noteq> [] \<and> take (length pat) s = pat"
  then have "s \<noteq> []" by auto
  with a show "((pat, drop (length pat) s), pat, s) \<in> measure (\<lambda>(pat, s). length s)"
    by simp
qed simp

declare trim_start_str.simps [simp del]

end
