(* ===== verification/Invoice.thy ===== *)
theory Invoice
  imports Prelude "HOL-Library.Multiset"
begin

text \<open>
  \<open>library/src/invoice.rs\<close>: invoices, their identifiers and the transfers credited to them.
  Structs with a hand-written \<open>Ord\<close> are datatypes with selectors, so that the order the source
  implements can be their \<open>linorder\<close> instance; the invoice itself is a record.
\<close>

section \<open>Subaddress indices and invoice identifiers\<close>

datatype sub_index = SubIndex (major: u32) (minor: u32)

datatype invoice_id = InvoiceId (sub_index: sub_index) (id_height: u64)

definition sub_index_cmp :: "sub_index \<Rightarrow> sub_index \<Rightarrow> ordering" where
  "sub_index_cmp self other =
     (case cmp (major self) (major other) of
        Equal \<Rightarrow> cmp (minor self) (minor other)
      | Greater \<Rightarrow> Greater
      | Less \<Rightarrow> Less)"

instantiation sub_index :: linorder
begin

definition less_eq_sub_index :: "sub_index \<Rightarrow> sub_index \<Rightarrow> bool" where
  "less_eq_sub_index a b \<longleftrightarrow> sub_index_cmp a b \<noteq> Greater"

definition less_sub_index :: "sub_index \<Rightarrow> sub_index \<Rightarrow> bool" where
  "less_sub_index a b \<longleftrightarrow> sub_index_cmp a b = Less"

instance
proof
  fix x y z :: sub_index
  note defs = less_eq_sub_index_def less_sub_index_def sub_index_cmp_def cmp_def
  show "x < y \<longleftrightarrow> x \<le> y \<and> \<not> y \<le> x"
    by (cases x; cases y) (auto simp: defs)
  show "x \<le> x" by (cases x) (auto simp: defs)
  show "x \<le> y \<Longrightarrow> y \<le> z \<Longrightarrow> x \<le> z"
    by (cases x; cases y; cases z) (auto simp: defs split: if_splits)
  show "x \<le> y \<Longrightarrow> y \<le> x \<Longrightarrow> x = y"
    by (cases x; cases y) (auto simp: defs split: if_splits)
  show "x \<le> y \<or> y \<le> x"
    by (cases x; cases y) (auto simp: defs split: if_splits)
qed

end

definition invoice_id_cmp :: "invoice_id \<Rightarrow> invoice_id \<Rightarrow> ordering" where
  "invoice_id_cmp self other =
     (case sub_index_cmp (sub_index self) (sub_index other) of
        Equal \<Rightarrow> cmp (id_height self) (id_height other)
      | Greater \<Rightarrow> Greater
      | Less \<Rightarrow> Less)"

lemma sub_index_cmp_eq_cmp: "sub_index_cmp a b = cmp a b"
proof (cases "sub_index_cmp a b")
  case Less
  then have "a < b" by (simp add: less_sub_index_def)
  with Less show ?thesis by (simp add: cmp_def)
next
  case Equal
  then have "a = b"
    by (cases a; cases b) (auto simp: sub_index_cmp_def split: ordering.splits)
  with Equal show ?thesis by (simp add: cmp_def)
next
  case Greater
  then have "b < a"
    using less_eq_sub_index_def [of a b] by simp
  with Greater show ?thesis by (simp add: cmp_def not_less_iff_gr_or_eq)
qed

instantiation invoice_id :: linorder
begin

definition less_eq_invoice_id :: "invoice_id \<Rightarrow> invoice_id \<Rightarrow> bool" where
  "less_eq_invoice_id a b \<longleftrightarrow> invoice_id_cmp a b \<noteq> Greater"

definition less_invoice_id :: "invoice_id \<Rightarrow> invoice_id \<Rightarrow> bool" where
  "less_invoice_id a b \<longleftrightarrow> invoice_id_cmp a b = Less"

instance
proof
  fix x y z :: invoice_id
  note defs = less_eq_invoice_id_def less_invoice_id_def invoice_id_cmp_def sub_index_cmp_eq_cmp
    cmp_def
  show "x < y \<longleftrightarrow> x \<le> y \<and> \<not> y \<le> x"
    by (cases x; cases y) (auto simp: defs)
  show "x \<le> x" by (cases x) (auto simp: defs)
  show "x \<le> y \<Longrightarrow> y \<le> z \<Longrightarrow> x \<le> z"
    by (cases x; cases y; cases z) (auto simp: defs split: if_splits)
  show "x \<le> y \<Longrightarrow> y \<le> x \<Longrightarrow> x = y"
    by (cases x; cases y) (auto simp: defs split: if_splits)
  show "x \<le> y \<or> y \<le> x"
    by (cases x; cases y) (auto simp: defs split: if_splits)
qed

end

lemma less_eq_sub_index_iff:
  "SubIndex a b \<le> SubIndex c d \<longleftrightarrow> a < c \<or> a = c \<and> b \<le> d"
  by (auto simp: less_eq_sub_index_def sub_index_cmp_def cmp_def)

lemma sub_index_le_iff:
  "i \<le> j \<longleftrightarrow> major i < major j \<or> major i = major j \<and> minor i \<le> minor (j :: sub_index)"
  by (cases i; cases j) (simp add: less_eq_sub_index_iff)

lemma less_eq_invoice_id_iff:
  "InvoiceId a b \<le> InvoiceId c d \<longleftrightarrow> a < c \<or> a = c \<and> b \<le> d"
  by (auto simp: less_eq_invoice_id_def invoice_id_cmp_def sub_index_cmp_eq_cmp cmp_def)

lemma less_invoice_id_iff:
  "InvoiceId a b < InvoiceId c d \<longleftrightarrow> a < c \<or> a = c \<and> b < d"
  by (auto simp: less_invoice_id_def invoice_id_cmp_def sub_index_cmp_eq_cmp cmp_def)

text \<open>\<open>From<InvoiceId> for u128\<close> and \<open>From<u128> for InvoiceId\<close>.\<close>

definition u128_from_invoice_id :: "invoice_id \<Rightarrow> u128" where
  "u128_from_invoice_id value =
     (let height = id_height value
      in from_be_bytes (to_be_bytes (major (sub_index value)) @ to_be_bytes (minor (sub_index value))
           @ to_be_bytes height))"

definition invoice_id_from_u128 :: "u128 \<Rightarrow> invoice_id" where
  "invoice_id_from_u128 value =
     (let bytes = to_be_bytes value;
          major_index_bytes = take 4 bytes;
          minor_index_bytes = take 4 (drop 4 bytes);
          height_bytes = take 8 (drop 8 bytes)
      in InvoiceId (SubIndex (from_be_bytes major_index_bytes) (from_be_bytes minor_index_bytes))
           (from_be_bytes height_bytes))"

lemma invoice_id_u128_roundtrip_aux: "invoice_id_from_u128 (u128_from_invoice_id i) = i"
proof -
  let ?bs = "to_be_bytes (major (sub_index i)) @ to_be_bytes (minor (sub_index i))
    @ to_be_bytes (id_height i)"
  have "to_be_bytes (from_be_bytes ?bs :: u128) = ?bs"
    by (rule to_from_be_bytes) simp
  then show ?thesis
    by (cases i; cases "sub_index i")
      (simp add: invoice_id_from_u128_def u128_from_invoice_id_def Let_def from_to_be_bytes)
qed

lemma u128_invoice_id_roundtrip_aux: "u128_from_invoice_id (invoice_id_from_u128 v) = v"
proof -
  let ?bs = "to_be_bytes v"
  have len: "length ?bs = 16" by simp
  have "to_be_bytes (from_be_bytes (take 4 ?bs) :: u32) = take 4 ?bs"
    and "to_be_bytes (from_be_bytes (take 4 (drop 4 ?bs)) :: u32) = take 4 (drop 4 ?bs)"
    and "to_be_bytes (from_be_bytes (take 8 (drop 8 ?bs)) :: u64) = take 8 (drop 8 ?bs)"
    by (rule to_from_be_bytes, simp add: len)+
  moreover have "take 4 ?bs @ take 4 (drop 4 ?bs) @ take 8 (drop 8 ?bs) = ?bs"
  proof -
    have "take 8 (drop 8 ?bs) = drop 8 ?bs" by (simp add: len)
    moreover have "drop 4 ?bs = take 4 (drop 4 ?bs) @ drop 8 ?bs"
      using append_take_drop_id [of 4 "drop 4 ?bs"] by (simp add: drop_drop)
    ultimately show ?thesis by (metis append_take_drop_id)
  qed
  ultimately show ?thesis
    by (simp add: u128_from_invoice_id_def invoice_id_from_u128_def Let_def from_to_be_bytes)
qed

lemma unat_u128_from_invoice_id:
  "unat (u128_from_invoice_id (InvoiceId (SubIndex a b) h))
     = unat a * 2 ^ 96 + unat b * 2 ^ 64 + unat h"
proof -
  have "(from_be_bytes (to_be_bytes a) :: u128) = ucast a"
    "(from_be_bytes (to_be_bytes b) :: u128) = ucast b"
    "(from_be_bytes (to_be_bytes h) :: u128) = ucast h"
    by (rule from_to_be_bytes_ucast, simp)+
  then have "u128_from_invoice_id (InvoiceId (SubIndex a b) h)
      = push_bit 96 (ucast a) + push_bit 64 (ucast b) + ucast h"
    by (simp add: u128_from_invoice_id_def Let_def from_be_bytes_append algebra_simps)
  moreover have "unat a < 2 ^ 32" "unat b < 2 ^ 32" "unat h < 2 ^ 64"
    using unsigned_less [of a] unsigned_less [of b] unsigned_less [of h] by auto
  ultimately show ?thesis
    by (simp add: push_bit_eq_mult unat_word_ariths unsigned_ucast_eq take_bit_eq_mod)
qed

section \<open>Transfers\<close>

datatype transfer = Transfer (amount: u64) (height: "u64 option")

definition cmp_by_height :: "transfer \<Rightarrow> transfer \<Rightarrow> ordering" where
  "cmp_by_height self other =
     (case height self of
        Some h \<Rightarrow> (case height other of Some other_height \<Rightarrow> cmp h other_height | None \<Rightarrow> Less)
      | None \<Rightarrow> (case height other of Some _ \<Rightarrow> Greater | None \<Rightarrow> Equal))"

lemma cmp_by_height_Less_Some:
  "cmp_by_height t (Transfer a (Some d)) = Less \<longleftrightarrow> (\<exists>h. height t = Some h \<and> h < d)"
  by (auto simp: cmp_by_height_def split: option.splits)

lemma cmp_by_height_Greater_Some:
  "cmp_by_height t (Transfer a (Some d)) = Greater \<longleftrightarrow>
     (case height t of Some h \<Rightarrow> d < h | None \<Rightarrow> True)"
  by (auto simp: cmp_by_height_def split: option.splits)

text \<open>No transfer is newer than the one after it: confirmed transfers by height, the pool last.\<close>

definition height_ordered :: "transfer list \<Rightarrow> bool" where
  "height_ordered ts = sorted_wrt (\<lambda>a b. cmp_by_height a b \<noteq> Greater) ts"

lemma height_ordered_append:
  "height_ordered (xs @ ys) \<longleftrightarrow> height_ordered xs \<and> height_ordered ys \<and>
     (\<forall>x\<in>set xs. \<forall>y\<in>set ys. cmp_by_height x y \<noteq> Greater)"
  by (simp add: height_ordered_def sorted_wrt_append)

lemma height_ordered_filter: "height_ordered xs \<Longrightarrow> height_ordered (filter P xs)"
  by (simp add: height_ordered_def sorted_wrt_filter)

section \<open>Invoices\<close>

record invoice =
  address :: string
  index :: sub_index
  creation_height :: u64
  amount_requested :: u64
  amount_paid :: u64
  paid_height :: "u64 option"
  confirmations_required :: u64
  current_height :: u64
  expiration_height :: u64
  transfers :: "transfer list"
  description :: string

definition PICONEROS_PER_XMR :: u64 where
  "PICONEROS_PER_XMR = 1000000000000"

definition invoice_new ::
  "string \<Rightarrow> sub_index \<Rightarrow> u64 \<Rightarrow> u64 \<Rightarrow> u64 \<Rightarrow> u64 \<Rightarrow> string \<Rightarrow> invoice" where
  "invoice_new addr idx creation requested confirmations expiration_in desc =
     \<lparr>address = addr, index = idx, creation_height = creation, amount_requested = requested,
      amount_paid = 0, paid_height = None, confirmations_required = confirmations,
      current_height = 0, expiration_height = creation + expiration_in, transfers = [],
      description = desc\<rparr>"

definition invoice_ident :: "invoice \<Rightarrow> invoice_id" where
  "invoice_ident self = InvoiceId (index self) (creation_height self)"

definition confirmations :: "invoice \<Rightarrow> u64 option" where
  "confirmations self =
     (if amount_requested self \<le> amount_paid self then
        (case paid_height self of
           None \<Rightarrow> Some 0
         | Some paid_at \<Rightarrow> Some (saturating_sub (current_height self) paid_at))
      else None)"

definition is_confirmed :: "invoice \<Rightarrow> bool" where
  "is_confirmed self =
     (case confirmations self of None \<Rightarrow> False | Some c \<Rightarrow> confirmations_required self \<le> c)"

definition is_paid :: "invoice \<Rightarrow> bool" where
  "is_paid self \<longleftrightarrow> amount_requested self \<le> amount_paid self"

definition is_expired :: "invoice \<Rightarrow> bool" where
  "is_expired self \<longleftrightarrow> expiration_height self \<le> current_height self"

definition expiration_in :: "invoice \<Rightarrow> u64" where
  "expiration_in self =
     (let h = max (creation_height self) (current_height self)
      in saturating_sub (expiration_height self) h)"

text \<open>
  \<open>PartialEq for Invoice\<close> counts equal transfers in two hash maps; \<open>HashMap\<close> equality compares the
  sizes and looks every entry of one map up in the other.
\<close>

definition entry_add_one :: "('k, nat) hash_map \<Rightarrow> 'k \<Rightarrow> ('k, nat) hash_map" where
  "entry_add_one m k = im_insert k (case map_of m k of None \<Rightarrow> 1 | Some n \<Rightarrow> n + 1) m"

definition count_transfers :: "transfer list \<Rightarrow> (transfer, nat) hash_map" where
  "count_transfers ts = foldl entry_add_one [] ts"

definition hash_map_eq :: "('k, 'v) hash_map \<Rightarrow> ('k, 'v) hash_map \<Rightarrow> bool" where
  "hash_map_eq a b \<longleftrightarrow> length a = length b \<and> (\<forall>p \<in> set a. map_of b (fst p) = Some (snd p))"

definition invoice_eq :: "invoice \<Rightarrow> invoice \<Rightarrow> bool" where
  "invoice_eq self other \<longleftrightarrow>
     hash_map_eq (count_transfers (transfers self)) (count_transfers (transfers other))
     \<and> address self = address other
     \<and> index self = index other
     \<and> creation_height self = creation_height other
     \<and> amount_requested self = amount_requested other
     \<and> amount_paid self = amount_paid other
     \<and> paid_height self = paid_height other
     \<and> confirmations_required self = confirmations_required other
     \<and> current_height self = current_height other
     \<and> expiration_height self = expiration_height other
     \<and> description self = description other"

text \<open>
  \<open>Invoice::uri\<close>.  The fraction is a quotient of an integer below \<open>10^12\<close> by \<open>10^12\<close>, formatted by
  \<open>f64::to_string\<close>, which prints the shortest decimal that reads back as the same \<open>f64\<close> and never
  uses an exponent.  An \<open>f64\<close> distinguishes all decimals of up to 15 significant digits, so for
  these quotients of at most 12 digits the printed decimal is the quotient itself, with no trailing
  zeros: \<open>f64_fraction\<close>.
\<close>

fun show_digits :: "nat \<Rightarrow> nat \<Rightarrow> string" where
  "show_digits 0 k = []"
| "show_digits (Suc n) k = show_digits n (k div 10) @ [digit_char (k mod 10)]"

definition trim_end_zeros :: "string \<Rightarrow> string" where
  "trim_end_zeros s = rev (dropWhile (\<lambda>c. c = digit_char 0) (rev s))"

definition f64_fraction :: "nat \<Rightarrow> string" where
  "f64_fraction k = (if k = 0 then ''0'' else ''0.'' @ trim_end_zeros (show_digits 12 k))"

definition uri :: "invoice \<Rightarrow> string" where
  "uri self =
     (let piconeros_due = saturating_sub (amount_requested self) (amount_paid self);
          whole_xmr_due = piconeros_due div PICONEROS_PER_XMR;
          fractional_xmr_due = f64_fraction (unat (piconeros_due mod PICONEROS_PER_XMR))
      in ''monero:'' @ address self @ ''?tx_amount='' @ show_nat (unat whole_xmr_due) @ ''.''
         @ trim_start_str ''0.'' fractional_xmr_due)"

text \<open>
  \<open>Display\<close>.  \<open>show_xmr\<close> is how the monero crate's amount in XMR, an \<open>f64\<close>, is printed.  Debug formatting of
  a string of digits, or of \<open>N/A\<close>, puts it in quotes.
\<close>

definition show_sub_index :: "sub_index \<Rightarrow> string" where
  "show_sub_index self = show_nat (unat (major self)) @ ''/'' @ show_nat (unat (minor self))"

definition show_invoice_id :: "invoice_id \<Rightarrow> string" where
  "show_invoice_id self = ''('' @ show_sub_index (sub_index self) @ '','' @ show_nat (unat (id_height self)) @ '')''"

definition new_line :: string where
  "new_line = [CHR 0x0A]"

definition or_na :: "u64 option \<Rightarrow> string" where
  "or_na h = (case h of Some n \<Rightarrow> show_nat (unat n) | None \<Rightarrow> ''N/A'')"

definition show_transfer :: "transfer \<Rightarrow> string" where
  "show_transfer t =
     new_line @ ''   {Amount: '' @ show_nat (unat (amount t)) @ '', Height: '' @ [CHR 0x22] @ or_na (height t) @ [CHR 0x22] @ ''}''"

definition show_invoice :: "(u64 \<Rightarrow> string) \<Rightarrow> invoice \<Rightarrow> string" where
  "show_invoice show_xmr self =
     ''Index '' @ show_sub_index (index self) @ '': ''
     @ new_line @ ''Paid: '' @ show_xmr (amount_paid self) @ ''/'' @ show_xmr (amount_requested self) @ '' ''
     @ new_line @ ''Confirmations: '' @ or_na (confirmations self) @ '' ''
     @ new_line @ ''Started at: '' @ show_nat (unat (creation_height self)) @ '' ''
     @ new_line @ ''Current height: '' @ show_nat (unat (current_height self)) @ '' ''
     @ new_line @ ''Expiration at: '' @ show_nat (unat (expiration_height self)) @ '' ''
     @ new_line @ ''Description: '' @ [CHR 0x22] @ description self @ [CHR 0x22] @ '' ''
     @ new_line @ ''transfers: ''
     @ new_line @ ''['' @ concat (map show_transfer (transfers self))
     @ (if transfers self = [] then '']'' else new_line @ '']'')"

section \<open>Supporting lemmas\<close>

subsection \<open>Counting transfers is comparing multisets\<close>

lemma count_transfers_snoc: "count_transfers (ts @ [t]) = entry_add_one (count_transfers ts) t"
  by (simp add: count_transfers_def)

lemma map_of_count_transfers:
  "map_of (count_transfers ts) t = (if t \<in> set ts then Some (count (mset ts) t) else None)"
proof (induction ts rule: rev_induct)
  case Nil
  then show ?case by (simp add: count_transfers_def)
next
  case (snoc x ts)
  have "x \<notin> set ts \<Longrightarrow> count (mset ts) x = 0"
    by simp
  with snoc show ?case
    by (auto simp: count_transfers_snoc entry_add_one_def)
qed

lemma distinct_count_transfers: "distinct (map fst (count_transfers ts))"
proof (induction ts rule: rev_induct)
  case Nil
  then show ?case by (simp add: count_transfers_def)
qed (simp add: count_transfers_snoc entry_add_one_def)

lemma hash_map_eq_iff:
  assumes a: "distinct (map fst a)" and b: "distinct (map fst b)"
  shows "hash_map_eq a b \<longleftrightarrow> map_of a = map_of b"
proof
  assume h: "hash_map_eq a b"
  have card: "card (dom (map_of m)) = length m" if "distinct (map fst m)" for m :: "('c \<times> 'd) list"
    using that by (simp add: dom_map_of_conv_image_fst distinct_card flip: set_map)
  have le: "map_of a \<subseteq>\<^sub>m map_of b"
    using h a by (fastforce simp: hash_map_eq_def map_le_def)
  then have "dom (map_of a) \<subseteq> dom (map_of b)" by (rule map_le_implies_dom_le)
  moreover have "card (dom (map_of a)) = card (dom (map_of b))"
    using h card [OF a] card [OF b] by (simp add: hash_map_eq_def)
  ultimately have "dom (map_of a) = dom (map_of b)"
    by (simp add: card_subset_eq finite_dom_map_of)
  with le show "map_of a = map_of b"
    by (metis map_le_antisym map_le_def)
next
  assume eq: "map_of a = map_of b"
  then have "p \<in> set a \<longleftrightarrow> p \<in> set b" for p
    using a b by (metis map_of_eq_Some_iff prod.collapse)
  then have "set a = set b" by blast
  then have "length a = length b"
    using a b by (metis distinct_card distinct_map length_map set_map)
  moreover have "map_of b (fst p) = Some (snd p)" if "p \<in> set a" for p
    using that a eq by (metis map_of_eq_Some_iff prod.collapse)
  ultimately show "hash_map_eq a b" by (simp add: hash_map_eq_def)
qed

lemma hash_map_eq_count:
  "hash_map_eq (count_transfers xs) (count_transfers ys) \<longleftrightarrow> mset xs = mset ys"
proof -
  have "map_of (count_transfers xs) = map_of (count_transfers ys) \<longleftrightarrow> mset xs = mset ys"
    (is "?l \<longleftrightarrow> ?r")
  proof
    assume ?l
    show ?r
    proof (rule multiset_eqI)
      fix t
      from \<open>?l\<close> have "map_of (count_transfers xs) t = map_of (count_transfers ys) t" by simp
      then show "count (mset xs) t = count (mset ys) t"
        by (cases "t \<in> set xs"; cases "t \<in> set ys")
          (simp_all add: map_of_count_transfers iffD2 [OF count_mset_0_iff])
    qed
  next
    assume r: ?r
    then have "set xs = set ys" by (metis set_mset_mset)
    with r show ?l by (simp add: fun_eq_iff map_of_count_transfers)
  qed
  then show ?thesis
    by (simp add: hash_map_eq_iff distinct_count_transfers)
qed

subsection \<open>Decimal fractions\<close>

definition all_digits :: "string \<Rightarrow> bool" where
  "all_digits s \<longleftrightarrow> (\<forall>c \<in> set s. \<exists>d < 10. c = digit_char d)"

lemma all_digits_append [simp]: "all_digits (s @ t) \<longleftrightarrow> all_digits s \<and> all_digits t"
  by (auto simp: all_digits_def)

lemma all_digits_single: "d < 10 \<Longrightarrow> all_digits [digit_char d]"
  by (auto simp: all_digits_def)

lemma all_digits_show_digits: "all_digits (show_digits n k)"
  by (induction n arbitrary: k) (simp_all add: all_digits_single, simp add: all_digits_def)

lemma all_digits_show_nat: "all_digits (show_nat n)"
proof (induction n rule: show_nat.induct)
  case (1 n)
  then show ?case
    by (cases "n < 10") (simp_all add: show_nat.simps [of n] all_digits_single)
qed

lemma length_show_digits [simp]: "length (show_digits n k) = n"
  by (induction n arbitrary: k) auto

lemma read_show_digits: "read_nat (show_digits n k) = k mod 10 ^ n"
proof (induction n arbitrary: k)
  case (Suc n)
  have "10 * (k div 10 mod 10 ^ n) + k mod 10 = k mod (10 * 10 ^ n)"
    by (simp add: mod_mult2_eq)
  with Suc show ?case by simp
qed simp

lemma trim_end_zeros_split:
  obtains m where "s = trim_end_zeros s @ replicate m (digit_char 0)"
proof -
  have "rev s = takeWhile (\<lambda>c. c = digit_char 0) (rev s) @ dropWhile (\<lambda>c. c = digit_char 0) (rev s)"
    by simp
  moreover have "takeWhile (\<lambda>c. c = digit_char 0) (rev s)
      = replicate (length (takeWhile (\<lambda>c. c = digit_char 0) (rev s))) (digit_char 0)"
    by (rule replicate_eqI) (auto dest: set_takeWhileD)
  ultimately show thesis
    by (metis that trim_end_zeros_def rev_append rev_replicate rev_rev_ident)
qed

lemma read_nat_zeros: "read_nat (s @ replicate m (digit_char 0)) = read_nat s * 10 ^ m"
proof (induction m)
  case (Suc m)
  have "s @ replicate (Suc m) (digit_char 0) = (s @ replicate m (digit_char 0)) @ [digit_char 0]"
    by (simp add: replicate_append_same)
  with Suc show ?case by (simp only: read_nat_snoc) simp
qed simp

lemma trim_end_zeros_value:
  "read_nat (trim_end_zeros s) * 10 ^ (length s - length (trim_end_zeros s)) = read_nat s
   \<and> length (trim_end_zeros s) \<le> length s"
proof -
  obtain m where "s = trim_end_zeros s @ replicate m (digit_char 0)"
    by (rule trim_end_zeros_split)
  then show ?thesis
    by (metis add_diff_cancel_left' le_add1 length_append length_replicate read_nat_zeros)
qed

lemma all_digits_trim:
  assumes "all_digits s"
  shows "all_digits (trim_end_zeros s)"
proof -
  obtain m where "s = trim_end_zeros s @ replicate m (digit_char 0)"
    by (rule trim_end_zeros_split)
  with assms show ?thesis by (metis all_digits_append)
qed

lemma trim_start_digits:
  assumes "all_digits s"
  shows "trim_start_str ''0.'' s = s"
proof -
  have "take 2 s \<noteq> ''0.''"
  proof
    assume "take 2 s = ''0.''"
    then have "CHR ''.'' \<in> set s" by (metis in_set_takeD list.set_intros(1,2))
    with assms obtain d where "d < 10" "CHR ''.'' = digit_char d" by (auto simp: all_digits_def)
    then have "of_char (CHR ''.'') = (of_char (digit_char d) :: nat)" by simp
    also have "\<dots> = 48 + d" using \<open>d < 10\<close> by (simp add: digit_char_def)
    finally show False by simp
  qed
  then show ?thesis by (subst trim_start_str.simps) (simp add: numeral_2_eq_2)
qed

lemma f64_fraction_digits:
  assumes "k < 10 ^ 12"
  defines "f \<equiv> trim_start_str ''0.'' (f64_fraction k)"
  shows "all_digits f \<and> f \<noteq> [] \<and> length f \<le> 12 \<and> read_nat f * 10 ^ (12 - length f) = k"
proof (cases "k = 0")
  case True
  have zero: "''0'' = [digit_char 0]" unfolding digit_char_def by code_simp
  have "f = ''0''" using True
    by (simp add: f_def f64_fraction_def zero trim_start_digits all_digits_single)
  then show ?thesis
    using True read_nat_snoc [of "[]" "digit_char 0"] by (simp add: zero all_digits_single)
next
  case False
  let ?t = "trim_end_zeros (show_digits 12 k)"
  have t: "all_digits ?t" by (simp add: all_digits_trim all_digits_show_digits)
  have v: "read_nat ?t * 10 ^ (12 - length ?t) = k \<and> length ?t \<le> 12"
    using trim_end_zeros_value [of "show_digits 12 k"] assms(1) by (simp add: read_show_digits)
  have "f = ?t"
    using False trim_start_digits [OF t]
    by (simp add: f_def f64_fraction_def trim_start_str.simps [of _ "CHR ''0'' # _"])
  moreover have "?t \<noteq> []" using v False by (metis mult_0 read_nat_Nil)
  ultimately show ?thesis using t v by simp
qed

subsection \<open>Printed identifiers\<close>

text \<open>A number is read up to the first character that is no digit.\<close>

lemma show_nat_delimited:
  assumes "\<not> all_digits [c]" and "show_nat a @ c # s = show_nat b @ c # t"
  shows "a = b \<and> s = t"
proof -
  let ?digit = "\<lambda>x. all_digits [x]"
  have digits: "\<forall>x \<in> set (show_nat n). ?digit x" for n using all_digits_show_nat [of n] by (auto simp: all_digits_def)
  have "takeWhile ?digit (show_nat n @ c # r) = show_nat n" for n r
    using digits assms(1) by (subst takeWhile_append2) auto
  then have "show_nat a = show_nat b" using assms(2) by metis
  with assms(2) show ?thesis by (metis append_same_eq read_show_nat same_append_eq list.inject)
qed

text \<open>Two invoice IDs are printed alike only if they are equal: the log tells invoices apart.\<close>

lemma show_invoice_id_inject: "show_invoice_id i = show_invoice_id j \<longleftrightarrow> i = j"
proof
  have "48 \<le> (of_char c :: nat)" if "all_digits [c]" for c using that by (auto simp: all_digits_def digit_char_def)
  then have nd: "\<not> all_digits [c]" if "c \<in> {CHR ''/'', CHR '','', CHR '')''}" for c using that by fastforce
  assume "show_invoice_id i = show_invoice_id j"
  then have eq: "show_nat (unat (major (sub_index i))) @ CHR ''/'' # show_nat (unat (minor (sub_index i))) @ CHR '','' # show_nat (unat (id_height i)) @ CHR '')'' # []
      = show_nat (unat (major (sub_index j))) @ CHR ''/'' # show_nat (unat (minor (sub_index j))) @ CHR '','' # show_nat (unat (id_height j)) @ CHR '')'' # []"
    by (simp add: show_invoice_id_def show_sub_index_def)
  have major: "major (sub_index i) = major (sub_index j)" using show_nat_delimited [OF nd eq] by (simp add: word_unat_eq_iff)
  note rest = show_nat_delimited [OF nd eq, THEN conjunct2]
  have minor: "minor (sub_index i) = minor (sub_index j)" using show_nat_delimited [OF nd rest] by (simp add: word_unat_eq_iff)
  have "id_height i = id_height j" using show_nat_delimited [OF nd show_nat_delimited [OF nd rest, THEN conjunct2]]
    by (simp add: word_unat_eq_iff)
  with major minor show "i = j" by (simp add: invoice_id.expand sub_index.expand)
qed simp

section \<open>Properties\<close>

subsection \<open>Identifiers\<close>

text \<open>Converting an invoice ID to its 128-bit integer and back gives the same ID, and so does
  converting any 128-bit integer to an ID and back: the two conversions are inverse bijections.\<close>

theorem invoice_id_u128_bijection:
  "invoice_id_from_u128 (u128_from_invoice_id i) = i
   \<and> u128_from_invoice_id (invoice_id_from_u128 v) = v"
  by (simp add: invoice_id_u128_roundtrip_aux u128_invoice_id_roundtrip_aux)

text \<open>The order of invoice IDs implemented by \<open>Ord for InvoiceId\<close> (subaddress index first, then
  creation height) is the numeric order of their 128-bit integers.\<close>

theorem invoice_id_order_is_u128_order:
  "i \<le> j \<longleftrightarrow> u128_from_invoice_id i \<le> u128_from_invoice_id j"
proof -
  obtain a b h where i: "i = InvoiceId (SubIndex a b) h"
    by (metis invoice_id.exhaust sub_index.exhaust)
  obtain c d g where j: "j = InvoiceId (SubIndex c d) g"
    by (metis invoice_id.exhaust sub_index.exhaust)
  have lt: "unat b < 2 ^ 32" "unat d < 2 ^ 32" "unat h < 2 ^ 64" "unat g < 2 ^ 64"
    using unsigned_less [of b] unsigned_less [of d] unsigned_less [of h] unsigned_less [of g]
    by auto
  have "u128_from_invoice_id i \<le> u128_from_invoice_id j \<longleftrightarrow>
      unat a * 2 ^ 96 + unat b * 2 ^ 64 + unat h \<le> unat c * 2 ^ 96 + unat d * 2 ^ 64 + unat g"
    by (simp add: i j word_le_nat_alt unat_u128_from_invoice_id)
  also have "\<dots> \<longleftrightarrow> unat a < unat c \<or> unat a = unat c \<and>
      (unat b < unat d \<or> unat b = unat d \<and> unat h \<le> unat g)"
    using lt by (auto simp: not_less)
  also have "\<dots> \<longleftrightarrow> i \<le> j"
    by (auto simp: i j less_eq_invoice_id_iff less_sub_index_def sub_index_cmp_def cmp_def
        word_less_nat_alt word_le_nat_alt word_unat_eq_iff)
  finally show ?thesis by simp
qed

subsection \<open>Equality\<close>

text \<open>\<open>PartialEq for Invoice\<close> holds exactly when the two invoices have the same transfers as
  multisets, in whatever order they are stored, and agree on every other field.\<close>

theorem invoice_eq_iff_mset:
  "invoice_eq a b \<longleftrightarrow> mset (transfers a) = mset (transfers b) \<and> a = b\<lparr>transfers := transfers a\<rparr>"
  by (cases a; cases b) (auto simp: invoice_eq_def hash_map_eq_count)

subsection \<open>Payment URI\<close>

text \<open>C23. The payment URI is \<open>monero:\<close>, the address, \<open>?tx_amount=\<close>, and a decimal number of XMR, whole
  and fractional digits around one dot, that denotes exactly the piconeros still due (zero once the
  invoice is paid in full).\<close>

theorem uri_denotes_amount_due:
  "\<exists>whole frac.
     uri iv = ''monero:'' @ address iv @ ''?tx_amount='' @ whole @ ''.'' @ frac
     \<and> all_digits whole \<and> all_digits frac \<and> frac \<noteq> [] \<and> length frac \<le> 12
     \<and> read_nat whole * 10 ^ 12 + read_nat frac * 10 ^ (12 - length frac)
       = unat (amount_requested iv) - unat (amount_paid iv)"
proof -
  define due where "due = saturating_sub (amount_requested iv) (amount_paid iv)"
  define frac where
    "frac = trim_start_str ''0.'' (f64_fraction (unat (due mod PICONEROS_PER_XMR)))"
  have due: "unat due = unat (amount_requested iv) - unat (amount_paid iv)"
    by (simp add: due_def saturating_sub_def unat_sub word_le_nat_alt)
  have p: "unat PICONEROS_PER_XMR = 10 ^ 12" by (simp add: PICONEROS_PER_XMR_def)
  have "unat (due mod PICONEROS_PER_XMR) < 10 ^ 12"
    by (simp add: unat_mod_distrib p)
  from f64_fraction_digits [OF this]
  have f: "all_digits frac \<and> frac \<noteq> [] \<and> length frac \<le> 12
      \<and> read_nat frac * 10 ^ (12 - length frac) = unat due mod 10 ^ 12"
    by (simp add: frac_def unat_mod_distrib p)
  have "uri iv = ''monero:'' @ address iv @ ''?tx_amount=''
      @ show_nat (unat (due div PICONEROS_PER_XMR)) @ ''.'' @ frac"
    by (simp add: uri_def Let_def due_def frac_def)
  moreover have "unat (due div PICONEROS_PER_XMR) * 10 ^ 12 + unat due mod 10 ^ 12 = unat due"
    by (simp only: unat_div_distrib p) simp
  ultimately show ?thesis
    using f due all_digits_show_nat by (metis read_show_nat)
qed

subsection \<open>Confirmations and expiry\<close>

text \<open>A confirmed invoice is paid in full; if it requires at least one confirmation, the payment is
  in a block (not only in the transaction pool) and the chain has grown by at least the required
  number of blocks since that block.\<close>

theorem confirmed_invoice_is_paid_in_block:
  assumes "is_confirmed iv" and "0 < confirmations_required iv"
  shows "is_paid iv \<and> (\<exists>h. paid_height iv = Some h \<and>
           unat h + unat (confirmations_required iv) \<le> unat (current_height iv))"
proof (cases "paid_height iv")
  case None
  with assms show ?thesis
    by (auto simp: is_confirmed_def confirmations_def split: if_splits)
next
  case (Some h)
  with assms have req: "confirmations_required iv \<le> saturating_sub (current_height iv) h"
    and paid: "is_paid iv"
    by (auto simp: is_confirmed_def confirmations_def is_paid_def split: if_splits)
  then have "h \<le> current_height iv"
    using assms(2) by (auto simp: saturating_sub_def split: if_splits)
  then have "unat (saturating_sub (current_height iv) h) = unat (current_height iv) - unat h"
    and "unat h \<le> unat (current_height iv)"
    by (simp_all add: saturating_sub_def unat_sub word_le_nat_alt)
  with req have "unat h + unat (confirmations_required iv) \<le> unat (current_height iv)"
    by (simp add: word_le_nat_alt)
  with Some paid show ?thesis by blast
qed

theorem confirmed_invoice_is_paid_in_block_witness:
  "let iv = (invoice_new ''a'' (SubIndex 0 1) 100 5 2 10 ''d'')
       \<lparr>amount_paid := 5, paid_height := Some 101, current_height := 104\<rparr>
   in is_paid iv \<and> (\<exists>h. paid_height iv = Some h \<and>
        unat h + unat (confirmations_required iv) \<le> unat (current_height iv))"
  unfolding Let_def
  by (rule confirmed_invoice_is_paid_in_block)
    (simp_all add: is_confirmed_def confirmations_def invoice_new_def saturating_sub_def)

text \<open>\<open>is_expired\<close> and \<open>expiration_in\<close> agree: an invoice whose last update is not older than its
  creation is expired exactly when no blocks are left before its expiration, and a new invoice
  reports the number of blocks it was created with.\<close>

theorem expired_iff_no_blocks_left:
  assumes "creation_height iv \<le> current_height iv" and "unat creation + unat blocks < 2 ^ 64"
  shows "(is_expired iv \<longleftrightarrow> expiration_in iv = 0)
    \<and> expiration_in (invoice_new a i creation r c blocks d) = blocks"
proof
  show "is_expired iv \<longleftrightarrow> expiration_in iv = 0"
    using assms(1)
    by (auto simp: is_expired_def expiration_in_def saturating_sub_def max_def Let_def
        split: if_splits)
next
  have "creation \<le> creation + blocks"
    using assms(2) by (simp add: word_le_nat_alt unat_word_ariths)
  then show "expiration_in (invoice_new a i creation r c blocks d) = blocks"
    by (simp add: expiration_in_def invoice_new_def saturating_sub_def max_def)
qed

theorem expired_iff_no_blocks_left_witness:
  "let iv = (invoice_new ''a'' (SubIndex 0 1) 12345 1 5 10 ''d'')\<lparr>current_height := 12355\<rparr>
   in (is_expired iv \<longleftrightarrow> expiration_in iv = 0) \<and> is_expired iv
      \<and> expiration_in (invoice_new ''a'' (SubIndex 0 1) 12345 1 5 10 ''d'') = 10"
proof -
  let ?iv = "(invoice_new ''a'' (SubIndex 0 1) 12345 1 5 10 ''d'')\<lparr>current_height := 12355\<rparr>"
  have h: "creation_height ?iv \<le> current_height ?iv"
    and b: "unat (12345 :: u64) + unat (10 :: u64) < 2 ^ 64"
    by (simp_all add: invoice_new_def)
  have "is_expired ?iv" by (simp add: is_expired_def invoice_new_def)
  then show ?thesis
    using expired_iff_no_blocks_left [OF h b, of "''a''" "SubIndex 0 1" 1 5 "''d''"]
    by (simp add: Let_def)
qed

end
