(* ===== verification/Storage_Spec.thy ===== *)
theory Storage_Spec
  imports Invoice
begin

text \<open>
  The storage traits of \<open>library/src/storage\<close> (\<open>InvoiceStorage\<close>, \<open>OutputKeyStorage\<close>, \<open>HeightStorage\<close>,
  \<open>Storage\<close>).  A type that implements \<open>Storage\<close> is a record of its methods, each a function of the
  store's state; generic code takes that record as an argument, as the Rust code takes \<open>S: Storage\<close>.
  The laws that the trait documentation promises are locales over such a record and an abstraction
  of the store's state: a map from identifiers to invoices, a map from output keys to output IDs,
  and an optional height.
\<close>

section \<open>Stored data and the traits\<close>

type_synonym output_pub_key = "256 word"  \<comment> \<open>\<open>OutputPubKey([u8; 32])\<close>\<close>

datatype output_id = OutputId (output_tx_hash: hash) (output_index: u8)

record ('s, 'e) storage =
  inv_insert :: "invoice \<Rightarrow> 's \<Rightarrow> (unit, 'e) result \<times> 's"
  inv_remove :: "invoice_id \<Rightarrow> 's \<Rightarrow> (invoice option, 'e) result \<times> 's"
  inv_update :: "invoice \<Rightarrow> 's \<Rightarrow> (invoice option, 'e) result \<times> 's"
  inv_get :: "invoice_id \<Rightarrow> 's \<Rightarrow> (invoice option, 'e) result"
  inv_get_ids :: "'s \<Rightarrow> (invoice_id list, 'e) result"
  inv_contains_sub_index :: "sub_index \<Rightarrow> 's \<Rightarrow> (bool, 'e) result"
  inv_rows :: "'s \<Rightarrow> ((invoice, 'e) result list, 'e) result"
    \<comment> \<open>what \<open>try_for_each\<close> hands to its closure, in order, or the error with which it fails before\<close>
  inv_is_empty :: "'s \<Rightarrow> (bool, 'e) result"
  key_insert :: "output_pub_key \<Rightarrow> output_id \<Rightarrow> 's \<Rightarrow> (unit, 'e) result \<times> 's"
  key_get :: "output_pub_key \<Rightarrow> 's \<Rightarrow> (output_id option, 'e) result"
  height_upsert :: "u64 \<Rightarrow> 's \<Rightarrow> (u64 option, 'e) result \<times> 's"
  height_get :: "'s \<Rightarrow> (u64 option, 'e) result"
  store_flush :: "'s \<Rightarrow> (unit, 'e) result"

text \<open>
  \<open>try_for_each\<close>: the closure may change what it has captured (\<open>'acc\<close>) and stops the iteration by
  returning an error.
\<close>

fun try_rows ::
  "(('a, 'e) result \<Rightarrow> 'acc \<Rightarrow> (unit, 'e) result \<times> 'acc) \<Rightarrow> ('a, 'e) result list \<Rightarrow> 'acc
     \<Rightarrow> (unit, 'e) result \<times> 'acc" where
  "try_rows f [] acc = (Ok (), acc)"
| "try_rows f (r # rs) acc = try_st (f r acc) (\<lambda>_ acc'. try_rows f rs acc')"

definition try_for_each ::
  "('s, 'e) storage \<Rightarrow> ((invoice, 'e) result \<Rightarrow> 'acc \<Rightarrow> (unit, 'e) result \<times> 'acc) \<Rightarrow> 's \<Rightarrow> 'acc
     \<Rightarrow> (unit, 'e) result \<times> 'acc" where
  "try_for_each S f s acc =
     (case inv_rows S s of Ok rows \<Rightarrow> try_rows f rows acc | Err e \<Rightarrow> (Err e, acc) | Panic \<Rightarrow> (Panic, acc))"

text \<open>The default method \<open>lowest_height\<close>; the captured variable is \<open>lowest\<close>.\<close>

definition lowest_height_closure ::
  "(invoice, 'e) result \<Rightarrow> u64 option \<Rightarrow> (unit, 'e) result \<times> u64 option" where
  "lowest_height_closure invoice_or_err lowest =
     (case invoice_or_err of
        Ok invoice \<Rightarrow>
          (let current = current_height invoice
           in (Ok (),
               case lowest of
                 Some l \<Rightarrow> if l > current then Some current else lowest
               | None \<Rightarrow> Some current))
      | Err e \<Rightarrow> (Err e, lowest)
      | Panic \<Rightarrow> (Panic, lowest))"

definition lowest_height :: "('s, 'e) storage \<Rightarrow> 's \<Rightarrow> (u64 option, 'e) result" where
  "lowest_height S s =
     (case try_for_each S lowest_height_closure s None of
        (Ok _, lowest) \<Rightarrow> Ok lowest
      | (Err e, _) \<Rightarrow> Err e
      | (Panic, _) \<Rightarrow> Panic)"

lemma try_rows_Ok_append:
  assumes "\<And>x acc. x \<in> set xs \<Longrightarrow> \<exists>acc'. f (Ok x) acc = (Ok (), acc')"
  shows "try_rows f (map Ok xs) acc = (Ok (), foldl (\<lambda>a x. snd (f (Ok x) a)) acc xs)"
  using assms
proof (induction xs arbitrary: acc)
  case (Cons x xs)
  obtain acc' where "f (Ok x) acc = (Ok (), acc')"
    using Cons.prems by force
  with Cons show ?case by simp
qed simp

section \<open>What the traits promise\<close>

text \<open>
  \<open>InvoiceStorage\<close>.  The laws speak of calls that return \<open>Ok\<close>; a failing call keeps the store well
  formed.  \<open>contains_sub_index\<close> is required to find a stored invoice; finding none when there is none
  is the stronger contract \<open>exact_invoice_storage\<close>.
\<close>

locale invoice_storage =
  fixes S :: "('s, 'e) storage"
    and wf :: "'s \<Rightarrow> bool"
    and invoices :: "'s \<Rightarrow> invoice_id \<Rightarrow> invoice option"
  assumes ident: "wf s \<Longrightarrow> invoices s i = Some v \<Longrightarrow> invoice_ident v = i"
    and insert_wf: "wf s \<Longrightarrow> wf (snd (inv_insert S v s))"
    and insert_Ok: "wf s \<Longrightarrow> inv_insert S v s = (Ok (), s') \<Longrightarrow>
      invoices s (invoice_ident v) = None \<and> invoices s' = (invoices s)(invoice_ident v \<mapsto> v)"
    and insert_fail: "wf s \<Longrightarrow> inv_insert S v s = (ru, s') \<Longrightarrow> ru \<noteq> Ok () \<Longrightarrow> invoices s' = invoices s"
    and remove_wf: "wf s \<Longrightarrow> wf (snd (inv_remove S i s))"
    and remove_Ok: "wf s \<Longrightarrow> inv_remove S i s = (Ok r, s') \<Longrightarrow>
      r = invoices s i \<and> invoices s' = (invoices s)(i := None)"
    and remove_fail: "wf s \<Longrightarrow> inv_remove S i s = (rv, s') \<Longrightarrow> (\<And>x. rv \<noteq> Ok x) \<Longrightarrow>
      invoices s' = invoices s"
    and update_wf: "wf s \<Longrightarrow> wf (snd (inv_update S v s))"
    and update_Ok: "wf s \<Longrightarrow> inv_update S v s = (Ok r, s') \<Longrightarrow>
      r = invoices s (invoice_ident v) \<and>
      invoices s' = (if r = None then invoices s else (invoices s)(invoice_ident v \<mapsto> v))"
    and update_fail: "wf s \<Longrightarrow> inv_update S v s = (rv, s') \<Longrightarrow> (\<And>x. rv \<noteq> Ok x) \<Longrightarrow>
      invoices s' = invoices s"
    and get_Ok: "wf s \<Longrightarrow> inv_get S i s = Ok r \<Longrightarrow> r = invoices s i"
    and get_ids_Ok: "wf s \<Longrightarrow> inv_get_ids S s = Ok ids \<Longrightarrow> distinct ids \<and> set ids = dom (invoices s)"
    and contains_complete: "wf s \<Longrightarrow> invoices s i = Some v \<Longrightarrow>
      inv_contains_sub_index S (sub_index i) s \<noteq> Ok False"
    and rows_sound: "wf s \<Longrightarrow> inv_rows S s = Ok rows \<Longrightarrow> Ok v \<in> set rows \<Longrightarrow> invoices s (invoice_ident v) = Some v"
    and rows_complete: "wf s \<Longrightarrow> inv_rows S s = Ok rows \<Longrightarrow> invoices s i = Some v \<Longrightarrow>
      (\<forall>row \<in> set rows. \<exists>x. row = Ok x) \<Longrightarrow> Ok v \<in> set rows"

locale exact_invoice_storage = invoice_storage +
  assumes contains_exact: "wf s \<Longrightarrow> inv_contains_sub_index S idx s = Ok b \<Longrightarrow>
    b \<longleftrightarrow> (\<exists>i \<in> dom (invoices s). sub_index i = idx)"

text \<open>\<open>OutputKeyStorage\<close>: a key, once inserted, keeps its output ID.\<close>

locale output_key_storage =
  fixes S :: "('s, 'e) storage"
    and wf :: "'s \<Rightarrow> bool"
    and out_keys :: "'s \<Rightarrow> output_pub_key \<Rightarrow> output_id option"
  assumes key_insert_wf: "wf s \<Longrightarrow> wf (snd (key_insert S k oid s))"
    and key_insert_Ok: "wf s \<Longrightarrow> key_insert S k oid s = (Ok (), s') \<Longrightarrow>
      out_keys s k = None \<and> out_keys s' = (out_keys s)(k \<mapsto> oid)"
    and key_insert_fail: "wf s \<Longrightarrow> key_insert S k oid s = (ru, s') \<Longrightarrow> ru \<noteq> Ok () \<Longrightarrow> out_keys s' = out_keys s"
    and key_get_Ok: "wf s \<Longrightarrow> key_get S k s = Ok r \<Longrightarrow> r = out_keys s k"

text \<open>\<open>HeightStorage\<close>.\<close>

locale height_storage =
  fixes S :: "('s, 'e) storage"
    and wf :: "'s \<Rightarrow> bool"
    and stored_height :: "'s \<Rightarrow> u64 option"
  assumes upsert_wf: "wf s \<Longrightarrow> wf (snd (height_upsert S h s))"
    and upsert_Ok: "wf s \<Longrightarrow> height_upsert S h s = (Ok r, s') \<Longrightarrow>
      r = stored_height s \<and> stored_height s' = Some h"
    and height_get_Ok: "wf s \<Longrightarrow> height_get S s = Ok r \<Longrightarrow> r = stored_height s"

text \<open>\<open>Storage\<close>: the three traits on one state, none disturbing another's data.\<close>

locale full_storage =
  invoice_storage S wf invoices + output_key_storage S wf out_keys + height_storage S wf stored_height
  for S :: "('s, 'e) storage" and wf :: "'s \<Rightarrow> bool"
    and invoices :: "'s \<Rightarrow> invoice_id \<Rightarrow> invoice option"
    and out_keys :: "'s \<Rightarrow> output_pub_key \<Rightarrow> output_id option"
    and stored_height :: "'s \<Rightarrow> u64 option" +
  assumes key_insert_invoices: "wf s \<Longrightarrow> invoices (snd (key_insert S k oid s)) = invoices s"
    and upsert_invoices: "wf s \<Longrightarrow> invoices (snd (height_upsert S h s)) = invoices s"
    and upsert_keys: "wf s \<Longrightarrow> out_keys (snd (height_upsert S h s)) = out_keys s"
    and update_keys: "wf s \<Longrightarrow> out_keys (snd (inv_update S v s)) = out_keys s"
    and insert_keys: "wf s \<Longrightarrow> out_keys (snd (inv_insert S v s)) = out_keys s"
    and remove_keys: "wf s \<Longrightarrow> out_keys (snd (inv_remove S i s)) = out_keys s"

text \<open>A store whose reads and updates of invoices always return.\<close>

locale reliable_storage = full_storage S wf invoices out_keys stored_height
  for S :: "('s, 'e) storage" and wf :: "'s \<Rightarrow> bool"
    and invoices :: "'s \<Rightarrow> invoice_id \<Rightarrow> invoice option"
    and out_keys :: "'s \<Rightarrow> output_pub_key \<Rightarrow> output_id option"
    and stored_height :: "'s \<Rightarrow> u64 option" +
  assumes update_returns: "wf s \<Longrightarrow> \<exists>old s'. inv_update S v s = (Ok old, s')"
    and rows_return: "wf s \<Longrightarrow> \<exists>vs. inv_rows S s = Ok (map Ok vs)"

section \<open>Consequences for any store\<close>

context invoice_storage
begin

lemma insert_then_get:
  assumes "wf s" and "inv_insert S v s = (Ok (), s')" and "inv_get S (invoice_ident v) s' = Ok r"
  shows "r = Some v"
proof -
  have "wf s'" using insert_wf [OF assms(1), of v] assms(2) by simp
  from get_Ok [OF this assms(3)] insert_Ok [OF assms(1,2)] show ?thesis by simp
qed

lemma insert_existing_fails:
  assumes "wf s" and "invoices s (invoice_ident v) = Some w"
  shows "fst (inv_insert S v s) \<noteq> Ok ()"
proof
  assume "fst (inv_insert S v s) = Ok ()"
  then have "inv_insert S v s = (Ok (), snd (inv_insert S v s))" by (metis prod.collapse)
  from insert_Ok [OF assms(1) this] assms(2) show False by simp
qed

lemma remove_then_get:
  assumes "wf s" and "inv_remove S i s = (Ok r, s')" and "inv_get S i s' = Ok r'"
  shows "r' = None"
proof -
  have "wf s'" using remove_wf [OF assms(1), of i] assms(2) by simp
  from get_Ok [OF this assms(3)] remove_Ok [OF assms(1,2)] show ?thesis by simp
qed

lemma update_missing_inserts_nothing:
  assumes "wf s" and "invoices s (invoice_ident v) = None" and "inv_update S v s = (Ok r, s')"
  shows "r = None \<and> invoices s' = invoices s"
  using update_Ok [OF assms(1,3)] assms(2) by simp

lemma tracked_sub_index_is_found:
  assumes "wf s" and "inv_rows S s = Ok rows" and "Ok v \<in> set rows"
  shows "inv_contains_sub_index S (index v) s \<noteq> Ok False"
  using contains_complete [OF assms(1) rows_sound [OF assms]] by (simp add: invoice_ident_def)

end

lemma lowest_height_rows_Ok:
  fixes S :: "('s, 'e) storage"
  assumes rows: "inv_rows S s = Ok (map Ok xs)"
  shows "lowest_height S s
    = Ok (case xs of [] \<Rightarrow> None | _ \<Rightarrow> Some (Min (current_height ` set xs)))"
proof -
  let ?step = "\<lambda>a x. snd (lowest_height_closure (Ok x :: (invoice, 'e) result) a)"
  have f: "try_rows lowest_height_closure (map Ok xs :: (invoice, 'e) result list) None
      = (Ok (), foldl ?step None xs)"
    by (rule try_rows_Ok_append) (simp add: lowest_height_closure_def Let_def)
  have step: "?step (Some l) x = Some (min (current_height x) l)" for l x
    by (auto simp: lowest_height_closure_def Let_def min_def)
  have min: "Min (insert l (insert c F)) = Min (insert (min c l) F)" if "finite F"
    for l c :: u64 and F
    using that by (cases "F = {}") (simp_all add: min.commute min.left_commute)
  have some: "foldl ?step (Some l) ys = Some (Min (insert l (current_height ` set ys)))" for l ys
  proof (induction ys arbitrary: l)
    case (Cons y ys)
    then show ?case by (simp only: foldl.simps step min finite_imageI finite_set set_simps image_insert)
  qed simp
  have first: "?step None x = Some (current_height x)" for x
    by (simp add: lowest_height_closure_def Let_def)
  have "foldl ?step None xs
      = (case xs of [] \<Rightarrow> None | _ \<Rightarrow> Some (Min (current_height ` set xs)))"
  proof (cases xs)
    case (Cons x ys)
    have "foldl ?step None xs = foldl ?step (Some (current_height x)) ys"
      by (simp only: Cons foldl.simps first)
    also have "\<dots> = Some (Min (current_height ` set xs))"
      by (simp only: some Cons set_simps image_insert)
    finally show ?thesis by (simp add: Cons)
  qed simp
  then show ?thesis
    unfolding lowest_height_def try_for_each_def rows result.case f by simp
qed

end
