(* ===== verification/In_Memory.thy ===== *)
theory In_Memory
  imports Storage_Spec
begin

text \<open>
  \<open>library/src/storage/stores/in_memory.rs\<close>: the store kept in two \<open>BTreeMap\<close>s and an optional
  height.  \<open>in_memory\<close> is its implementation of the traits; it satisfies the storage contract, but
  not the exact form of \<open>contains_sub_index\<close>.
\<close>

section \<open>The store and its methods\<close>

datatype in_memory_storage_error = DuplicateInvoice | DuplicateOutputKey

record in_memory_store =
  im_invoices :: "(invoice_id, invoice) btree_map"
  im_output_keys :: "(output_pub_key, output_id) btree_map"
  im_height :: "u64 option"

definition im_new :: in_memory_store where
  "im_new = \<lparr>im_invoices = [], im_output_keys = [], im_height = None\<rparr>"

definition im_invoice_insert ::
  "invoice \<Rightarrow> in_memory_store \<Rightarrow> (unit, in_memory_storage_error) result \<times> in_memory_store" where
  "im_invoice_insert invoice self =
     (if map_of (im_invoices self) (invoice_ident invoice) \<noteq> None
      then (Err DuplicateInvoice, self)
      else (Ok (), self\<lparr>im_invoices := bt_insert (invoice_ident invoice) invoice (im_invoices self)\<rparr>))"

definition im_invoice_remove ::
  "invoice_id \<Rightarrow> in_memory_store
     \<Rightarrow> (invoice option, in_memory_storage_error) result \<times> in_memory_store" where
  "im_invoice_remove invoice_id self =
     (Ok (map_of (im_invoices self) invoice_id),
      self\<lparr>im_invoices := bt_remove invoice_id (im_invoices self)\<rparr>)"

definition im_invoice_update ::
  "invoice \<Rightarrow> in_memory_store
     \<Rightarrow> (invoice option, in_memory_storage_error) result \<times> in_memory_store" where
  "im_invoice_update invoice self =
     (case map_of (im_invoices self) (invoice_ident invoice) of
        Some old \<Rightarrow>
          (Ok (Some old),
           self\<lparr>im_invoices := bt_insert (invoice_ident invoice) invoice (im_invoices self)\<rparr>)
      | None \<Rightarrow> (Ok None, self))"

definition im_invoice_get ::
  "invoice_id \<Rightarrow> in_memory_store \<Rightarrow> (invoice option, in_memory_storage_error) result" where
  "im_invoice_get invoice_id self = Ok (map_of (im_invoices self) invoice_id)"

definition im_get_ids :: "in_memory_store \<Rightarrow> (invoice_id list, in_memory_storage_error) result" where
  "im_get_ids self = Ok (map fst (im_invoices self))"

text \<open>\<open>range(InvoiceId::new(sub_index, 0)..)\<close>: every entry from that key on, whatever its index.\<close>

definition im_contains_sub_index ::
  "sub_index \<Rightarrow> in_memory_store \<Rightarrow> (bool, in_memory_storage_error) result" where
  "im_contains_sub_index idx self =
     Ok (filter (\<lambda>p. InvoiceId idx 0 \<le> fst p) (im_invoices self) \<noteq> [])"

definition im_rows ::
  "in_memory_store \<Rightarrow> ((invoice, in_memory_storage_error) result list, in_memory_storage_error) result" where
  "im_rows self = Ok (map Ok (map snd (im_invoices self)))"

definition im_is_empty :: "in_memory_store \<Rightarrow> (bool, in_memory_storage_error) result" where
  "im_is_empty self = Ok (im_invoices self = [])"

definition im_key_insert ::
  "output_pub_key \<Rightarrow> output_id \<Rightarrow> in_memory_store
     \<Rightarrow> (unit, in_memory_storage_error) result \<times> in_memory_store" where
  "im_key_insert key output_id self =
     (if map_of (im_output_keys self) key \<noteq> None
      then (Err DuplicateOutputKey, self)
      else (Ok (), self\<lparr>im_output_keys := bt_insert key output_id (im_output_keys self)\<rparr>))"

definition im_key_get ::
  "output_pub_key \<Rightarrow> in_memory_store \<Rightarrow> (output_id option, in_memory_storage_error) result" where
  "im_key_get key self = Ok (map_of (im_output_keys self) key)"

definition im_height_upsert ::
  "u64 \<Rightarrow> in_memory_store \<Rightarrow> (u64 option, in_memory_storage_error) result \<times> in_memory_store" where
  "im_height_upsert h self = (let old_height = im_height self in (Ok old_height, self\<lparr>im_height := Some h\<rparr>))"

definition im_height_get :: "in_memory_store \<Rightarrow> (u64 option, in_memory_storage_error) result" where
  "im_height_get self = Ok (im_height self)"

definition in_memory :: "(in_memory_store, in_memory_storage_error) storage" where
  "in_memory =
     \<lparr>inv_insert = im_invoice_insert, inv_remove = im_invoice_remove, inv_update = im_invoice_update,
      inv_get = im_invoice_get, inv_get_ids = im_get_ids,
      inv_contains_sub_index = im_contains_sub_index, inv_rows = im_rows,
      inv_is_empty = im_is_empty, key_insert = im_key_insert, key_get = im_key_get,
      height_upsert = im_height_upsert, height_get = im_height_get,
      store_flush = (\<lambda>_. Ok ())\<rparr>"

section \<open>The contract holds\<close>

definition im_wf :: "in_memory_store \<Rightarrow> bool" where
  "im_wf s \<longleftrightarrow> bt_ok (im_invoices s) \<and> bt_ok (im_output_keys s) \<and>
     (\<forall>p \<in> set (im_invoices s). invoice_ident (snd p) = fst p)"

definition im_invoice_map :: "in_memory_store \<Rightarrow> invoice_id \<Rightarrow> invoice option" where
  "im_invoice_map s = map_of (im_invoices s)"

definition im_key_map :: "in_memory_store \<Rightarrow> output_pub_key \<Rightarrow> output_id option" where
  "im_key_map s = map_of (im_output_keys s)"

lemmas im_method_defs = im_invoice_insert_def im_invoice_remove_def im_invoice_update_def
  im_invoice_get_def im_get_ids_def im_rows_def im_is_empty_def im_key_insert_def im_key_get_def
  im_height_upsert_def im_height_get_def Let_def

lemma in_memory_sel [simp]:
  "inv_insert in_memory = im_invoice_insert" "inv_remove in_memory = im_invoice_remove"
  "inv_update in_memory = im_invoice_update" "inv_get in_memory = im_invoice_get"
  "inv_get_ids in_memory = im_get_ids" "inv_contains_sub_index in_memory = im_contains_sub_index"
  "inv_rows in_memory = im_rows" "key_insert in_memory = im_key_insert"
  "key_get in_memory = im_key_get" "height_upsert in_memory = im_height_upsert"
  "height_get in_memory = im_height_get" "store_flush in_memory = (\<lambda>_. Ok ())"
  "inv_is_empty in_memory = im_is_empty"
  by (simp_all add: in_memory_def)

lemma im_wf_new: "im_wf im_new"
  by (simp add: im_wf_def im_new_def)

lemma im_contains_iff:
  "im_contains_sub_index idx s = Ok b \<longleftrightarrow> b = (\<exists>p \<in> set (im_invoices s). idx \<le> sub_index (fst p))"
proof -
  have "InvoiceId idx 0 \<le> k \<longleftrightarrow> idx \<le> sub_index k" for k
    by (cases k) (auto simp: less_eq_invoice_id_iff)
  then show ?thesis
    by (auto simp: im_contains_sub_index_def filter_empty_conv)
qed

interpretation im: full_storage in_memory im_wf im_invoice_map im_key_map im_height
proof (unfold_locales, goal_cases)
  case (1 s i v)
  then show ?case by (auto simp: im_wf_def im_invoice_map_def bt_ok_map_of)
next
  case (12 s ids)
  then show ?case
    by (simp add: im_wf_def im_get_ids_def im_invoice_map_def bt_ok_def dom_map_of_conv_image_fst)
      (metis list.set_map)
next
  case (13 s i v)
  then have "(i, v) \<in> set (im_invoices s)"
    by (simp add: im_wf_def im_invoice_map_def bt_ok_map_of)
  then have "im_contains_sub_index (sub_index i) s = Ok True"
    unfolding im_contains_iff by force
  then show ?case by simp
next
  case (14 s rows v)
  then show ?case
    by (force simp: im_wf_def im_invoice_map_def im_rows_def bt_ok_map_of)
next
  case (15 s rows i v)
  then show ?case
    by (force simp: im_wf_def im_invoice_map_def im_rows_def bt_ok_map_of)
qed (auto simp: im_method_defs im_wf_def im_invoice_map_def im_key_map_def
    split: if_splits option.splits)

interpretation imr: reliable_storage in_memory im_wf im_invoice_map im_key_map im_height
proof
  fix s :: in_memory_store and v :: invoice
  show "\<exists>old s'. inv_update in_memory v s = (Ok old, s')"
    by (auto simp: im_method_defs split: option.splits)
  have "inv_rows in_memory s = Ok (map Ok (map snd (im_invoices s)))"
    by (simp add: im_method_defs im_rows_def)
  then show "\<exists>vs. inv_rows in_memory s = Ok (map Ok vs)" by blast
qed

section \<open>Properties\<close>

text \<open>The in-memory store's operations on every branch: inserting a new ID stores the invoice and
  inserting a stored ID fails with \<open>DuplicateInvoice\<close> and changes nothing; \<open>update\<close> returns the old
  invoice and replaces it, or does nothing when there is none; \<open>remove\<close> returns the old invoice and
  deletes it; no other ID is touched; and the store stays well formed.\<close>

theorem in_memory_invoice_operations:
  assumes "im_wf s"
  shows "im_invoice_insert v s =
      (if im_invoice_map s (invoice_ident v) = None
       then (Ok (), s\<lparr>im_invoices := bt_insert (invoice_ident v) v (im_invoices s)\<rparr>)
       else (Err DuplicateInvoice, s))
    \<and> (\<forall>j. im_invoice_map (snd (im_invoice_insert v s)) j =
         (if j = invoice_ident v \<and> im_invoice_map s j = None then Some v else im_invoice_map s j))
    \<and> fst (im_invoice_update v s) = Ok (im_invoice_map s (invoice_ident v))
    \<and> (\<forall>j. im_invoice_map (snd (im_invoice_update v s)) j =
         (if j = invoice_ident v \<and> im_invoice_map s j \<noteq> None then Some v else im_invoice_map s j))
    \<and> fst (im_invoice_remove i s) = Ok (im_invoice_map s i)
    \<and> (\<forall>j. im_invoice_map (snd (im_invoice_remove i s)) j =
         (if j = i then None else im_invoice_map s j))
    \<and> im_wf (snd (im_invoice_insert v s)) \<and> im_wf (snd (im_invoice_update v s))
    \<and> im_wf (snd (im_invoice_remove i s))"
  using im.insert_wf [OF assms, of v] im.update_wf [OF assms, of v] im.remove_wf [OF assms, of i]
  by (auto simp: im_invoice_insert_def im_invoice_update_def im_invoice_remove_def
      im_invoice_map_def split: option.splits)

theorem in_memory_invoice_operations_witness:
  "let v = invoice_new ''a'' (SubIndex 1 2) 3 4 5 6 ''d''
   in im_invoice_insert v im_new = (Ok (), im_new\<lparr>im_invoices := [(InvoiceId (SubIndex 1 2) 3, v)]\<rparr>)"
  using in_memory_invoice_operations [OF im_wf_new,
      of "invoice_new ''a'' (SubIndex 1 2) 3 4 5 6 ''d''"]
  by (simp add: Let_def im_new_def im_invoice_map_def invoice_ident_def invoice_new_def
      bt_insert_def bt_remove_def)

text \<open>The in-memory \<open>contains_sub_index\<close> does not do what the trait documents: it answers whether
  some stored invoice has a subaddress index at least as large as the given one, so it reports
  indices no invoice uses, and the store does not satisfy the exact contract.\<close>

theorem in_memory_contains_sub_index_not_exact:
  "(im_contains_sub_index idx s = Ok b \<longleftrightarrow>
      b = (\<exists>p \<in> set (im_invoices s). idx \<le> sub_index (fst p)))
   \<and> \<not> exact_invoice_storage in_memory im_wf im_invoice_map"
proof
  show "im_contains_sub_index idx s = Ok b \<longleftrightarrow>
      b = (\<exists>p \<in> set (im_invoices s). idx \<le> sub_index (fst p))"
    by (rule im_contains_iff)
  define v where "v = invoice_new ''a'' (SubIndex 0 7) 3 4 5 6 ''d''"
  define st where "st = im_new\<lparr>im_invoices := [(invoice_ident v, v)]\<rparr>"
  have wf: "im_wf st" by (simp add: im_wf_def im_new_def bt_ok_def st_def)
  have i: "invoice_ident v = InvoiceId (SubIndex 0 7) 3"
    by (simp add: v_def invoice_ident_def invoice_new_def)
  have c: "inv_contains_sub_index in_memory (SubIndex 0 1) st = Ok True"
    by (simp add: im_contains_iff st_def im_new_def i less_eq_sub_index_iff)
  have d: "dom (im_invoice_map st) = {InvoiceId (SubIndex 0 7) 3}"
    by (simp add: im_invoice_map_def st_def im_new_def i)
  show "\<not> exact_invoice_storage in_memory im_wf im_invoice_map"
  proof
    assume exact: "exact_invoice_storage in_memory im_wf im_invoice_map"
    from exact_invoice_storage.contains_exact [OF exact wf c] d show False by simp
  qed
qed

text \<open>\<open>lowest_height\<close> of the in-memory store is the smallest current height of the stored invoices,
  and \<open>None\<close> for an empty store.\<close>

theorem in_memory_lowest_height:
  "lowest_height in_memory s =
     Ok (if im_invoices s = [] then None
         else Some (Min ((\<lambda>p. current_height (snd p)) ` set (im_invoices s))))"
proof -
  have "lowest_height in_memory s = Ok (case map snd (im_invoices s) of [] \<Rightarrow> None
      | _ \<Rightarrow> Some (Min (current_height ` set (map snd (im_invoices s)))))"
    by (rule lowest_height_rows_Ok) (simp add: im_rows_def)
  then show ?thesis
    by (cases "im_invoices s") (simp_all add: image_image)
qed

end
