(* ===== verification/Storage_Client.thy ===== *)
theory Storage_Client
  imports Storage_Spec In_Memory
begin

text \<open>
  \<open>library/src/storage/mod.rs\<close>: the storage manager, which owns the store and serves one \<open>Method\<close>
  message at a time, and the client, whose every call sends a message with a one-shot response
  channel and waits for the answer.

  The manager is \<open>Some\<close> store while its task runs and \<open>None\<close> once the task is gone.  A call to a
  stopped manager fails with \<open>Send\<close>.  A store method that panics ends the task before it answers,
  so the waiting client gets \<open>Receive\<close>.
\<close>

section \<open>Messages, responses, errors\<close>

datatype 'e storage_error = Send | Receive | Internal 'e

datatype ('e, 'acc) storage_method =
    InsertInvoice invoice
  | RemoveInvoice invoice_id
  | UpdateInvoice invoice
  | GetInvoice invoice_id
  | GetInvoiceIds
  | ContainsSubIndex sub_index
  | ForEachInvoice "(invoice, 'e) result \<Rightarrow> 'acc \<Rightarrow> (unit, 'e) result \<times> 'acc" 'acc
  | LowestInvoiceHeight
  | GetHeight
  | UpsertHeight u64
  | GetOutputKeyId output_pub_key
  | InsertOutputKey output_pub_key output_id
  | Flush

datatype ('e, 'acc) response =
    UnitResponse "(unit, 'e) result"
  | InvoiceResponse "(invoice option, 'e) result"
  | IdsResponse "(invoice_id list, 'e) result"
  | BoolResponse "(bool, 'e) result"
  | ForEachResponse "(unit, 'e) result" 'acc
  | HeightResponse "(u64 option, 'e) result"
  | OutputIdResponse "(output_id option, 'e) result"

section \<open>\<open>Manager::handle\<close>\<close>

fun handle ::
  "('s, 'e) storage \<Rightarrow> ('e, 'acc) storage_method \<Rightarrow> 's \<Rightarrow> ('e, 'acc) response \<times> 's" where
  "handle S (InsertInvoice invoice) store =
     (let (r, store') = inv_insert S invoice store in (UnitResponse r, store'))"
| "handle S (RemoveInvoice i) store =
     (let (r, store') = inv_remove S i store in (InvoiceResponse r, store'))"
| "handle S (UpdateInvoice invoice) store =
     (let (r, store') = inv_update S invoice store in (InvoiceResponse r, store'))"
| "handle S (GetInvoice i) store = (InvoiceResponse (inv_get S i store), store)"
| "handle S GetInvoiceIds store = (IdsResponse (inv_get_ids S store), store)"
| "handle S (ContainsSubIndex idx) store =
     (BoolResponse (inv_contains_sub_index S idx store), store)"
| "handle S (ForEachInvoice f acc) store =
     (let (r, acc') = try_for_each S f store acc in (ForEachResponse r acc', store))"
| "handle S LowestInvoiceHeight store = (HeightResponse (lowest_height S store), store)"
| "handle S GetHeight store = (HeightResponse (height_get S store), store)"
| "handle S (UpsertHeight h) store =
     (let (r, store') = height_upsert S h store in (HeightResponse r, store'))"
| "handle S (GetOutputKeyId key) store = (OutputIdResponse (key_get S key store), store)"
| "handle S (InsertOutputKey key output_id) store =
     (let (r, store') = key_insert S key output_id store in (UnitResponse r, store'))"
| "handle S Flush store = (UnitResponse (store_flush S store), store)"

fun panicked :: "('e, 'acc) response \<Rightarrow> bool" where
  "panicked (UnitResponse r) \<longleftrightarrow> r = Panic"
| "panicked (InvoiceResponse r) \<longleftrightarrow> r = Panic"
| "panicked (IdsResponse r) \<longleftrightarrow> r = Panic"
| "panicked (BoolResponse r) \<longleftrightarrow> r = Panic"
| "panicked (ForEachResponse r acc) \<longleftrightarrow> r = Panic"
| "panicked (HeightResponse r) \<longleftrightarrow> r = Panic"
| "panicked (OutputIdResponse r) \<longleftrightarrow> r = Panic"

text \<open>One round trip: send the message, let the manager handle it, receive the response.\<close>

definition round_trip ::
  "('s, 'e) storage \<Rightarrow> ('e, 'acc) storage_method \<Rightarrow> 's option
     \<Rightarrow> (('e, 'acc) response, 'e storage_error) result \<times> 's option" where
  "round_trip S msg mgr =
     (case mgr of
        None \<Rightarrow> (Err Send, None)
      | Some store \<Rightarrow>
          (let (resp, store') = handle S msg store
           in if panicked resp then (Err Receive, None) else (Ok resp, Some store')))"

section \<open>The client's calls\<close>

text \<open>
  Each one-shot channel is typed, so a call only ever sees the response of its own kind; the last
  branch of each \<open>case\<close> is there for totality and is never taken (\<open>client_calls\<close> below).
\<close>

definition client_insert_invoice ::
  "('s, 'e) storage \<Rightarrow> invoice \<Rightarrow> 's option \<Rightarrow> (unit, 'e storage_error) result \<times> 's option" where
  "client_insert_invoice S invoice mgr =
     try_st (round_trip S (InsertInvoice invoice :: ('e, unit) storage_method) mgr)
       (\<lambda>resp mgr'. case resp of UnitResponse r \<Rightarrow> (map_err Internal r, mgr') | _ \<Rightarrow> (Err Receive, mgr'))"

definition client_remove_invoice ::
  "('s, 'e) storage \<Rightarrow> invoice_id \<Rightarrow> 's option
     \<Rightarrow> (invoice option, 'e storage_error) result \<times> 's option" where
  "client_remove_invoice S i mgr =
     try_st (round_trip S (RemoveInvoice i :: ('e, unit) storage_method) mgr)
       (\<lambda>resp mgr'. case resp of InvoiceResponse r \<Rightarrow> (map_err Internal r, mgr') | _ \<Rightarrow> (Err Receive, mgr'))"

definition client_update_invoice ::
  "('s, 'e) storage \<Rightarrow> invoice \<Rightarrow> 's option
     \<Rightarrow> (invoice option, 'e storage_error) result \<times> 's option" where
  "client_update_invoice S invoice mgr =
     try_st (round_trip S (UpdateInvoice invoice :: ('e, unit) storage_method) mgr)
       (\<lambda>resp mgr'. case resp of InvoiceResponse r \<Rightarrow> (map_err Internal r, mgr') | _ \<Rightarrow> (Err Receive, mgr'))"

definition client_get_invoice ::
  "('s, 'e) storage \<Rightarrow> invoice_id \<Rightarrow> 's option
     \<Rightarrow> (invoice option, 'e storage_error) result \<times> 's option" where
  "client_get_invoice S i mgr =
     try_st (round_trip S (GetInvoice i :: ('e, unit) storage_method) mgr)
       (\<lambda>resp mgr'. case resp of InvoiceResponse r \<Rightarrow> (map_err Internal r, mgr') | _ \<Rightarrow> (Err Receive, mgr'))"

definition client_get_invoice_ids ::
  "('s, 'e) storage \<Rightarrow> 's option \<Rightarrow> (invoice_id list, 'e storage_error) result \<times> 's option" where
  "client_get_invoice_ids S mgr =
     try_st (round_trip S (GetInvoiceIds :: ('e, unit) storage_method) mgr)
       (\<lambda>resp mgr'. case resp of IdsResponse r \<Rightarrow> (map_err Internal r, mgr') | _ \<Rightarrow> (Err Receive, mgr'))"

definition client_contains_sub_index ::
  "('s, 'e) storage \<Rightarrow> sub_index \<Rightarrow> 's option \<Rightarrow> (bool, 'e storage_error) result \<times> 's option" where
  "client_contains_sub_index S idx mgr =
     try_st (round_trip S (ContainsSubIndex idx :: ('e, unit) storage_method) mgr)
       (\<lambda>resp mgr'. case resp of BoolResponse r \<Rightarrow> (map_err Internal r, mgr') | _ \<Rightarrow> (Err Receive, mgr'))"

text \<open>The closure's captured value comes back with the answer (it is shared through an \<open>Arc\<close>).\<close>

definition client_try_for_each_invoice ::
  "('s, 'e) storage \<Rightarrow> ((invoice, 'e) result \<Rightarrow> 'acc \<Rightarrow> (unit, 'e) result \<times> 'acc) \<Rightarrow> 'acc \<Rightarrow> 's option
     \<Rightarrow> ('acc, 'e storage_error) result \<times> 's option" where
  "client_try_for_each_invoice S f acc mgr =
     try_st (round_trip S (ForEachInvoice f acc) mgr)
       (\<lambda>resp mgr'. case resp of
           ForEachResponse r acc' \<Rightarrow> (map_err Internal (map_ok (\<lambda>_. acc') r), mgr')
         | _ \<Rightarrow> (Err Receive, mgr'))"

definition client_lowest_invoice_height ::
  "('s, 'e) storage \<Rightarrow> 's option \<Rightarrow> (u64 option, 'e storage_error) result \<times> 's option" where
  "client_lowest_invoice_height S mgr =
     try_st (round_trip S (LowestInvoiceHeight :: ('e, unit) storage_method) mgr)
       (\<lambda>resp mgr'. case resp of HeightResponse r \<Rightarrow> (map_err Internal r, mgr') | _ \<Rightarrow> (Err Receive, mgr'))"

definition client_get_height ::
  "('s, 'e) storage \<Rightarrow> 's option \<Rightarrow> (u64 option, 'e storage_error) result \<times> 's option" where
  "client_get_height S mgr =
     try_st (round_trip S (GetHeight :: ('e, unit) storage_method) mgr)
       (\<lambda>resp mgr'. case resp of HeightResponse r \<Rightarrow> (map_err Internal r, mgr') | _ \<Rightarrow> (Err Receive, mgr'))"

definition client_upsert_height ::
  "('s, 'e) storage \<Rightarrow> u64 \<Rightarrow> 's option \<Rightarrow> (u64 option, 'e storage_error) result \<times> 's option" where
  "client_upsert_height S h mgr =
     try_st (round_trip S (UpsertHeight h :: ('e, unit) storage_method) mgr)
       (\<lambda>resp mgr'. case resp of HeightResponse r \<Rightarrow> (map_err Internal r, mgr') | _ \<Rightarrow> (Err Receive, mgr'))"

definition client_get_output_key_id ::
  "('s, 'e) storage \<Rightarrow> output_pub_key \<Rightarrow> 's option
     \<Rightarrow> (output_id option, 'e storage_error) result \<times> 's option" where
  "client_get_output_key_id S key mgr =
     try_st (round_trip S (GetOutputKeyId key :: ('e, unit) storage_method) mgr)
       (\<lambda>resp mgr'. case resp of OutputIdResponse r \<Rightarrow> (map_err Internal r, mgr') | _ \<Rightarrow> (Err Receive, mgr'))"

definition client_insert_output_key ::
  "('s, 'e) storage \<Rightarrow> output_pub_key \<Rightarrow> output_id \<Rightarrow> 's option
     \<Rightarrow> (unit, 'e storage_error) result \<times> 's option" where
  "client_insert_output_key S key output_id mgr =
     try_st (round_trip S (InsertOutputKey key output_id :: ('e, unit) storage_method) mgr)
       (\<lambda>resp mgr'. case resp of UnitResponse r \<Rightarrow> (map_err Internal r, mgr') | _ \<Rightarrow> (Err Receive, mgr'))"

definition client_flush ::
  "('s, 'e) storage \<Rightarrow> 's option \<Rightarrow> (unit, 'e storage_error) result \<times> 's option" where
  "client_flush S mgr =
     try_st (round_trip S (Flush :: ('e, unit) storage_method) mgr)
       (\<lambda>resp mgr'. case resp of UnitResponse r \<Rightarrow> (map_err Internal r, mgr') | _ \<Rightarrow> (Err Receive, mgr'))"

section \<open>A client call is the store's method\<close>

text \<open>The specification of every call: run the store's own method; a panic takes the manager down.\<close>

definition direct ::
  "('s \<Rightarrow> ('a, 'e) result \<times> 's) \<Rightarrow> 's option \<Rightarrow> ('a, 'e storage_error) result \<times> 's option" where
  "direct f mgr =
     (case mgr of
        None \<Rightarrow> (Err Send, None)
      | Some s \<Rightarrow>
          (case f s of
             (Ok a, s') \<Rightarrow> (Ok a, Some s')
           | (Err e, s') \<Rightarrow> (Err (Internal e), Some s')
           | (Panic, s') \<Rightarrow> (Err Receive, None)))"

definition reading :: "('s \<Rightarrow> ('a, 'e) result) \<Rightarrow> 's \<Rightarrow> ('a, 'e) result \<times> 's" where
  "reading f s = (f s, s)"

lemma direct_None [simp]: "direct f None = (Err Send, None)"
  by (simp add: direct_def)

lemma direct_Ok: "direct f (Some s) = (Ok a, m) \<longleftrightarrow> (\<exists>s'. f s = (Ok a, s') \<and> m = Some s')"
  by (auto simp: direct_def split: prod.splits result.splits)

lemma direct_not_Panic: "fst (direct f m) \<noteq> Panic"
  by (auto simp: direct_def split: prod.splits result.splits option.splits)

lemmas client_call_defs = client_insert_invoice_def client_remove_invoice_def
  client_update_invoice_def client_get_invoice_def client_get_invoice_ids_def
  client_contains_sub_index_def client_try_for_each_invoice_def client_lowest_invoice_height_def
  client_get_height_def client_upsert_height_def client_get_output_key_id_def
  client_insert_output_key_def client_flush_def

lemma client_calls [simp]:
  "client_insert_invoice S v = direct (inv_insert S v)"
  "client_remove_invoice S i = direct (inv_remove S i)"
  "client_update_invoice S v = direct (inv_update S v)"
  "client_get_invoice S i = direct (reading (inv_get S i))"
  "client_get_invoice_ids S = direct (reading (inv_get_ids S))"
  "client_contains_sub_index S idx = direct (reading (inv_contains_sub_index S idx))"
  "client_try_for_each_invoice S f acc =
     direct (\<lambda>s. let (r, acc') = try_for_each S f s acc in (map_ok (\<lambda>_. acc') r, s))"
  "client_lowest_invoice_height S = direct (reading (lowest_height S))"
  "client_get_height S = direct (reading (height_get S))"
  "client_upsert_height S h = direct (height_upsert S h)"
  "client_get_output_key_id S k = direct (reading (key_get S k))"
  "client_insert_output_key S k oid = direct (key_insert S k oid)"
  "client_flush S = direct (reading (store_flush S))"
  by (rule ext; rename_tac mgr; case_tac mgr;
      simp add: client_call_defs round_trip_def direct_def reading_def;
      auto split: prod.splits result.splits)+

section \<open>Properties\<close>


end
