(* ===== verification/Sled.thy ===== *)
theory Sled
  imports Storage_Spec "HOL-Library.List_Lexorder" "HOL-Library.Char_ord"
begin

text \<open>
  The store on a sled database, \<open>library/src/storage/stores/sled.rs\<close>.  Two crates are parameters.

  bincode: a record of the encoders and decoders the code calls.  Keys are byte strings, because the
  code looks them up by prefix; what values are encoded to is left open.

  sled: a \<open>Tree\<close> is an ordered map.  Any operation may fail with a database error: the argument
  \<open>io\<close> tells for an operation in a state whether it does, and, for an iteration, after how many
  items.  A failed operation changes nothing, as sled documents.
\<close>

section \<open>The two crates\<close>

type_synonym bytes = "u8 list"

record ('v, 'o, 'h, 'c) codec =
  enc_sub :: "sub_index \<Rightarrow> (bytes, 'c) result"
  enc_id :: "invoice_id \<Rightarrow> (bytes, 'c) result"
  dec_id :: "bytes \<Rightarrow> (invoice_id, 'c) result"
  enc_inv :: "invoice \<Rightarrow> ('v, 'c) result"
  dec_inv :: "'v \<Rightarrow> (invoice, 'c) result"
  enc_oid :: "output_id \<Rightarrow> ('o, 'c) result"
  dec_oid :: "'o \<Rightarrow> (output_id, 'c) result"
  enc_height :: "u64 \<Rightarrow> ('h, 'c) result"
  dec_height :: "'h \<Rightarrow> (u64, 'c) result"

datatype sled_op = CompareAndSwap | Remove | FetchAndUpdate | Get | Iter | ScanPrefix
  | KeyTransaction | KeyGet | HeightInsert | HeightGet | FlushInvoices | FlushKeys | FlushHeight

datatype ('c, 'x) sled_storage_error =
    Database "('c, 'x) database_error"
  | DuplicateInvoiceId
  | SledDuplicateOutputKey
  | Serialize 'c
  | Deserialize 'c
and ('c, 'x) database_error = General 'x | Transaction "('c, 'x) transaction_error"
and ('c, 'x) transaction_error = Abort "('c, 'x) sled_storage_error" | TransactionStorage 'x

record ('v, 'o, 'h) sled =
  sl_invoices :: "(bytes, 'v) btree_map"
  sl_output_keys :: "(output_pub_key, 'o) btree_map"
  sl_height :: "(string, 'h) btree_map"

type_synonym ('v, 'o, 'h, 'x) sled_io = "sled_op \<Rightarrow> ('v, 'o, 'h) sled \<Rightarrow> (nat \<times> 'x) option"

text \<open>An operation of a tree, and the items of an iteration.\<close>

definition db ::
  "('v, 'o, 'h, 'x) sled_io \<Rightarrow> sled_op \<Rightarrow> ('v, 'o, 'h) sled \<Rightarrow> 'a
     \<Rightarrow> ('a, ('c, 'x) sled_storage_error) result" where
  "db io op s a = (case io op s of Some (_, x) \<Rightarrow> Err (Database (General x)) | None \<Rightarrow> Ok a)"

definition tree_items ::
  "('v, 'o, 'h, 'x) sled_io \<Rightarrow> sled_op \<Rightarrow> ('v, 'o, 'h) sled \<Rightarrow> 'i list \<Rightarrow> ('i, 'x) result list" where
  "tree_items io op s items =
     (case io op s of Some (n, x) \<Rightarrow> map Ok (take n items) @ [Err x] | None \<Rightarrow> map Ok items)"

section \<open>The store\<close>

definition sl_insert ::
  "('v, 'o, 'h, 'c) codec \<Rightarrow> ('v, 'o, 'h, 'x) sled_io \<Rightarrow> invoice \<Rightarrow> ('v, 'o, 'h) sled
     \<Rightarrow> (unit, ('c, 'x) sled_storage_error) result \<times> ('v, 'o, 'h) sled" where
  "sl_insert C io invoice self =
     try_st (map_err Serialize (enc_id C (invoice_ident invoice)), self) (\<lambda>key self.
     try_st (map_err Serialize (enc_inv C invoice), self) (\<lambda>val self.
     try_st (db io CompareAndSwap self (), self) (\<lambda>_ self.
       if map_of (sl_invoices self) key = None
       then (Ok (), self\<lparr>sl_invoices := bt_insert key val (sl_invoices self)\<rparr>)
       else (Err DuplicateInvoiceId, self))))"

definition decode_opt ::
  "('b \<Rightarrow> ('a, 'c) result) \<Rightarrow> 'b option \<Rightarrow> ('a option, ('c, 'x) sled_storage_error) result" where
  "decode_opt dec v =
     (case v of None \<Rightarrow> Ok None | Some b \<Rightarrow> map_err Deserialize (map_ok Some (dec b)))"

definition sl_remove ::
  "('v, 'o, 'h, 'c) codec \<Rightarrow> ('v, 'o, 'h, 'x) sled_io \<Rightarrow> invoice_id \<Rightarrow> ('v, 'o, 'h) sled
     \<Rightarrow> (invoice option, ('c, 'x) sled_storage_error) result \<times> ('v, 'o, 'h) sled" where
  "sl_remove C io i self =
     try_st (map_err Serialize (enc_id C i), self) (\<lambda>key self.
     try_st (db io Remove self (map_of (sl_invoices self) key), self) (\<lambda>old self.
       (decode_opt (dec_inv C) old, self\<lparr>sl_invoices := bt_remove key (sl_invoices self)\<rparr>)))"

definition sl_update ::
  "('v, 'o, 'h, 'c) codec \<Rightarrow> ('v, 'o, 'h, 'x) sled_io \<Rightarrow> invoice \<Rightarrow> ('v, 'o, 'h) sled
     \<Rightarrow> (invoice option, ('c, 'x) sled_storage_error) result \<times> ('v, 'o, 'h) sled" where
  "sl_update C io invoice self =
     try_st (map_err Serialize (enc_id C (invoice_ident invoice)), self) (\<lambda>key self.
     try_st (map_err Serialize (enc_inv C invoice), self) (\<lambda>new_ivec self.
     try_st (db io FetchAndUpdate self (map_of (sl_invoices self) key), self) (\<lambda>maybe_old self.
       let self' = (if maybe_old \<noteq> None then self\<lparr>sl_invoices := bt_insert key new_ivec (sl_invoices self)\<rparr>
                    else self\<lparr>sl_invoices := bt_remove key (sl_invoices self)\<rparr>)
       in (decode_opt (dec_inv C) maybe_old, self'))))"

definition sl_get ::
  "('v, 'o, 'h, 'c) codec \<Rightarrow> ('v, 'o, 'h, 'x) sled_io \<Rightarrow> invoice_id \<Rightarrow> ('v, 'o, 'h) sled
     \<Rightarrow> (invoice option, ('c, 'x) sled_storage_error) result" where
  "sl_get C io i self =
     and_then (map_err Serialize (enc_id C i)) (\<lambda>key.
     and_then (db io Get self (map_of (sl_invoices self) key)) (decode_opt (dec_inv C)))"

definition sl_get_ids ::
  "('v, 'o, 'h, 'c) codec \<Rightarrow> ('v, 'o, 'h, 'x) sled_io \<Rightarrow> ('v, 'o, 'h) sled
     \<Rightarrow> (invoice_id list, ('c, 'x) sled_storage_error) result" where
  "sl_get_ids C io self =
     and_then (map_err (\<lambda>x. Database (General x))
       (collect_results (tree_items io Iter self (map fst (sl_invoices self))))) (\<lambda>keys.
       collect_results (map (\<lambda>k. map_err Deserialize (dec_id C k)) keys))"

text \<open>\<open>scan_prefix(key).next().is_some()\<close>: an item that is an error counts as well.\<close>

definition sl_contains_sub_index ::
  "('v, 'o, 'h, 'c) codec \<Rightarrow> ('v, 'o, 'h, 'x) sled_io \<Rightarrow> sub_index \<Rightarrow> ('v, 'o, 'h) sled
     \<Rightarrow> (bool, ('c, 'x) sled_storage_error) result" where
  "sl_contains_sub_index C io idx self =
     map_ok (\<lambda>key. tree_items io ScanPrefix self
         (filter (\<lambda>p. take (length key) (fst p) = key) (sl_invoices self)) \<noteq> [])
       (map_err Serialize (enc_sub C idx))"

definition sl_rows ::
  "('v, 'o, 'h, 'c) codec \<Rightarrow> ('v, 'o, 'h, 'x) sled_io \<Rightarrow> ('v, 'o, 'h) sled
     \<Rightarrow> ((invoice, ('c, 'x) sled_storage_error) result list, ('c, 'x) sled_storage_error) result" where
  "sl_rows C io self =
     Ok (map (\<lambda>row. and_then (map_err (\<lambda>x. Database (General x)) row) (\<lambda>p. map_err Deserialize (dec_inv C (snd p))))
       (tree_items io Iter self (sl_invoices self)))"

definition sl_is_empty :: "('v, 'o, 'h) sled \<Rightarrow> (bool, ('c, 'x) sled_storage_error) result" where
  "sl_is_empty self = Ok (sl_invoices self = [])"

text \<open>
  A transaction is all or nothing: it inserts first and aborts when there was a value, which takes
  the insertion back.
\<close>

definition sl_key_insert ::
  "('v, 'o, 'h, 'c) codec \<Rightarrow> ('v, 'o, 'h, 'x) sled_io \<Rightarrow> output_pub_key \<Rightarrow> output_id \<Rightarrow> ('v, 'o, 'h) sled
     \<Rightarrow> (unit, ('c, 'x) sled_storage_error) result \<times> ('v, 'o, 'h) sled" where
  "sl_key_insert C io key oid self =
     (case io KeyTransaction self of
        Some (_, x) \<Rightarrow> (Err (Database (Transaction (TransactionStorage x))), self)
      | None \<Rightarrow>
          try_st (map_err (\<lambda>e. Database (Transaction (Abort (Serialize e)))) (enc_oid C oid), self) (\<lambda>val self.
            case map_of (sl_output_keys self) key of
              None \<Rightarrow> (Ok (), self\<lparr>sl_output_keys := bt_insert key val (sl_output_keys self)\<rparr>)
            | Some _ \<Rightarrow> (Err (Database (Transaction (Abort SledDuplicateOutputKey))), self)))"

definition sl_key_get ::
  "('v, 'o, 'h, 'c) codec \<Rightarrow> ('v, 'o, 'h, 'x) sled_io \<Rightarrow> output_pub_key \<Rightarrow> ('v, 'o, 'h) sled
     \<Rightarrow> (output_id option, ('c, 'x) sled_storage_error) result" where
  "sl_key_get C io key self =
     and_then (db io KeyGet self (map_of (sl_output_keys self) key)) (decode_opt (dec_oid C))"

definition sl_height_upsert ::
  "('v, 'o, 'h, 'c) codec \<Rightarrow> ('v, 'o, 'h, 'x) sled_io \<Rightarrow> u64 \<Rightarrow> ('v, 'o, 'h) sled
     \<Rightarrow> (u64 option, ('c, 'x) sled_storage_error) result \<times> ('v, 'o, 'h) sled" where
  "sl_height_upsert C io h self =
     try_st (map_err Serialize (enc_height C h), self) (\<lambda>encoded self.
     try_st (db io HeightInsert self (map_of (sl_height self) ''height''), self) (\<lambda>maybe_ivec self.
       (decode_opt (dec_height C) maybe_ivec,
        self\<lparr>sl_height := bt_insert ''height'' encoded (sl_height self)\<rparr>)))"

definition sl_height_get ::
  "('v, 'o, 'h, 'c) codec \<Rightarrow> ('v, 'o, 'h, 'x) sled_io \<Rightarrow> ('v, 'o, 'h) sled
     \<Rightarrow> (u64 option, ('c, 'x) sled_storage_error) result" where
  "sl_height_get C io self =
     and_then (db io HeightGet self (map_of (sl_height self) ''height'')) (decode_opt (dec_height C))"

definition sl_flush ::
  "('v, 'o, 'h, 'x) sled_io \<Rightarrow> ('v, 'o, 'h) sled \<Rightarrow> (unit, ('c, 'x) sled_storage_error) result" where
  "sl_flush io self =
     and_then (db io FlushInvoices self ()) (\<lambda>_.
     and_then (db io FlushKeys self ()) (\<lambda>_. db io FlushHeight self ()))"

definition sled_storage ::
  "('v, 'o, 'h, 'c) codec \<Rightarrow> ('v, 'o, 'h, 'x) sled_io
     \<Rightarrow> (('v, 'o, 'h) sled, ('c, 'x) sled_storage_error) storage" where
  "sled_storage C io =
     \<lparr>inv_insert = sl_insert C io, inv_remove = sl_remove C io, inv_update = sl_update C io,
      inv_get = sl_get C io, inv_get_ids = sl_get_ids C io,
      inv_contains_sub_index = sl_contains_sub_index C io, inv_rows = sl_rows C io,
      inv_is_empty = sl_is_empty, key_insert = sl_key_insert C io, key_get = sl_key_get C io,
      height_upsert = sl_height_upsert C io, height_get = sl_height_get C io, store_flush = sl_flush io\<rparr>"

section \<open>The contract\<close>

text \<open>
  What the code relies on: encoding succeeds, decoding inverts it, and the encoding of an invoice ID
  begins with that of its subaddress index and of no other.  The last holds for bincode because it
  writes the fields one after the other and the encoding of a field is never a proper prefix of
  another value's.
\<close>

definition sl_wf :: "('v, 'o, 'h, 'c) codec \<Rightarrow> (invoice_id \<Rightarrow> bytes) \<Rightarrow> ('v, 'o, 'h) sled \<Rightarrow> bool" where
  "sl_wf C key s \<longleftrightarrow> bt_ok (sl_invoices s) \<and> bt_ok (sl_output_keys s) \<and> bt_ok (sl_height s)
     \<and> (\<forall>p \<in> set (sl_invoices s). \<exists>v. dec_inv C (snd p) = Ok v \<and> fst p = key (invoice_ident v))
     \<and> (\<forall>p \<in> set (sl_output_keys s). \<exists>oid. dec_oid C (snd p) = Ok oid)
     \<and> (\<forall>p \<in> set (sl_height s). \<exists>h. dec_height C (snd p) = Ok h)"

definition decoded :: "('b \<Rightarrow> ('a, 'c) result) \<Rightarrow> 'b option \<Rightarrow> 'a option" where
  "decoded dec v = (case v of None \<Rightarrow> None | Some b \<Rightarrow> (case dec b of Ok a \<Rightarrow> Some a | _ \<Rightarrow> None))"

definition sl_invoice_map ::
  "('v, 'o, 'h, 'c) codec \<Rightarrow> (invoice_id \<Rightarrow> bytes) \<Rightarrow> ('v, 'o, 'h) sled \<Rightarrow> invoice_id \<Rightarrow> invoice option" where
  "sl_invoice_map C key s i = decoded (dec_inv C) (map_of (sl_invoices s) (key i))"

definition sl_key_map :: "('v, 'o, 'h, 'c) codec \<Rightarrow> ('v, 'o, 'h) sled \<Rightarrow> output_pub_key \<Rightarrow> output_id option" where
  "sl_key_map C s k = decoded (dec_oid C) (map_of (sl_output_keys s) k)"

definition sl_height_of :: "('v, 'o, 'h, 'c) codec \<Rightarrow> ('v, 'o, 'h) sled \<Rightarrow> u64 option" where
  "sl_height_of C s = decoded (dec_height C) (map_of (sl_height s) ''height'')"

lemma decoded_simps [simp]:
  "decoded dec None = None" "dec b = Ok a \<Longrightarrow> decoded dec (Some b) = Some a"
  by (simp_all add: decoded_def)

lemma decode_opt_Ok: "decode_opt dec v = Ok r \<Longrightarrow> r = decoded dec v"
  by (cases v) (auto simp: decode_opt_def map_err_eq_Ok map_ok_eq_Ok)

lemma decode_opt_returns:
  "(\<And>b. v = Some b \<Longrightarrow> \<exists>a. dec b = Ok a) \<Longrightarrow> decode_opt dec v = Ok (decoded dec v)"
  by (cases v) (auto simp: decode_opt_def decoded_def)

lemma db_Ok [simp]: "db io op s a = Ok b \<longleftrightarrow> io op s = None \<and> b = a"
  by (auto simp: db_def split: option.splits)

lemma db_fail: "db io op s a \<noteq> Ok a \<Longrightarrow> \<exists>e. db io op s a = Err e"
  by (auto simp: db_def split: option.splits)

lemma sled_storage_sel [simp]:
  "inv_insert (sled_storage C io) = sl_insert C io" "inv_remove (sled_storage C io) = sl_remove C io"
  "inv_update (sled_storage C io) = sl_update C io" "inv_get (sled_storage C io) = sl_get C io"
  "inv_get_ids (sled_storage C io) = sl_get_ids C io"
  "inv_contains_sub_index (sled_storage C io) = sl_contains_sub_index C io"
  "inv_rows (sled_storage C io) = sl_rows C io" "key_insert (sled_storage C io) = sl_key_insert C io"
  "key_get (sled_storage C io) = sl_key_get C io" "height_upsert (sled_storage C io) = sl_height_upsert C io"
  "height_get (sled_storage C io) = sl_height_get C io" "store_flush (sled_storage C io) = sl_flush io"
  by (simp_all add: sled_storage_def)

locale sled_codec =
  fixes C :: "('v, 'o, 'h, 'c) codec" and key :: "invoice_id \<Rightarrow> bytes" and sub :: "sub_index \<Rightarrow> bytes"
  assumes enc_id: "enc_id C i = Ok (key i)" and dec_id: "dec_id C (key i) = Ok i"
    and enc_sub: "enc_sub C x = Ok (sub x)"
    and key_prefix: "take (length (sub x)) (key i) = sub x \<longleftrightarrow> sub_index i = x"
    and enc_inv: "\<exists>b. enc_inv C v = Ok b \<and> dec_inv C b = Ok v"
    and enc_oid: "\<exists>b. enc_oid C oid = Ok b \<and> dec_oid C b = Ok oid"
    and enc_height: "\<exists>b. enc_height C h = Ok b \<and> dec_height C b = Ok h"
begin

lemma key_eq [simp]: "key i = key j \<longleftrightarrow> i = j"
  by (metis dec_id result.inject(1))

lemma wf_lookup:
  assumes "sl_wf C key s" and "map_of (sl_invoices s) k = Some b"
  obtains v where "dec_inv C b = Ok v" and "k = key (invoice_ident v)"
  using assms map_of_SomeD [OF assms(2)] by (auto simp: sl_wf_def)

lemma insert_cases:
  assumes "sl_wf C key s"
  obtains (stored) b where "sl_insert C io v s = (Ok (), s\<lparr>sl_invoices := bt_insert (key (invoice_ident v)) b (sl_invoices s)\<rparr>)"
      and "dec_inv C b = Ok v" and "map_of (sl_invoices s) (key (invoice_ident v)) = None"
    | (failed) e where "sl_insert C io v s = (Err e, s)"
proof -
  obtain b where b: "enc_inv C v = Ok b" "dec_inv C b = Ok v" using enc_inv by blast
  show thesis
  proof (cases "io CompareAndSwap s = None \<and> map_of (sl_invoices s) (key (invoice_ident v)) = None")
    case True
    with b show thesis by (intro stored [of b]) (simp_all add: sl_insert_def enc_id db_def)
  next
    case False
    then have "\<exists>e. sl_insert C io v s = (Err e, s)"
      by (auto simp: sl_insert_def enc_id b(1) db_def split: option.splits)
    then show thesis using failed by blast
  qed
qed

lemma update_cases:
  assumes "sl_wf C key s"
  obtains (stored) b where "sl_update C io v s = (Ok (sl_invoice_map C key s (invoice_ident v)),
        s\<lparr>sl_invoices := bt_insert (key (invoice_ident v)) b (sl_invoices s)\<rparr>)"
      and "dec_inv C b = Ok v" and "sl_invoice_map C key s (invoice_ident v) \<noteq> None"
    | (missing) "sl_update C io v s = (Ok None, s\<lparr>sl_invoices := bt_remove (key (invoice_ident v)) (sl_invoices s)\<rparr>)"
      and "map_of (sl_invoices s) (key (invoice_ident v)) = None"
    | (failed) e where "sl_update C io v s = (Err e, s)"
proof -
  obtain b where b: "enc_inv C v = Ok b" "dec_inv C b = Ok v" using enc_inv by blast
  let ?old = "map_of (sl_invoices s) (key (invoice_ident v))"
  have dec: "decode_opt (dec_inv C) ?old = Ok (sl_invoice_map C key s (invoice_ident v))"
    unfolding sl_invoice_map_def by (rule decode_opt_returns) (use assms in \<open>auto elim: wf_lookup\<close>)
  show thesis
  proof (cases "io FetchAndUpdate s")
    case None
    show thesis
    proof (cases ?old)
      case None
      with \<open>io FetchAndUpdate s = None\<close> b show thesis
        by (intro missing) (simp_all add: sl_update_def enc_id db_def decode_opt_def)
    next
      case (Some old)
      then obtain w where "dec_inv C old = Ok w" using assms by (auto elim: wf_lookup)
      with Some None b dec show thesis
        by (intro stored [of b]) (simp_all add: sl_update_def enc_id db_def sl_invoice_map_def)
    qed
  next
    case (Some x)
    then have "\<exists>e. sl_update C io v s = (Err e, s)"
      by (cases x) (simp add: sl_update_def enc_id b(1) db_def)
    then show thesis using failed by blast
  qed
qed

lemma remove_cases:
  assumes "sl_wf C key s"
  obtains (removed) "sl_remove C io i s
      = (Ok (sl_invoice_map C key s i), s\<lparr>sl_invoices := bt_remove (key i) (sl_invoices s)\<rparr>)"
    | (failed) e where "sl_remove C io i s = (Err e, s)"
proof -
  have dec: "decode_opt (dec_inv C) (map_of (sl_invoices s) (key i)) = Ok (sl_invoice_map C key s i)"
    unfolding sl_invoice_map_def by (rule decode_opt_returns) (use assms in \<open>auto elim: wf_lookup\<close>)
  show thesis
  proof (cases "io Remove s")
    case None
    with dec show thesis by (intro removed) (simp add: sl_remove_def enc_id db_def)
  next
    case (Some x)
    then have "\<exists>e. sl_remove C io i s = (Err e, s)" by (cases x) (simp add: sl_remove_def enc_id db_def)
    then show thesis using failed by blast
  qed
qed

lemma wf_insert:
  assumes "sl_wf C key s" and "dec_inv C b = Ok v"
  shows "sl_wf C key (s\<lparr>sl_invoices := bt_insert (key (invoice_ident v)) b (sl_invoices s)\<rparr>)"
  using assms by (auto simp: sl_wf_def)

lemma wf_remove: "sl_wf C key s \<Longrightarrow> sl_wf C key (s\<lparr>sl_invoices := bt_remove k (sl_invoices s)\<rparr>)"
  by (auto simp: sl_wf_def)

lemma map_insert:
  "dec_inv C b = Ok v \<Longrightarrow> sl_invoice_map C key (s\<lparr>sl_invoices := bt_insert (key i) b (sl_invoices s)\<rparr>)
     = (sl_invoice_map C key s)(i \<mapsto> v)"
  by (auto simp: sl_invoice_map_def fun_eq_iff)

lemma map_remove:
  "sl_invoice_map C key (s\<lparr>sl_invoices := bt_remove (key i) (sl_invoices s)\<rparr>) = (sl_invoice_map C key s)(i := None)"
  by (auto simp: sl_invoice_map_def fun_eq_iff)

lemma get_ids_facts:
  fixes io :: "('v, 'o, 'h, 'x) sled_io"
  assumes wf: "sl_wf C key s" and ok: "sl_get_ids C io s = Ok ids"
  shows "map key ids = map fst (sl_invoices s)"
proof -
  obtain ks where ks: "tree_items io Iter s (map fst (sl_invoices s)) = map Ok ks"
      and ids: "map (\<lambda>k. map_err Deserialize (dec_id C k)) ks = (map Ok ids :: (_, ('c, 'x) sled_storage_error) result list)"
    using ok by (auto simp: sl_get_ids_def and_then_eq_Ok collect_results_Ok_iff)
  have all: "ks = map fst (sl_invoices s)"
    using ks by (auto simp: tree_items_def snoc_Err_not_Ok simp del: map_map split: option.splits)
  show ?thesis
  proof (rule nth_equalityI)
    show len: "length (map key ids) = length (map fst (sl_invoices s))"
      using arg_cong [OF ids, of length] all by simp
    fix n assume n: "n < length (map key ids)"
    then have "map_err Deserialize (dec_id C (ks ! n)) = (Ok (ids ! n) :: (_, ('c, 'x) sled_storage_error) result)"
      using arg_cong [OF ids, of "\<lambda>xs. xs ! n"] all len by simp
    then have d: "dec_id C (ks ! n) = Ok (ids ! n)" by simp
    have "sl_invoices s ! n \<in> set (sl_invoices s)" using n len by simp
    with wf obtain v where "fst (sl_invoices s ! n) = key (invoice_ident v)" by (auto simp: sl_wf_def)
    with d n len all show "map key ids ! n = map fst (sl_invoices s) ! n" by (simp add: dec_id)
  qed
qed

lemma rows_mem:
  assumes "sl_wf C key s" and rows: "sl_rows C io s = Ok rows"
  shows "Ok v \<in> set rows \<Longrightarrow> sl_invoice_map C key s (invoice_ident v) = Some v"
    and "\<lbrakk>sl_invoice_map C key s i = Some v; \<forall>row \<in> set rows. \<exists>x. row = Ok x\<rbrakk> \<Longrightarrow> Ok v \<in> set rows"
proof -
  assume "Ok v \<in> set rows"
  then obtain p where p: "p \<in> set (sl_invoices s)" "dec_inv C (snd p) = Ok v"
    using rows by (auto simp: sl_rows_def tree_items_def split: option.splits dest!: in_set_takeD)
  with assms have "fst p = key (invoice_ident v)" by (auto simp: sl_wf_def)
  moreover have "map_of (sl_invoices s) (fst p) = Some (snd p)"
    using assms p(1) by (simp add: sl_wf_def bt_ok_map_of)
  ultimately show "sl_invoice_map C key s (invoice_ident v) = Some v" using p(2) by (simp add: sl_invoice_map_def)
next
  assume v: "sl_invoice_map C key s i = Some v" and ok: "\<forall>row \<in> set rows. \<exists>x. row = Ok x"
  have "io Iter s = None"
  proof (rule ccontr)
    assume "io Iter s \<noteq> None"
    then obtain n x where "io Iter s = Some (n, x)" by force
    then have "Err (Database (General x)) \<in> set rows" using rows by (auto simp: sl_rows_def tree_items_def)
    with ok show False by blast
  qed
  moreover from v obtain b where b: "map_of (sl_invoices s) (key i) = Some b" "dec_inv C b = Ok v"
    by (auto simp: sl_invoice_map_def decoded_def split: option.splits result.splits)
  ultimately show "Ok v \<in> set rows"
    using map_of_SomeD [OF b(1)] rows by (force simp: sl_rows_def tree_items_def)
qed

lemma key_insert_cases:
  obtains (stored) b where "sl_key_insert C io k oid s = (Ok (), s\<lparr>sl_output_keys := bt_insert k b (sl_output_keys s)\<rparr>)"
      and "dec_oid C b = Ok oid" and "map_of (sl_output_keys s) k = None"
    | (failed) e where "sl_key_insert C io k oid s = (Err e, s)"
proof -
  obtain b where b: "enc_oid C oid = Ok b" "dec_oid C b = Ok oid" using enc_oid by blast
  show thesis
  proof (cases "io KeyTransaction s = None \<and> map_of (sl_output_keys s) k = None")
    case True
    with b show thesis by (intro stored [of b]) (simp_all add: sl_key_insert_def)
  next
    case False
    then have "\<exists>e. sl_key_insert C io k oid s = (Err e, s)"
      by (auto simp: sl_key_insert_def b(1) split: option.splits)
    then show thesis using failed by blast
  qed
qed

lemma upsert_cases:
  assumes "sl_wf C key s"
  obtains (stored) b where "sl_height_upsert C io h s
        = (Ok (sl_height_of C s), s\<lparr>sl_height := bt_insert ''height'' b (sl_height s)\<rparr>)"
      and "dec_height C b = Ok h"
    | (failed) e where "sl_height_upsert C io h s = (Err e, s)"
proof -
  obtain b where b: "enc_height C h = Ok b" "dec_height C b = Ok h" using enc_height by blast
  have dec: "decode_opt (dec_height C) (map_of (sl_height s) ''height'') = Ok (sl_height_of C s)"
    unfolding sl_height_of_def
    by (rule decode_opt_returns) (use assms in \<open>auto simp: sl_wf_def dest!: map_of_SomeD\<close>)
  show thesis
  proof (cases "io HeightInsert s")
    case None
    with b dec show thesis by (intro stored [of b]) (simp_all add: sl_height_upsert_def db_def)
  next
    case (Some x)
    then have "\<exists>e. sl_height_upsert C io h s = (Err e, s)" by (cases x) (simp add: sl_height_upsert_def b(1) db_def)
    then show thesis using failed by blast
  qed
qed

lemma contains_true:
  assumes "sl_invoice_map C key s i = Some v"
  shows "sl_contains_sub_index C io (sub_index i) s = Ok True"
proof -
  obtain b where "(key i, b) \<in> set (sl_invoices s)"
    using assms by (auto simp: sl_invoice_map_def decoded_def dest!: map_of_SomeD split: option.splits)
  then have "filter (\<lambda>p. take (length (sub (sub_index i))) (fst p) = sub (sub_index i)) (sl_invoices s) \<noteq> []"
    by (force simp: filter_empty_conv key_prefix)
  then show ?thesis by (auto simp: sl_contains_sub_index_def enc_sub tree_items_def split: option.splits)
qed

end

section \<open>The contract holds\<close>

sublocale sled_codec \<subseteq> invoice_storage "sled_storage C io" "sl_wf C key" "sl_invoice_map C key"
  for io :: "('v, 'o, 'h, 'x) sled_io"
proof (unfold_locales, goal_cases)
  case (1 s i v)
  then obtain b where "map_of (sl_invoices s) (key i) = Some b" "dec_inv C b = Ok v"
    by (auto simp: sl_invoice_map_def decoded_def split: option.splits result.splits)
  with 1 show ?case by (metis wf_lookup key_eq result.inject(1))
next
  case (2 s v)
  show ?case by (cases rule: insert_cases [OF 2, of io v]) (use 2 in \<open>auto simp: wf_insert\<close>)
next
  case (3 s v s')
  show ?case by (cases rule: insert_cases [OF 3(1), of io v]) (use 3 in \<open>auto simp: map_insert sl_invoice_map_def\<close>)
next
  case (4 s v ru s')
  show ?case by (cases rule: insert_cases [OF 4(1), of io v]) (use 4 in \<open>auto\<close>)
next
  case (5 s i)
  show ?case by (cases rule: remove_cases [OF 5, of io i]) (use 5 in \<open>auto simp: wf_remove\<close>)
next
  case (6 s i r s')
  show ?case by (cases rule: remove_cases [OF 6(1), of io i]) (use 6 in \<open>auto simp: map_remove\<close>)
next
  case (7 s i rv s')
  show ?case by (cases rule: remove_cases [OF 7(1), of io i]) (use 7 in \<open>auto\<close>)
next
  case (8 s v)
  show ?case by (cases rule: update_cases [OF 8, of io v]) (use 8 in \<open>auto simp: wf_insert wf_remove\<close>)
next
  case (9 s v r s')
  show ?case
  proof (cases rule: update_cases [OF 9(1), of io v, case_names stored missing failed])
    case (stored b)
    with 9 show ?thesis by (auto simp: map_insert)
  next
    case missing
    moreover from this have "sl_invoice_map C key s (invoice_ident v) = None" by (simp add: sl_invoice_map_def)
    ultimately show ?thesis using 9 by (auto simp: map_remove)
  qed (use 9 in simp)
next
  case (10 s v rv s')
  show ?case by (cases rule: update_cases [OF 10(1), of io v]) (use 10 in \<open>auto\<close>)
next
  case (11 s i r)
  then have "decode_opt (dec_inv C) (map_of (sl_invoices s) (key i)) = (Ok r :: (_, ('c, 'x) sled_storage_error) result)"
    by (simp add: sl_get_def enc_id and_then_eq_Ok)
  then show ?case unfolding sl_invoice_map_def by (rule decode_opt_Ok)
next
  case (12 s ids)
  then have ids: "map key ids = map fst (sl_invoices s)" by (simp add: get_ids_facts)
  have "distinct (map key ids)" using 12(1) by (simp add: ids sl_wf_def bt_ok_def)
  moreover have "sl_invoice_map C key s i \<noteq> None \<longleftrightarrow> key i \<in> set (map fst (sl_invoices s))" for i
  proof -
    have "\<exists>v. dec_inv C b = Ok v" if "map_of (sl_invoices s) (key i) = Some b" for b
      using 12(1) that by (auto elim: wf_lookup)
    then have "sl_invoice_map C key s i \<noteq> None \<longleftrightarrow> map_of (sl_invoices s) (key i) \<noteq> None"
      by (cases "map_of (sl_invoices s) (key i)") (auto simp: sl_invoice_map_def)
    then show ?thesis by (simp add: map_of_eq_None_iff)
  qed
  moreover have "inj key" by (simp add: inj_def)
  ultimately show ?case by (auto simp: distinct_map domIff inj_image_mem_iff simp flip: ids)
next
  case (13 s i v)
  then show ?case by (simp add: contains_true)
next
  case (14 s rows v)
  then show ?case by (simp add: rows_mem(1))
next
  case (15 s rows i v)
  then show ?case by (simp add: rows_mem(2))
qed

sublocale sled_codec \<subseteq> output_key_storage "sled_storage C io" "sl_wf C key" "sl_key_map C"
  for io :: "('v, 'o, 'h, 'x) sled_io"
proof (unfold_locales, goal_cases)
  case (1 s k oid)
  show ?case by (cases rule: key_insert_cases [of io k oid s]) (use 1 in \<open>auto simp: sl_wf_def\<close>)
next
  case (2 s k oid s')
  show ?case
    by (cases rule: key_insert_cases [of io k oid s]) (use 2 in \<open>auto simp: sl_key_map_def fun_eq_iff\<close>)
next
  case (3 s k oid ru s')
  show ?case by (cases rule: key_insert_cases [of io k oid s]) (use 3 in \<open>auto\<close>)
next
  case (4 s k r)
  then have "decode_opt (dec_oid C) (map_of (sl_output_keys s) k) = (Ok r :: (_, ('c, 'x) sled_storage_error) result)"
    by (simp add: sl_key_get_def and_then_eq_Ok)
  then show ?case unfolding sl_key_map_def by (rule decode_opt_Ok)
qed

sublocale sled_codec \<subseteq> height_storage "sled_storage C io" "sl_wf C key" "sl_height_of C"
  for io :: "('v, 'o, 'h, 'x) sled_io"
proof (unfold_locales, goal_cases)
  case (1 s h)
  show ?case by (cases rule: upsert_cases [OF 1, of io h]) (use 1 in \<open>auto simp: sl_wf_def\<close>)
next
  case (2 s h r s')
  show ?case by (cases rule: upsert_cases [OF 2(1), of io h]) (use 2 in \<open>auto simp: sl_height_of_def\<close>)
next
  case (3 s r)
  then have "decode_opt (dec_height C) (map_of (sl_height s) ''height'') = (Ok r :: (_, ('c, 'x) sled_storage_error) result)"
    by (simp add: sl_height_get_def and_then_eq_Ok)
  then show ?case unfolding sl_height_of_def by (rule decode_opt_Ok)
qed

sublocale sled_codec \<subseteq> full_storage "sled_storage C io" "sl_wf C key" "sl_invoice_map C key" "sl_key_map C" "sl_height_of C"
  for io :: "('v, 'o, 'h, 'x) sled_io"
proof (unfold_locales, goal_cases)
  case (1 s k oid)
  show ?case by (cases rule: key_insert_cases [of io k oid s]) (use 1 in \<open>auto simp: sl_invoice_map_def fun_eq_iff\<close>)
next
  case (2 s h)
  show ?case by (cases rule: upsert_cases [OF 2, of io h]) (use 2 in \<open>auto simp: sl_invoice_map_def fun_eq_iff\<close>)
next
  case (3 s h)
  show ?case by (cases rule: upsert_cases [OF 3, of io h]) (use 3 in \<open>auto simp: sl_key_map_def fun_eq_iff\<close>)
next
  case (4 s v)
  show ?case by (cases rule: update_cases [OF 4, of io v]) (use 4 in \<open>auto simp: sl_key_map_def fun_eq_iff\<close>)
next
  case (5 s v)
  show ?case by (cases rule: insert_cases [OF 5, of io v]) (use 5 in \<open>auto simp: sl_key_map_def fun_eq_iff\<close>)
next
  case (6 s i)
  show ?case by (cases rule: remove_cases [OF 6, of io i]) (use 6 in \<open>auto simp: sl_key_map_def fun_eq_iff\<close>)
qed

text \<open>Where \<open>scan_prefix\<close> does not fail, \<open>contains_sub_index\<close> is exact.\<close>

locale sled_scanning = sled_codec C key sub
  for C :: "('v, 'o, 'h, 'c) codec" and key sub +
  fixes io :: "('v, 'o, 'h, 'x) sled_io"
  assumes scan_returns: "io ScanPrefix s = None"

sublocale sled_scanning \<subseteq> exact_invoice_storage "sled_storage C io" "sl_wf C key" "sl_invoice_map C key"
proof (unfold_locales, goal_cases)
  case (1 s idx b)
  let ?hits = "filter (\<lambda>p. take (length (sub idx)) (fst p) = sub idx) (sl_invoices s)"
  have b: "b \<longleftrightarrow> ?hits \<noteq> []"
    using 1(2) by (auto simp: sl_contains_sub_index_def enc_sub tree_items_def scan_returns)
  show ?case
  proof
    assume b
    with b obtain p where p: "p \<in> set (sl_invoices s)" "take (length (sub idx)) (fst p) = sub idx"
      by (auto simp: filter_empty_conv)
    then obtain v where v: "dec_inv C (snd p) = Ok v" "fst p = key (invoice_ident v)" using 1(1) by (auto simp: sl_wf_def)
    have "map_of (sl_invoices s) (fst p) = Some (snd p)" using 1(1) p(1) by (simp add: sl_wf_def bt_ok_map_of)
    then have "sl_invoice_map C key s (invoice_ident v) = Some v" using v by (simp add: sl_invoice_map_def)
    moreover have "sub_index (invoice_ident v) = idx" using p(2) v(2) by (simp add: key_prefix)
    ultimately show "\<exists>i \<in> dom (sl_invoice_map C key s). sub_index i = idx" by blast
  next
    assume "\<exists>i \<in> dom (sl_invoice_map C key s). sub_index i = idx"
    then show b using contains_true [of s _ _ io] 1(2) by auto
  qed
qed

context sled_codec
begin

lemma contract:
  fixes io :: "('v, 'o, 'h, 'x) sled_io"
  shows "full_storage (sled_storage C io) (sl_wf C key) (sl_invoice_map C key) (sl_key_map C) (sl_height_of C)"
  by unfold_locales

end

context sled_scanning
begin

lemma exact_contract: "exact_invoice_storage (sled_storage C io) (sl_wf C key) (sl_invoice_map C key)"
  by unfold_locales

end

section \<open>bincode's variable-length integers\<close>

text \<open>
  An instance of the codec: bincode's documented encoding of integers in its standard configuration
  (one byte below 251, otherwise a marker and 2, 4 or 8 bytes), keys made of the fields one after the
  other, and values kept as they are.
\<close>

definition varint :: "u64 \<Rightarrow> bytes" where
  "varint w =
     (if w < 251 then [ucast w]
      else if w < 65536 then 251 # rev (to_be_bytes (ucast w :: 16 word))
      else if w < 4294967296 then 252 # rev (to_be_bytes (ucast w :: u32))
      else 253 # rev (to_be_bytes w))"

definition read_varint :: "bytes \<Rightarrow> (u64 \<times> bytes) option" where
  "read_varint bs =
     (case bs of
        [] \<Rightarrow> None
      | b # r \<Rightarrow>
          (if b < 251 then Some (ucast b, r)
           else if b = 251 then Some (ucast (from_be_bytes (rev (take 2 r)) :: 16 word), drop 2 r)
           else if b = 252 then Some (ucast (from_be_bytes (rev (take 4 r)) :: u32), drop 4 r)
           else Some (from_be_bytes (rev (take 8 r)), drop 8 r)))"

lemma take_bit_small: "unat w < 2 ^ n \<Longrightarrow> take_bit n w = (w :: 'a::len word)"
  by (metis take_bit_nat_eq_self unsigned_take_bit_eq word_unat_eq_iff)

lemma ucast_ucast_small:
  "w < 65536 \<Longrightarrow> (ucast (ucast (w :: u64) :: 16 word) :: u64) = w"
  "w < 4294967296 \<Longrightarrow> (ucast (ucast (w :: u64) :: u32) :: u64) = w"
  "w < 251 \<Longrightarrow> (ucast (ucast (w :: u64) :: u8) :: u64) = w"
  by (simp_all add: word_less_nat_alt unsigned_ucast_eq take_bit_small)

lemma read_varint_append: "read_varint (varint w @ r) = Some (w, r)"
proof -
  have small: "(ucast w :: u8) < 251" if "w < 251"
    using that by (simp add: word_less_nat_alt unsigned_ucast_eq take_bit_nat_eq_self)
  have 2: "from_be_bytes (to_be_bytes (x :: 16 word)) = x" for x by (rule from_to_be_bytes) simp
  have 4: "from_be_bytes (to_be_bytes (x :: u32)) = x" for x by (rule from_to_be_bytes) simp
  have 8: "from_be_bytes (to_be_bytes (x :: u64)) = x" for x by (rule from_to_be_bytes) simp
  show ?thesis
    by (simp add: varint_def read_varint_def small ucast_ucast_small 2 4 8)
qed

lemma varint_append_eq: "varint a @ r = varint b @ r' \<longleftrightarrow> a = b \<and> r = r'"
  by (metis read_varint_append option.inject prod.inject)

definition vi_sub :: "sub_index \<Rightarrow> bytes" where
  "vi_sub x = varint (ucast (major x)) @ varint (ucast (minor x))"

definition vi_key :: "invoice_id \<Rightarrow> bytes" where
  "vi_key i = vi_sub (sub_index i) @ varint (id_height i)"

definition read_key :: "bytes \<Rightarrow> (invoice_id, unit) result" where
  "read_key bs =
     (case read_varint bs of
        None \<Rightarrow> Err ()
      | Some (a, r1) \<Rightarrow>
          (case read_varint r1 of
             None \<Rightarrow> Err ()
           | Some (b, r2) \<Rightarrow>
               (case read_varint r2 of
                  None \<Rightarrow> Err ()
                | Some (h, _) \<Rightarrow> Ok (InvoiceId (SubIndex (ucast a) (ucast b)) h))))"

definition vi_codec :: "(invoice, output_id, u64, unit) codec" where
  "vi_codec = \<lparr>enc_sub = (\<lambda>x. Ok (vi_sub x)), enc_id = (\<lambda>i. Ok (vi_key i)), dec_id = read_key,
     enc_inv = Ok, dec_inv = Ok, enc_oid = Ok, dec_oid = Ok, enc_height = Ok, dec_height = Ok\<rparr>"

lemma ucast_u32_inject: "(ucast a :: u64) = ucast b \<longleftrightarrow> a = (b :: u32)"
proof -
  have "(ucast (ucast x :: u64) :: u32) = x" for x by (rule bit_word_eqI) (auto simp: bit_simps)
  then show ?thesis by metis
qed

lemma read_key_vi_key: "read_key (vi_key i) = Ok i"
proof -
  have u: "(ucast (ucast x :: u64) :: u32) = x" for x by (rule bit_word_eqI) (auto simp: bit_simps)
  have "read_varint (varint w) = Some (w, [])" for w using read_varint_append [of w "[]"] by simp
  then show ?thesis by (cases i; cases "sub_index i") (simp add: read_key_def vi_key_def vi_sub_def read_varint_append u)
qed

lemma vi_key_prefix: "take (length (vi_sub x)) (vi_key i) = vi_sub x \<longleftrightarrow> sub_index i = x"
proof
  assume "take (length (vi_sub x)) (vi_key i) = vi_sub x"
  then have "vi_sub (sub_index i) @ varint (id_height i) = vi_sub x @ drop (length (vi_sub x)) (vi_key i)"
    by (metis append_take_drop_id vi_key_def)
  then show "sub_index i = x"
    by (cases x; cases "sub_index i") (simp add: vi_sub_def varint_append_eq ucast_u32_inject)
qed (auto simp: vi_key_def)

interpretation vi: sled_scanning vi_codec vi_key vi_sub "\<lambda>_ _. None :: (nat \<times> unit) option"
  by unfold_locales (auto simp: vi_codec_def read_key_vi_key vi_key_prefix)

section \<open>Properties\<close>

text \<open>
  C28. The sled store keeps the contract of the storage traits, whatever database errors occur: for
  every encoding that decodes to what was encoded and whose keys begin with the subaddress index, the
  store implements the abstract maps of invoices and output keys and the stored height.  If
  \<open>scan_prefix\<close> does not fail, \<open>contains_sub_index\<close> is exact.
\<close>

theorem sled_keeps_contract:
  fixes C :: "('v, 'o, 'h, 'c) codec" and io :: "('v, 'o, 'h, 'x) sled_io"
  assumes "sled_codec C key sub"
  shows "full_storage (sled_storage C io) (sl_wf C key) (sl_invoice_map C key) (sl_key_map C) (sl_height_of C)
    \<and> ((\<forall>s. io ScanPrefix s = None) \<longrightarrow>
         exact_invoice_storage (sled_storage C io) (sl_wf C key) (sl_invoice_map C key))"
proof (intro conjI impI)
  show "full_storage (sled_storage C io) (sl_wf C key) (sl_invoice_map C key) (sl_key_map C) (sl_height_of C)"
    by (rule sled_codec.contract [OF assms])
  assume "\<forall>s. io ScanPrefix s = None"
  with assms have "sled_scanning C key sub io" by (simp add: sled_scanning_def sled_scanning_axioms_def)
  then show "exact_invoice_storage (sled_storage C io) (sl_wf C key) (sl_invoice_map C key)"
    by (rule sled_scanning.exact_contract)
qed

theorem sled_keeps_contract_witness:
  "full_storage (sled_storage vi_codec (\<lambda>_ _. None :: (nat \<times> unit) option)) (sl_wf vi_codec vi_key)
     (sl_invoice_map vi_codec vi_key) (sl_key_map vi_codec) (sl_height_of vi_codec)"
  using sled_keeps_contract [OF vi.sled_codec_axioms] by blast

end
