(* ===== verification/Sqlite.thy ===== *)
theory Sqlite
  imports Sled
begin

text \<open>
  The store on an SQLite database, \<open>library/src/storage/stores/sqlite.rs\<close>.  bincode enters as in the
  sled store, through the record \<open>codec\<close>.

  SQLite is modelled by what it documents: a table is a list of rows with distinct primary keys; a
  statement that fails changes nothing and counts no changed rows; \<open>BEGIN\<close> inside a transaction is
  an error; until \<open>COMMIT\<close> the changes are visible on the connection but not in the database.  Each
  call of the crate may fail (\<open>se_fail\<close>), and a query that returns many rows gives them in an order
  of its own and may fail on the way (\<open>se_items\<close>, which numbers the rows of the table).  Failures
  after which SQLite itself ends a transaction (a full disk, say) are not distinguished from others.
\<close>

section \<open>The database\<close>

type_synonym row_key = "int \<times> int \<times> bytes"
  \<comment> \<open>the columns \<open>major_subindex\<close>, \<open>minor_subindex\<close> and \<open>creation_height\<close>\<close>

record ('v, 'o, 'h) tables =
  t_invoices :: "(row_key \<times> 'v) list"
  t_output_keys :: "(output_pub_key \<times> 'o) list"
  t_height :: "'h option"
    \<comment> \<open>the only row the \<open>CHECK\<close> admits, \<open>id = 0\<close>\<close>

record ('v, 'o, 'h) sqlite =
  sq_tables :: "('v, 'o, 'h) tables"
  sq_begun :: "('v, 'o, 'h) tables option"
    \<comment> \<open>in a transaction: the tables as the database file has them\<close>
  sq_changes :: nat

definition in_file :: "('v, 'o, 'h) sqlite \<Rightarrow> ('v, 'o, 'h) tables" where
  "in_file s = (case sq_begun s of None \<Rightarrow> sq_tables s | Some t \<Rightarrow> t)"

datatype sq_statement = InsertInto | DeleteFrom | UpdateSet | SelectInvoice | SelectIds | SelectCount | SelectInvoices
  | SelectExists | InsertKey | SelectKey | UpsertHeight | SelectHeight | Begin | Commit

datatype sq_call = Prepare | Bind | Next | NextAgain

datatype ('c, 'x) sqlite_storage_error =
    SqDatabase 'x
  | SqDuplicateInvoice
  | SqDuplicateOutputKey
  | SqSerialize 'c
  | SqDeserialize 'c
  | InvalidSubIndex int

record ('v, 'o, 'h, 'x) sqlite_env =
  se_fail :: "sq_statement \<Rightarrow> sq_call \<Rightarrow> ('v, 'o, 'h) sqlite \<Rightarrow> 'x option"
  se_items :: "sq_statement \<Rightarrow> ('v, 'o, 'h) sqlite \<Rightarrow> nat \<Rightarrow> (nat, 'x) result list"
  se_nested :: 'x
    \<comment> \<open>"cannot start a transaction within a transaction"\<close>

definition sq_try ::
  "('v, 'o, 'h, 'x) sqlite_env \<Rightarrow> sq_statement \<Rightarrow> sq_call \<Rightarrow> ('v, 'o, 'h) sqlite \<Rightarrow> 'a
     \<Rightarrow> ('a, ('c, 'x) sqlite_storage_error) result" where
  "sq_try E st c s a = (case se_fail E st c s of Some x \<Rightarrow> Err (SqDatabase x) | None \<Rightarrow> Ok a)"

definition prepare_bind ::
  "('v, 'o, 'h, 'x) sqlite_env \<Rightarrow> sq_statement \<Rightarrow> ('v, 'o, 'h) sqlite
     \<Rightarrow> (unit, ('c, 'x) sqlite_storage_error) result" where
  "prepare_bind E st s = and_then (sq_try E st Prepare s ()) (\<lambda>_. sq_try E st Bind s ())"

text \<open>A query that has at most one row: the first \<open>next\<close>, and with a row the second one, which ends it.\<close>

definition one_row ::
  "('v, 'o, 'h, 'x) sqlite_env \<Rightarrow> sq_statement \<Rightarrow> ('v, 'o, 'h) sqlite \<Rightarrow> 'b option
     \<Rightarrow> ('b option, ('c, 'x) sqlite_storage_error) result" where
  "one_row E st s row =
     and_then (sq_try E st Next s row) (\<lambda>r. case r of None \<Rightarrow> Ok None | Some b \<Rightarrow> sq_try E st NextAgain s (Some b))"

definition sq_begin ::
  "('v, 'o, 'h, 'x) sqlite_env \<Rightarrow> ('v, 'o, 'h) sqlite
     \<Rightarrow> (unit, ('c, 'x) sqlite_storage_error) result \<times> ('v, 'o, 'h) sqlite" where
  "sq_begin E s =
     (case sq_begun s of
        Some _ \<Rightarrow> (Err (SqDatabase (se_nested E)), s)
      | None \<Rightarrow> try_st (sq_try E Begin Next s (), s) (\<lambda>_ s. (Ok (), s\<lparr>sq_begun := Some (sq_tables s)\<rparr>)))"

definition sq_commit ::
  "('v, 'o, 'h, 'x) sqlite_env \<Rightarrow> ('v, 'o, 'h) sqlite
     \<Rightarrow> (unit, ('c, 'x) sqlite_storage_error) result \<times> ('v, 'o, 'h) sqlite" where
  "sq_commit E s = try_st (sq_try E Commit Next s (), s) (\<lambda>_ s. (Ok (), s\<lparr>sq_begun := None\<rparr>))"

definition set_tables :: "('v, 'o, 'h) tables \<Rightarrow> nat \<Rightarrow> ('v, 'o, 'h) sqlite \<Rightarrow> ('v, 'o, 'h) sqlite" where
  "set_tables t n s = s\<lparr>sq_tables := t, sq_changes := n\<rparr>"

section \<open>Table names\<close>

fun double_quotes :: "string \<Rightarrow> string" where
  "double_quotes [] = []"
| "double_quotes (c # cs) = (if c = CHR 0x22 then [CHR 0x22, CHR 0x22] else [c]) @ double_quotes cs"

definition table_name :: "string \<Rightarrow> string" where
  "table_name table = [CHR 0x22] @ double_quotes table @ [CHR 0x22]"

section \<open>Invoices\<close>

definition row_key_of :: "invoice_id \<Rightarrow> row_key" where
  "row_key_of i = (uint (major (sub_index i)), uint (minor (sub_index i)), to_be_bytes (id_height i))"

text \<open>\<open>while let Ok(State::Row) = statement.next()\<close>: the insertion is tried, and an error ends the loop like \<open>Done\<close>.\<close>

definition sq_insert ::
  "('v, 'o, 'h, 'c) codec \<Rightarrow> ('v, 'o, 'h, 'x) sqlite_env \<Rightarrow> invoice \<Rightarrow> ('v, 'o, 'h) sqlite
     \<Rightarrow> (unit, ('c, 'x) sqlite_storage_error) result \<times> ('v, 'o, 'h) sqlite" where
  "sq_insert C E invoice self =
     try_st (map_err SqSerialize (enc_inv C invoice), self) (\<lambda>val self.
     try_st (prepare_bind E InsertInto self, self) (\<lambda>_ self.
       let t = sq_tables self;
           key = row_key_of (invoice_ident invoice);
           self' = (if se_fail E InsertInto Next self \<noteq> None \<or> key \<in> fst ` set (t_invoices t)
                    then set_tables t 0 self
                    else set_tables (t\<lparr>t_invoices := t_invoices t @ [(key, val)]\<rparr>) 1 self)
       in if sq_changes self' = 0 then (Err SqDuplicateInvoice, self') else (Ok (), self')))"

definition sq_decode ::
  "('b \<Rightarrow> ('a, 'c) result) \<Rightarrow> 'b option \<Rightarrow> ('a option, ('c, 'x) sqlite_storage_error) result" where
  "sq_decode dec v =
     (case v of None \<Rightarrow> Ok None | Some b \<Rightarrow> map_err SqDeserialize (map_ok Some (dec b)))"

definition sq_remove ::
  "('v, 'o, 'h, 'c) codec \<Rightarrow> ('v, 'o, 'h, 'x) sqlite_env \<Rightarrow> invoice_id \<Rightarrow> ('v, 'o, 'h) sqlite
     \<Rightarrow> (invoice option, ('c, 'x) sqlite_storage_error) result \<times> ('v, 'o, 'h) sqlite" where
  "sq_remove C E i self =
     try_st (prepare_bind E DeleteFrom self, self) (\<lambda>_ self.
     let t = sq_tables self; key = row_key_of i
     in try_st (one_row E DeleteFrom self (map_of (t_invoices t) key), self) (\<lambda>row self.
          case row of
            None \<Rightarrow> (Ok None, set_tables t 0 self)
          | Some b \<Rightarrow>
              (sq_decode (dec_inv C) (Some b),
               set_tables (t\<lparr>t_invoices := filter (\<lambda>p. fst p \<noteq> key) (t_invoices t)\<rparr>) 1 self)))"

definition sq_get ::
  "('v, 'o, 'h, 'c) codec \<Rightarrow> ('v, 'o, 'h, 'x) sqlite_env \<Rightarrow> invoice_id \<Rightarrow> ('v, 'o, 'h) sqlite
     \<Rightarrow> (invoice option, ('c, 'x) sqlite_storage_error) result" where
  "sq_get C E i self =
     and_then (prepare_bind E SelectInvoice self) (\<lambda>_.
     and_then (one_row E SelectInvoice self (map_of (t_invoices (sq_tables self)) (row_key_of i)))
       (sq_decode (dec_inv C)))"

text \<open>
  The \<open>?\<close> operators between \<open>BEGIN\<close> and \<open>COMMIT\<close>, and the \<open>return Ok(None)\<close>, leave the function and
  not the block, so the result of the block is always \<open>Ok\<close> and \<open>ROLLBACK\<close> is never reached.
\<close>

definition sq_update ::
  "('v, 'o, 'h, 'c) codec \<Rightarrow> ('v, 'o, 'h, 'x) sqlite_env \<Rightarrow> invoice \<Rightarrow> ('v, 'o, 'h) sqlite
     \<Rightarrow> (invoice option, ('c, 'x) sqlite_storage_error) result \<times> ('v, 'o, 'h) sqlite" where
  "sq_update C E invoice self =
     try_st (map_err SqSerialize (enc_inv C invoice), self) (\<lambda>val self.
     try_st (sq_begin E self) (\<lambda>_ self.
     try_st (sq_get C E (invoice_ident invoice) self, self) (\<lambda>old self.
       case old of
         None \<Rightarrow> (Ok None, self)
       | Some old_invoice \<Rightarrow>
           try_st (prepare_bind E UpdateSet self, self) (\<lambda>_ self.
           try_st (sq_try E UpdateSet Next self (), self) (\<lambda>_ self.
             let t = sq_tables self; key = row_key_of (invoice_ident invoice);
                 rows = map (\<lambda>p. if fst p = key then (key, val) else p) (t_invoices t)
             in try_st (sq_commit E (set_tables (t\<lparr>t_invoices := rows\<rparr>)
                  (length (filter (\<lambda>p. fst p = key) rows)) self)) (\<lambda>_ self. (Ok (Some old_invoice), self)))))))"

text \<open>\<open>StoredInvoiceId::try_from\<close>: \<open>copy_from_slice\<close> panics when the blob has not 8 bytes.\<close>

definition u32_try_from :: "int \<Rightarrow> u32 option" where
  "u32_try_from n = (if 0 \<le> n \<and> n < 2 ^ 32 then Some (word_of_int n) else None)"

definition stored_invoice_id :: "row_key \<Rightarrow> (invoice_id, ('c, 'x) sqlite_storage_error) result" where
  "stored_invoice_id row =
     (case row of (maj_column, min_column, height_bytes) \<Rightarrow>
        if length height_bytes \<noteq> 8 then Panic
        else and_then (ok_or (u32_try_from maj_column) (InvalidSubIndex maj_column)) (\<lambda>maj.
             and_then (ok_or (u32_try_from min_column) (InvalidSubIndex maj_column)) (\<lambda>min.
               Ok (InvoiceId (SubIndex maj min) (from_be_bytes height_bytes)))))"

text \<open>\<open>flat_map\<close> over the rows: a row that is an error contributes no element.\<close>

definition sq_get_ids ::
  "('v, 'o, 'h, 'x) sqlite_env \<Rightarrow> ('v, 'o, 'h) sqlite
     \<Rightarrow> (invoice_id list, ('c, 'x) sqlite_storage_error) result" where
  "sq_get_ids E self =
     and_then (sq_try E SelectIds Prepare self ()) (\<lambda>_.
       let rows = t_invoices (sq_tables self)
       in collect_results (concat (map (\<lambda>row. case row of
              Ok k \<Rightarrow> [stored_invoice_id (fst (rows ! k))] | Err _ \<Rightarrow> [] | Panic \<Rightarrow> [])
            (se_items E SelectIds self (length rows)))))"

definition sq_contains_sub_index ::
  "('v, 'o, 'h, 'x) sqlite_env \<Rightarrow> sub_index \<Rightarrow> ('v, 'o, 'h) sqlite
     \<Rightarrow> (bool, ('c, 'x) sqlite_storage_error) result" where
  "sq_contains_sub_index E idx self =
     and_then (prepare_bind E SelectCount self) (\<lambda>_.
     map_ok (\<lambda>row. case row of None \<Rightarrow> False | Some n \<Rightarrow> 0 < n)
       (one_row E SelectCount self (Some (length (filter (\<lambda>p. fst (fst p) = uint (major idx) \<and> fst (snd (fst p)) = uint (minor idx))
          (t_invoices (sq_tables self)))))))"

definition sq_rows ::
  "('v, 'o, 'h, 'c) codec \<Rightarrow> ('v, 'o, 'h, 'x) sqlite_env \<Rightarrow> ('v, 'o, 'h) sqlite
     \<Rightarrow> ((invoice, ('c, 'x) sqlite_storage_error) result list, ('c, 'x) sqlite_storage_error) result" where
  "sq_rows C E self =
     map_ok (\<lambda>_. let rows = t_invoices (sq_tables self)
           in map (\<lambda>item. and_then (map_err SqDatabase item) (\<lambda>k. map_err SqDeserialize (dec_inv C (snd (rows ! k)))))
                (se_items E SelectInvoices self (length rows)))
       (sq_try E SelectInvoices Prepare self ())"

definition sq_is_empty ::
  "('v, 'o, 'h, 'x) sqlite_env \<Rightarrow> ('v, 'o, 'h) sqlite \<Rightarrow> (bool, ('c, 'x) sqlite_storage_error) result" where
  "sq_is_empty E self =
     and_then (sq_try E SelectExists Prepare self ()) (\<lambda>_.
     map_ok (\<lambda>row. case row of None \<Rightarrow> True | Some exists \<Rightarrow> \<not> exists)
       (one_row E SelectExists self (Some (t_invoices (sq_tables self) \<noteq> []))))"

section \<open>Output keys and height\<close>

definition sq_key_insert ::
  "('v, 'o, 'h, 'c) codec \<Rightarrow> ('v, 'o, 'h, 'x) sqlite_env \<Rightarrow> output_pub_key \<Rightarrow> output_id \<Rightarrow> ('v, 'o, 'h) sqlite
     \<Rightarrow> (unit, ('c, 'x) sqlite_storage_error) result \<times> ('v, 'o, 'h) sqlite" where
  "sq_key_insert C E key oid self =
     try_st (map_err SqSerialize (enc_oid C oid), self) (\<lambda>val self.
     try_st (prepare_bind E InsertKey self, self) (\<lambda>_ self.
       let t = sq_tables self;
           self' = (if se_fail E InsertKey Next self \<noteq> None \<or> key \<in> fst ` set (t_output_keys t)
                    then set_tables t 0 self
                    else set_tables (t\<lparr>t_output_keys := t_output_keys t @ [(key, val)]\<rparr>) 1 self)
       in if sq_changes self' = 0 then (Err SqDuplicateOutputKey, self') else (Ok (), self')))"

definition sq_key_get ::
  "('v, 'o, 'h, 'c) codec \<Rightarrow> ('v, 'o, 'h, 'x) sqlite_env \<Rightarrow> output_pub_key \<Rightarrow> ('v, 'o, 'h) sqlite
     \<Rightarrow> (output_id option, ('c, 'x) sqlite_storage_error) result" where
  "sq_key_get C E key self =
     and_then (prepare_bind E SelectKey self) (\<lambda>_.
     and_then (one_row E SelectKey self (map_of (t_output_keys (sq_tables self)) key)) (sq_decode (dec_oid C)))"

definition sq_height_get ::
  "('v, 'o, 'h, 'c) codec \<Rightarrow> ('v, 'o, 'h, 'x) sqlite_env \<Rightarrow> ('v, 'o, 'h) sqlite
     \<Rightarrow> (u64 option, ('c, 'x) sqlite_storage_error) result" where
  "sq_height_get C E self =
     and_then (sq_try E SelectHeight Prepare self ()) (\<lambda>_.
     and_then (one_row E SelectHeight self (t_height (sq_tables self))) (sq_decode (dec_height C)))"

definition sq_height_upsert ::
  "('v, 'o, 'h, 'c) codec \<Rightarrow> ('v, 'o, 'h, 'x) sqlite_env \<Rightarrow> u64 \<Rightarrow> ('v, 'o, 'h) sqlite
     \<Rightarrow> (u64 option, ('c, 'x) sqlite_storage_error) result \<times> ('v, 'o, 'h) sqlite" where
  "sq_height_upsert C E h self =
     try_st (map_err SqSerialize (enc_height C h), self) (\<lambda>encoded self.
     try_st (sq_begin E self) (\<lambda>_ self.
     try_st (sq_height_get C E self, self) (\<lambda>old_height self.
     try_st (prepare_bind E UpsertHeight self, self) (\<lambda>_ self.
     try_st (sq_try E UpsertHeight Next self (), self) (\<lambda>_ self.
     try_st (sq_commit E (set_tables ((sq_tables self)\<lparr>t_height := Some encoded\<rparr>) 1 self)) (\<lambda>_ self.
       (Ok old_height, self)))))))"

definition sqlite_storage ::
  "('v, 'o, 'h, 'c) codec \<Rightarrow> ('v, 'o, 'h, 'x) sqlite_env
     \<Rightarrow> (('v, 'o, 'h) sqlite, ('c, 'x) sqlite_storage_error) storage" where
  "sqlite_storage C E =
     \<lparr>inv_insert = sq_insert C E, inv_remove = sq_remove C E, inv_update = sq_update C E,
      inv_get = sq_get C E, inv_get_ids = sq_get_ids E,
      inv_contains_sub_index = sq_contains_sub_index E, inv_rows = sq_rows C E,
      inv_is_empty = sq_is_empty E, key_insert = sq_key_insert C E, key_get = sq_key_get C E,
      height_upsert = sq_height_upsert C E, height_get = sq_height_get C E, store_flush = (\<lambda>_. Ok ())\<rparr>"

lemma sqlite_storage_sel [simp]:
  "inv_insert (sqlite_storage C E) = sq_insert C E" "inv_remove (sqlite_storage C E) = sq_remove C E"
  "inv_update (sqlite_storage C E) = sq_update C E" "inv_get (sqlite_storage C E) = sq_get C E"
  "inv_get_ids (sqlite_storage C E) = sq_get_ids E"
  "inv_contains_sub_index (sqlite_storage C E) = sq_contains_sub_index E"
  "inv_rows (sqlite_storage C E) = sq_rows C E" "key_insert (sqlite_storage C E) = sq_key_insert C E"
  "key_get (sqlite_storage C E) = sq_key_get C E" "height_upsert (sqlite_storage C E) = sq_height_upsert C E"
  "height_get (sqlite_storage C E) = sq_height_get C E"
  by (simp_all add: sqlite_storage_def)

section \<open>Calls of the crate\<close>

lemma sq_try_Ok [simp]: "sq_try E st c s a = Ok b \<longleftrightarrow> se_fail E st c s = None \<and> b = a"
  by (auto simp: sq_try_def split: option.splits)

lemma sq_try_not_Panic [simp]: "sq_try E st c s a \<noteq> Panic"
  by (simp add: sq_try_def split: option.splits)

lemma prepare_bind_not_Panic [simp]: "prepare_bind E st s \<noteq> Panic"
  by (simp add: prepare_bind_def sq_try_def split: option.splits)

lemma one_row_Ok: "one_row E st s row = Ok r \<Longrightarrow> r = row"
  by (cases row) (auto simp: one_row_def and_then_eq_Ok)

lemma one_row_not_Panic [simp]: "one_row E st s row \<noteq> Panic"
  by (simp add: one_row_def sq_try_def split: option.splits)

lemma sq_decode_Ok: "sq_decode dec v = Ok r \<Longrightarrow> r = decoded dec v"
  by (cases v) (auto simp: sq_decode_def map_ok_eq_Ok)

lemma sq_decode_returns:
  "(\<And>b. v = Some b \<Longrightarrow> \<exists>a. dec b = Ok a) \<Longrightarrow> sq_decode dec v = Ok (decoded dec v)"
  by (cases v) (auto simp: sq_decode_def decoded_def)

lemma map_of_snoc: "k \<notin> fst ` set xs \<Longrightarrow> map_of (xs @ [(k, b)]) = (map_of xs)(k \<mapsto> b)"
  by (induction xs) auto

lemma map_of_filter_fst_neq: "map_of (filter (\<lambda>p. fst p \<noteq> k) xs) = (map_of xs)(k := None)"
  by (induction xs) auto

lemma map_of_replace:
  "map_of (map (\<lambda>p. if fst p = k then (k, b) else p) xs)
     = (if k \<in> fst ` set xs then (map_of xs)(k \<mapsto> b) else map_of xs)"
  by (induction xs) auto

lemma fst_replace: "map fst (map (\<lambda>p. if fst p = k then (k, b) else p) xs) = map fst xs"
  by (induction xs) auto

lemma row_key_of_inject [simp]: "row_key_of i = row_key_of j \<longleftrightarrow> i = j"
proof
  assume eq: "row_key_of i = row_key_of j"
  then have "from_be_bytes (to_be_bytes (id_height i)) = (from_be_bytes (to_be_bytes (id_height j)) :: u64)"
    by (simp add: row_key_of_def)
  then have "id_height i = id_height j" by (simp add: from_to_be_bytes)
  with eq show "i = j" 
    by (auto simp: row_key_of_def simp flip: word_uint_eq_iff intro!: invoice_id.expand sub_index.expand)
qed simp

lemma stored_invoice_id_row_key: "stored_invoice_id (row_key_of i) = Ok i"
proof -
  have "u32_try_from (uint w) = Some w" for w :: u32
    using uint_range_size [of w] by (simp add: u32_try_from_def word_size)
  then show ?thesis by (simp add: stored_invoice_id_def row_key_of_def from_to_be_bytes)
qed

section \<open>The contract\<close>

definition sq_wf :: "('v, 'o, 'h, 'c) codec \<Rightarrow> ('v, 'o, 'h) sqlite \<Rightarrow> bool" where
  "sq_wf C s \<longleftrightarrow> distinct (map fst (t_invoices (sq_tables s))) \<and> distinct (map fst (t_output_keys (sq_tables s)))
     \<and> (\<forall>p \<in> set (t_invoices (sq_tables s)). \<exists>v. dec_inv C (snd p) = Ok v \<and> fst p = row_key_of (invoice_ident v))
     \<and> (\<forall>p \<in> set (t_output_keys (sq_tables s)). \<exists>oid. dec_oid C (snd p) = Ok oid)
     \<and> (\<forall>b. t_height (sq_tables s) = Some b \<longrightarrow> (\<exists>h. dec_height C b = Ok h))"

definition sq_invoice_map :: "('v, 'o, 'h, 'c) codec \<Rightarrow> ('v, 'o, 'h) sqlite \<Rightarrow> invoice_id \<Rightarrow> invoice option" where
  "sq_invoice_map C s i = decoded (dec_inv C) (map_of (t_invoices (sq_tables s)) (row_key_of i))"

definition sq_key_map :: "('v, 'o, 'h, 'c) codec \<Rightarrow> ('v, 'o, 'h) sqlite \<Rightarrow> output_pub_key \<Rightarrow> output_id option" where
  "sq_key_map C s k = decoded (dec_oid C) (map_of (t_output_keys (sq_tables s)) k)"

definition sq_height_of :: "('v, 'o, 'h, 'c) codec \<Rightarrow> ('v, 'o, 'h) sqlite \<Rightarrow> u64 option" where
  "sq_height_of C s = decoded (dec_height C) (t_height (sq_tables s))"

lemma set_tables_sel [simp]:
  "sq_tables (set_tables t n s) = t" "sq_begun (set_tables t n s) = sq_begun s" "sq_changes (set_tables t n s) = n"
  by (simp_all add: set_tables_def)

text \<open>What depends on the tables only.\<close>

lemma same_tables:
  assumes "sq_tables s = sq_tables s'"
  shows "sq_wf C s = sq_wf C s'" "sq_invoice_map C s = sq_invoice_map C s'" "sq_key_map C s = sq_key_map C s'"
    "sq_height_of C s = sq_height_of C s'"
  using assms by (simp_all add: sq_wf_def sq_invoice_map_def sq_key_map_def sq_height_of_def fun_eq_iff)

lemma tables_eqD:
  "sq_tables s' = sq_tables s \<Longrightarrow>
     sq_wf C s' = sq_wf C s \<and> sq_invoice_map C s' = sq_invoice_map C s \<and> sq_key_map C s' = sq_key_map C s"
  using same_tables by blast

text \<open>
  The laws of the two crates.  Values are decoded to what was encoded.  The rows a query gives, where
  none of them is an error, are the rows of the table, each once.  Two failures are excluded because
  the code does not handle them: a row of \<open>get_ids\<close> that cannot be read is left out without an error,
  and a failed \<open>COMMIT\<close> leaves the update visible.
\<close>

locale value_codec =
  fixes C :: "('v, 'o, 'h, 'c) codec"
  assumes enc_inv: "\<exists>b. enc_inv C v = Ok b \<and> dec_inv C b = Ok v"
    and enc_oid: "\<exists>b. enc_oid C oid = Ok b \<and> dec_oid C b = Ok oid"
    and enc_height: "\<exists>b. enc_height C h = Ok b \<and> dec_height C b = Ok h"

sublocale sled_codec \<subseteq> value_codec C
  by unfold_locales (fact enc_inv enc_oid enc_height)+

definition replaced :: "row_key \<Rightarrow> 'v \<Rightarrow> ('v, 'o, 'h) sqlite \<Rightarrow> ('v, 'o, 'h) sqlite" where
  "replaced k b s =
     (let rows = map (\<lambda>p. if fst p = k then (k, b) else p) (t_invoices (sq_tables s))
      in set_tables ((sq_tables s)\<lparr>t_invoices := rows\<rparr>) (length (filter (\<lambda>p. fst p = k) rows)) s)"

definition permuted_rows :: "nat \<Rightarrow> (nat, 'x) result list \<Rightarrow> bool" where
  "permuted_rows n items \<longleftrightarrow> set items \<subseteq> Ok ` {..<n} \<union> range Err
     \<and> (items \<in> range (map Ok) \<longrightarrow> mset items = mset (map Ok [0..<n]))"

locale sqlite_connection = value_codec C
  for C :: "('v, 'o, 'h, 'c) codec" +
  fixes E :: "('v, 'o, 'h, 'x) sqlite_env"
  assumes items: "permuted_rows n (se_items E st s n)"
    and ids_read: "se_items E SelectIds s n \<in> range (map Ok)"
    and commits: "se_fail E Commit Next s = None"
begin

lemma wf_lookup:
  assumes "sq_wf C s" and "map_of (t_invoices (sq_tables s)) k = Some b"
  obtains v where "dec_inv C b = Ok v" and "k = row_key_of (invoice_ident v)"
  using assms map_of_SomeD [OF assms(2)] by (auto simp: sq_wf_def)

lemma decode_row:
  "sq_wf C s \<Longrightarrow> sq_decode (dec_inv C) (map_of (t_invoices (sq_tables s)) (row_key_of i)) = Ok (sq_invoice_map C s i)"
  unfolding sq_invoice_map_def by (rule sq_decode_returns) (auto elim: wf_lookup)

lemma in_map_iff:
  "sq_wf C s \<Longrightarrow> sq_invoice_map C s i = None \<longleftrightarrow> row_key_of i \<notin> fst ` set (t_invoices (sq_tables s))"
proof -
  assume "sq_wf C s"
  then have "\<exists>v. dec_inv C b = Ok v" if "map_of (t_invoices (sq_tables s)) (row_key_of i) = Some b" for b
    using that by (auto elim: wf_lookup)
  then have "sq_invoice_map C s i = None \<longleftrightarrow> map_of (t_invoices (sq_tables s)) (row_key_of i) = None"
    by (cases "map_of (t_invoices (sq_tables s)) (row_key_of i)") (auto simp: sq_invoice_map_def)
  then show ?thesis by (simp add: map_of_eq_None_iff)
qed

lemma insert_cases:
  assumes "sq_wf C s"
  obtains (stored) s' where "sq_insert C E v s = (Ok (), s')" and "sq_wf C s'" and "sq_invoice_map C s (invoice_ident v) = None"
      and "sq_invoice_map C s' = (sq_invoice_map C s)(invoice_ident v \<mapsto> v)" and "sq_key_map C s' = sq_key_map C s"
    | (failed) e s' where "sq_insert C E v s = (Err e, s')" and "sq_tables s' = sq_tables s"
proof -
  let ?t = "sq_tables s" and ?k = "row_key_of (invoice_ident v)"
  obtain b where b: "enc_inv C v = Ok b" "dec_inv C b = Ok v" using enc_inv by blast
  show thesis
  proof (cases "prepare_bind E InsertInto s = (Ok () :: (unit, ('c, 'x) sqlite_storage_error) result)
      \<and> se_fail E InsertInto Next s = None \<and> ?k \<notin> fst ` set (t_invoices ?t)")
    case True
    let ?s' = "set_tables (?t\<lparr>t_invoices := t_invoices ?t @ [(?k, b)]\<rparr>) 1 s"
    have "sq_insert C E v s = (Ok (), ?s')" using True b by (simp add: sq_insert_def Let_def)
    moreover have "sq_wf C ?s'" using assms True b by (auto simp: sq_wf_def)
    moreover have "sq_invoice_map C ?s' = (sq_invoice_map C s)(invoice_ident v \<mapsto> v)"
      using True b by (simp add: sq_invoice_map_def fun_eq_iff map_of_snoc del: map_of_append)
    ultimately show thesis using True assms by (intro stored [of ?s']) (simp_all add: in_map_iff sq_key_map_def fun_eq_iff)
  next
    case False
    then have "\<exists>e s'. sq_insert C E v s = (Err e, s') \<and> sq_tables s' = sq_tables s"
      by (cases "prepare_bind E InsertInto s :: (unit, ('c, 'x) sqlite_storage_error) result")
        (auto simp: sq_insert_def b(1) Let_def)
    then show thesis using failed by blast
  qed
qed

lemma remove_cases:
  assumes "sq_wf C s"
  obtains (removed) s' where "sq_remove C E i s = (Ok (sq_invoice_map C s i), s')" and "sq_wf C s'"
      and "sq_invoice_map C s' = (sq_invoice_map C s)(i := None)" and "sq_key_map C s' = sq_key_map C s"
    | (failed) e where "sq_remove C E i s = (Err e, s)"
proof -
  let ?t = "sq_tables s" and ?k = "row_key_of i"
  let ?row = "one_row E DeleteFrom s (map_of (t_invoices ?t) ?k) :: (_, ('c, 'x) sqlite_storage_error) result"
  let ?s' = "set_tables (?t\<lparr>t_invoices := filter (\<lambda>p. fst p \<noteq> ?k) (t_invoices ?t)\<rparr>) 1 s"
  have s': "sq_wf C ?s'" "sq_invoice_map C ?s' = (sq_invoice_map C s)(i := None)" "sq_key_map C ?s' = sq_key_map C s"
    using assms by (auto simp: sq_wf_def sq_invoice_map_def sq_key_map_def fun_eq_iff map_of_filter_fst_neq distinct_map_filter)
  show thesis
  proof (cases "prepare_bind E DeleteFrom s = (Ok () :: (unit, ('c, 'x) sqlite_storage_error) result) \<and> (\<exists>r. ?row = Ok r)")
    case True
    then have row: "?row = Ok (map_of (t_invoices ?t) ?k)" using one_row_Ok by metis
    show thesis
    proof (cases "map_of (t_invoices ?t) ?k")
      case None
      then have "sq_remove C E i s = (Ok (sq_invoice_map C s i), set_tables ?t 0 s)"
        using True row by (simp add: sq_remove_def Let_def sq_invoice_map_def)
      moreover have "sq_invoice_map C (set_tables ?t 0 s) = (sq_invoice_map C s)(i := None)"
        using None by (auto simp: sq_invoice_map_def fun_eq_iff)
      ultimately show thesis
        using assms by (intro removed [of "set_tables ?t 0 s"]) (simp_all add: same_tables [of "set_tables ?t 0 s" s])
    next
      case (Some b)
      then have "sq_remove C E i s = (Ok (sq_invoice_map C s i), ?s')"
        using True row decode_row [OF assms, of i] by (simp add: sq_remove_def Let_def)
      with s' show thesis by (intro removed)
    qed
  next
    case False
    then have "\<exists>e. sq_remove C E i s = (Err e, s)"
      by (cases "prepare_bind E DeleteFrom s :: (unit, ('c, 'x) sqlite_storage_error) result"; cases ?row)
        (auto simp: sq_remove_def Let_def)
    then show thesis using failed by blast
  qed
qed

lemma begin_cases:
  obtains (begun) s' where "sq_begin E s = (Ok () :: (_, ('c, 'x) sqlite_storage_error) result, s')" and "sq_tables s' = sq_tables s"
    | (failed) e where "sq_begin E s = (Err e :: (_, ('c, 'x) sqlite_storage_error) result, s)"
proof (cases "sq_begun s")
  case None
  with begun [of "s\<lparr>sq_begun := Some (sq_tables s)\<rparr>"] failed show thesis
    by (cases "sq_try E Begin Next s () :: (_, ('c, 'x) sqlite_storage_error) result") (auto simp: sq_begin_def)
qed (auto simp: sq_begin_def intro: failed)

lemma get_returns:
  assumes "sq_wf C s" and "sq_get C E i s = r"
  obtains "r = Ok (sq_invoice_map C s i)" | e where "r = Err e"
proof (cases "prepare_bind E SelectInvoice s :: (unit, ('c, 'x) sqlite_storage_error) result")
  case (Ok u)
  let ?row = "one_row E SelectInvoice s (map_of (t_invoices (sq_tables s)) (row_key_of i)) :: (_, ('c, 'x) sqlite_storage_error) result"
  show thesis
  proof (cases ?row)
    case (Ok r')
    with one_row_Ok [OF this] \<open>prepare_bind E SelectInvoice s = Ok u\<close> assms that(1) show thesis
      by (simp add: sq_get_def decode_row)
  qed (use Ok assms(2) that(2) in \<open>auto simp: sq_get_def\<close>)
qed (use assms(2) that(2) in \<open>auto simp: sq_get_def\<close>)

lemma replace_row:
  assumes "sq_wf C s" and "dec_inv C b = Ok v" and "sq_invoice_map C s (invoice_ident v) \<noteq> None"
  shows "sq_wf C ((replaced (row_key_of (invoice_ident v)) b s)\<lparr>sq_begun := x\<rparr>)"
    "sq_invoice_map C ((replaced (row_key_of (invoice_ident v)) b s)\<lparr>sq_begun := x\<rparr>) = (sq_invoice_map C s)(invoice_ident v \<mapsto> v)"
    "sq_key_map C ((replaced (row_key_of (invoice_ident v)) b s)\<lparr>sq_begun := x\<rparr>) = sq_key_map C s"
  using assms in_map_iff [OF assms(1), of "invoice_ident v"]
  by (auto simp: replaced_def Let_def sq_wf_def sq_invoice_map_def sq_key_map_def fun_eq_iff map_of_replace fst_replace
      simp del: map_map)

lemma update_cases:
  assumes "sq_wf C s"
  obtains (returned) s' where "sq_update C E v s = (Ok (sq_invoice_map C s (invoice_ident v)), s')" and "sq_wf C s'"
      and "sq_invoice_map C s' = (if sq_invoice_map C s (invoice_ident v) = None then sq_invoice_map C s
        else (sq_invoice_map C s)(invoice_ident v \<mapsto> v))"
      and "sq_key_map C s' = sq_key_map C s"
    | (failed) e s' where "sq_update C E v s = (Err e, s')" and "sq_tables s' = sq_tables s"
proof -
  let ?i = "invoice_ident v"
  obtain b where b: "enc_inv C v = Ok b" "dec_inv C b = Ok v" using enc_inv by blast
  show thesis
  proof (cases rule: begin_cases [of s, case_names begun failed])
    case (failed e)
    then show thesis using that(2) [of e s] b by (simp add: sq_update_def)
  next
    case (begun s1)
    note same = same_tables [OF begun(2), of C]
    have wf1: "sq_wf C s1" using assms same by simp
    show thesis
    proof (cases rule: get_returns [OF wf1, of ?i, OF refl, case_names got failed])
      case (failed e)
      then show thesis using that(2) [of e s1] b begun by (simp add: sq_update_def)
    next
      case got
      show thesis
      proof (cases "sq_invoice_map C s ?i")
        case None
        then show thesis using that(1) [of s1] assms b begun got same by (simp add: sq_update_def)
      next
        case (Some old)
        note upd = replace_row [OF wf1 b(2), unfolded same]
        show thesis
        proof (cases "prepare_bind E UpdateSet s1 = (Ok () :: (unit, ('c, 'x) sqlite_storage_error) result)
            \<and> se_fail E UpdateSet Next s1 = None")
          case True
          then have "sq_update C E v s = (Ok (sq_invoice_map C s ?i), (replaced (row_key_of ?i) b s1)\<lparr>sq_begun := None\<rparr>)"
            using b begun got same Some commits by (simp add: sq_update_def Let_def sq_commit_def sq_try_def replaced_def)
          then show thesis using that(1) upd [of None] Some by simp
        next
          case False
          then have "\<exists>e. sq_update C E v s = (Err e, s1)"
            by (cases "prepare_bind E UpdateSet s1 :: (unit, ('c, 'x) sqlite_storage_error) result")
              (use b begun got same Some in \<open>auto simp: sq_update_def sq_try_def\<close>)
          then show thesis using that(2) begun(2) by blast
        qed
      qed
    qed
  qed
qed

lemma get_ids_facts:
  assumes wf: "sq_wf C s" and ok: "sq_get_ids E s = (Ok ids :: (_, ('c, 'x) sqlite_storage_error) result)"
  shows "mset (map row_key_of ids) = mset (map fst (t_invoices (sq_tables s)))"
proof -
  let ?rows = "t_invoices (sq_tables s)"
  let ?n = "length ?rows"
  obtain ks where ks: "se_items E SelectIds s ?n = map Ok ks" using ids_read by blast
  have perm: "mset ks = mset [0..<?n]"
  proof -
    have "mset (map (Ok :: nat \<Rightarrow> (nat, 'x) result) ks) = mset (map Ok [0..<?n])"
      using items [of ?n SelectIds s] by (simp add: permuted_rows_def ks)
    then have "image_mset (Ok :: nat \<Rightarrow> (nat, 'x) result) (mset ks) = image_mset Ok (mset [0..<?n])"
      by (simp only: mset_map)
    then show ?thesis by (rule multiset.inj_map_strong [rotated]) simp
  qed
  then have "set ks = {..<?n}" by (metis set_mset_mset set_upt atLeast0LessThan)
  then have rows: "\<exists>i. fst (?rows ! k) = row_key_of i" if "k \<in> set ks" for k
    using wf that by (force simp: sq_wf_def)
  have conc: "concat (map (\<lambda>k. [f k]) xs) = map f xs" for f :: "nat \<Rightarrow> (invoice_id, ('c, 'x) sqlite_storage_error) result" and xs
    by (induction xs) simp_all
  have "map (\<lambda>k. stored_invoice_id (fst (?rows ! k)) :: (_, ('c, 'x) sqlite_storage_error) result) ks = map Ok ids"
    using ok by (auto simp: sq_get_ids_def and_then_eq_Ok ks collect_results_Ok_iff comp_def conc)
  then have "map row_key_of ids = map (\<lambda>k. fst (?rows ! k)) ks"
    using rows
  proof (induction ks arbitrary: ids)
    case (Cons k ks)
    from Cons.prems(1) obtain i js where ids: "ids = i # js" by (cases ids) auto
    from Cons.prems(2) obtain j where j: "fst (?rows ! k) = row_key_of j" by force
    with Cons.prems(1) ids have "i = j" by (simp add: stored_invoice_id_row_key)
    with Cons ids j show ?case by simp
  qed simp
  then have "mset (map row_key_of ids) = image_mset (\<lambda>k. fst (?rows ! k)) (mset [0..<?n])"
    using perm by (metis mset_map)
  also have "\<dots> = mset (map fst ?rows)"
    by (metis (no_types, lifting) map_map map_nth mset_map comp_def map_eq_conv)
  finally show ?thesis .
qed

lemma rows_mem:
  assumes "sq_wf C s" and got: "sq_rows C E s = Ok rs"
  shows "Ok v \<in> set rs \<Longrightarrow> sq_invoice_map C s (invoice_ident v) = Some v"
    and "\<lbrakk>sq_invoice_map C s i = Some v; \<forall>row \<in> set rs. \<exists>x. row = Ok x\<rbrakk> \<Longrightarrow> Ok v \<in> set rs"
proof -
  let ?rows = "t_invoices (sq_tables s)"
  let ?items = "se_items E SelectInvoices s (length ?rows)"
  have it: "set ?items \<subseteq> Ok ` {..<length ?rows} \<union> range Err" using items by (simp add: permuted_rows_def)
  have rows: "rs = map (\<lambda>item. and_then (map_err SqDatabase item) (\<lambda>k. map_err SqDeserialize (dec_inv C (snd (?rows ! k))))) ?items"
    using got by (auto simp: sq_rows_def map_ok_eq_Ok Let_def)
  { assume "Ok v \<in> set rs"
    then obtain k where k: "Ok k \<in> set ?items" "dec_inv C (snd (?rows ! k)) = Ok v"
      by (auto simp: rows and_then_eq_Ok dest!: sym [of "Ok v"])
    then have "?rows ! k \<in> set ?rows" using it by auto
    then have "fst (?rows ! k) = row_key_of (invoice_ident v)" "map_of ?rows (fst (?rows ! k)) = Some (snd (?rows ! k))"
      using assms k(2) by (auto simp: sq_wf_def)
    with k(2) show "sq_invoice_map C s (invoice_ident v) = Some v" by (simp add: sq_invoice_map_def) }
  assume v: "sq_invoice_map C s i = Some v" and ok: "\<forall>row \<in> set rs. \<exists>x. row = Ok x"
  have "item \<in> range Ok" if "item \<in> set ?items" for item
    using ok that by (cases item) (auto simp: rows)
  then have "?items \<in> range (map Ok)" using ex_map_conv [of ?items Ok] by (auto simp: image_iff)
  then have all: "set ?items = Ok ` {..<length ?rows}"
    using items [of "length ?rows" SelectInvoices s] by (metis permuted_rows_def set_mset_mset set_map set_upt atLeast0LessThan)
  from v obtain b where b: "map_of ?rows (row_key_of i) = Some b" "dec_inv C b = Ok v"
    by (auto simp: sq_invoice_map_def decoded_def split: option.splits result.splits)
  then obtain k where "k < length ?rows" "?rows ! k = (row_key_of i, b)" by (metis map_of_SomeD in_set_conv_nth)
  with b(2) show "Ok v \<in> set rs" unfolding rows by (force simp: all)
qed

lemma contains_iff:
  assumes "sq_wf C s" and "sq_contains_sub_index E idx s = (Ok r :: (_, ('c, 'x) sqlite_storage_error) result)"
  shows "r \<longleftrightarrow> (\<exists>i \<in> dom (sq_invoice_map C s). sub_index i = idx)"
proof -
  let ?hit = "\<lambda>p :: row_key \<times> 'v. fst (fst p) = uint (major idx) \<and> fst (snd (fst p)) = uint (minor idx)"
  have r: "r \<longleftrightarrow> (\<exists>p \<in> set (t_invoices (sq_tables s)). ?hit p)"
    using assms(2) by (auto simp: sq_contains_sub_index_def and_then_eq_Ok map_ok_eq_Ok filter_empty_conv dest!: one_row_Ok) force
  have hit: "?hit p \<longleftrightarrow> sub_index i = idx" if "fst p = row_key_of i" for i p
    using that by (auto simp: row_key_of_def simp flip: word_uint_eq_iff intro: sub_index.expand)
  have "r \<longleftrightarrow> (\<exists>i. row_key_of i \<in> fst ` set (t_invoices (sq_tables s)) \<and> sub_index i = idx)"
    unfolding r
  proof (intro iffI; elim bexE exE)
    fix p assume p: "p \<in> set (t_invoices (sq_tables s))" "?hit p"
    then obtain i where i: "fst p = row_key_of i" using assms(1) by (force simp: sq_wf_def)
    have "sub_index i = idx" using p(2) hit [OF i] by blast
    moreover have "row_key_of i \<in> fst ` set (t_invoices (sq_tables s))" using p(1) i by (metis imageI)
    ultimately show "\<exists>i. row_key_of i \<in> fst ` set (t_invoices (sq_tables s)) \<and> sub_index i = idx" by blast
  next
    fix i assume i: "row_key_of i \<in> fst ` set (t_invoices (sq_tables s)) \<and> sub_index i = idx"
    then obtain p where p: "p \<in> set (t_invoices (sq_tables s))" "fst p = row_key_of i" by auto
    show "\<exists>p \<in> set (t_invoices (sq_tables s)). ?hit p" using p(1) i hit [OF p(2)] by blast
  qed
  then show ?thesis using in_map_iff [OF assms(1)] by (metis domIff)
qed

lemma key_insert_cases:
  assumes "sq_wf C s"
  obtains (stored) s' where "sq_key_insert C E k oid s = (Ok (), s')" and "sq_wf C s'" and "sq_key_map C s k = None"
      and "sq_key_map C s' = (sq_key_map C s)(k \<mapsto> oid)" and "sq_invoice_map C s' = sq_invoice_map C s"
    | (failed) e s' where "sq_key_insert C E k oid s = (Err e, s')" and "sq_tables s' = sq_tables s"
proof -
  let ?t = "sq_tables s"
  obtain b where b: "enc_oid C oid = Ok b" "dec_oid C b = Ok oid" using enc_oid by blast
  show thesis
  proof (cases "prepare_bind E InsertKey s = (Ok () :: (unit, ('c, 'x) sqlite_storage_error) result)
      \<and> se_fail E InsertKey Next s = None \<and> k \<notin> fst ` set (t_output_keys ?t)")
    case True
    let ?s' = "set_tables (?t\<lparr>t_output_keys := t_output_keys ?t @ [(k, b)]\<rparr>) 1 s"
    have "sq_key_insert C E k oid s = (Ok (), ?s')" using True b by (simp add: sq_key_insert_def Let_def)
    moreover have "sq_wf C ?s'" using assms True b by (auto simp: sq_wf_def)
    moreover have "sq_key_map C ?s' = (sq_key_map C s)(k \<mapsto> oid)"
      using True b by (simp add: sq_key_map_def fun_eq_iff map_of_snoc del: map_of_append)
    moreover have "map_of (t_output_keys ?t) k = None" using True by (simp add: map_of_eq_None_iff)
    ultimately show thesis by (intro stored [of ?s']) (simp_all add: sq_key_map_def sq_invoice_map_def fun_eq_iff)
  next
    case False
    then have "\<exists>e s'. sq_key_insert C E k oid s = (Err e, s') \<and> sq_tables s' = sq_tables s"
      by (cases "prepare_bind E InsertKey s :: (unit, ('c, 'x) sqlite_storage_error) result")
        (auto simp: sq_key_insert_def b(1) Let_def)
    then show thesis using failed by blast
  qed
qed

lemma height_get_returns:
  assumes "sq_wf C s"
  obtains "sq_height_get C E s = Ok (sq_height_of C s)" | e where "sq_height_get C E s = Err e"
proof (cases "se_fail E SelectHeight Prepare s")
  case None
  let ?row = "one_row E SelectHeight s (t_height (sq_tables s)) :: (_, ('c, 'x) sqlite_storage_error) result"
  have "sq_decode (dec_height C) (t_height (sq_tables s)) = (Ok (sq_height_of C s) :: (_, ('c, 'x) sqlite_storage_error) result)"
    unfolding sq_height_of_def by (rule sq_decode_returns) (use assms in \<open>simp add: sq_wf_def\<close>)
  with None that show thesis
    by (cases ?row) (auto simp: sq_height_get_def sq_try_def [of E SelectHeight Prepare] dest: one_row_Ok)
qed (use that(2) in \<open>auto simp: sq_height_get_def sq_try_def\<close>)

lemma upsert_cases:
  assumes "sq_wf C s"
  obtains (stored) s' where "sq_height_upsert C E h s = (Ok (sq_height_of C s), s')" and "sq_wf C s'" and "sq_height_of C s' = Some h"
      and "sq_invoice_map C s' = sq_invoice_map C s" and "sq_key_map C s' = sq_key_map C s"
    | (failed) e s' where "sq_height_upsert C E h s = (Err e, s')" and "sq_tables s' = sq_tables s"
proof -
  obtain b where b: "enc_height C h = Ok b" "dec_height C b = Ok h" using enc_height by blast
  show thesis
  proof (cases rule: begin_cases [of s, case_names begun failed])
    case (failed e)
    then show thesis using that(2) [of e s] b by (simp add: sq_height_upsert_def)
  next
    case (begun s1)
    note same = same_tables [OF begun(2), of C]
    have wf1: "sq_wf C s1" using assms same by simp
    let ?s2 = "(set_tables ((sq_tables s1)\<lparr>t_height := Some b\<rparr>) 1 s1)\<lparr>sq_begun := None\<rparr>"
    have s2: "sq_wf C ?s2" "sq_height_of C ?s2 = Some h" "sq_invoice_map C ?s2 = sq_invoice_map C s" "sq_key_map C ?s2 = sq_key_map C s"
      using assms b unfolding same [symmetric] by (auto simp: sq_wf_def sq_height_of_def sq_invoice_map_def sq_key_map_def fun_eq_iff)
    show thesis
    proof (cases rule: height_get_returns [OF wf1, case_names got failed])
      case (failed e)
      then show thesis using that(2) [of e s1] b begun by (simp add: sq_height_upsert_def)
    next
      case got
      show thesis
      proof (cases "prepare_bind E UpsertHeight s1 = (Ok () :: (unit, ('c, 'x) sqlite_storage_error) result)
          \<and> se_fail E UpsertHeight Next s1 = None")
        case True
        then have "sq_height_upsert C E h s = (Ok (sq_height_of C s), ?s2)"
          using b begun got same commits by (simp add: sq_height_upsert_def sq_commit_def sq_try_def)
        then show thesis using that(1) s2 by blast
      next
        case False
        then have "\<exists>e. sq_height_upsert C E h s = (Err e, s1)"
          by (cases "prepare_bind E UpsertHeight s1 :: (unit, ('c, 'x) sqlite_storage_error) result")
            (use b begun got in \<open>auto simp: sq_height_upsert_def sq_try_def\<close>)
        then show thesis using that(2) begun(2) by blast
      qed
    qed
  qed
qed

end

section \<open>The contract holds\<close>

sublocale sqlite_connection \<subseteq> exact_invoice_storage "sqlite_storage C E" "sq_wf C" "sq_invoice_map C"
proof (unfold_locales, goal_cases)
  case (1 s i v)
  then obtain b where "map_of (t_invoices (sq_tables s)) (row_key_of i) = Some b" "dec_inv C b = Ok v"
    by (auto simp: sq_invoice_map_def decoded_def split: option.splits result.splits)
  with 1 show ?case by (metis wf_lookup row_key_of_inject result.inject(1))
next
  case (2 s v)
  show ?case by (cases rule: insert_cases [OF 2, of v]) (use 2 in \<open>auto dest!: tables_eqD [where C = C]\<close>)
next
  case (3 s v s')
  show ?case by (cases rule: insert_cases [OF 3(1), of v]) (use 3 in auto)
next
  case (4 s v ru s')
  show ?case by (cases rule: insert_cases [OF 4(1), of v]) (use 4 in \<open>auto dest!: tables_eqD [where C = C]\<close>)
next
  case (5 s i)
  show ?case by (cases rule: remove_cases [OF 5, of i]) (use 5 in auto)
next
  case (6 s i r s')
  show ?case by (cases rule: remove_cases [OF 6(1), of i]) (use 6 in auto)
next
  case (7 s i rv s')
  show ?case by (cases rule: remove_cases [OF 7(1), of i]) (use 7 in auto)
next
  case (8 s v)
  show ?case by (cases rule: update_cases [OF 8, of v]) (use 8 in \<open>auto dest!: tables_eqD [where C = C]\<close>)
next
  case (9 s v r s')
  show ?case by (cases rule: update_cases [OF 9(1), of v]) (use 9 in auto)
next
  case (10 s v rv s')
  show ?case by (cases rule: update_cases [OF 10(1), of v]) (use 10 in \<open>auto dest!: tables_eqD [where C = C]\<close>)
next
  case (11 s i r)
  show ?case by (rule get_returns [OF 11(1), of i, OF refl]) (use 11 in auto)
next
  case (12 s ids)
  then have m: "mset (map row_key_of ids) = mset (map fst (t_invoices (sq_tables s)))"
    by (intro get_ids_facts) simp_all
  then have "distinct (map row_key_of ids)" using 12(1) by (simp add: mset_eq_imp_distinct_iff [OF m] sq_wf_def)
  moreover have "inj row_key_of" by (simp add: inj_def)
  then have "i \<in> set ids \<longleftrightarrow> i \<in> dom (sq_invoice_map C s)" for i
    using in_map_iff [OF 12(1), of i] mset_eq_setD [OF m] by (metis set_map inj_image_mem_iff domIff)
  ultimately show ?case by (auto simp: distinct_map)
next
  case (13 s i v)
  then show ?case using contains_iff [OF 13(1), of "sub_index i" False] by (auto simp: domIff)
next
  case (14 s rows v)
  then show ?case by (simp add: rows_mem(1))
next
  case (15 s rows i v)
  then show ?case by (simp add: rows_mem(2))
next
  case (16 s idx b)
  then show ?case by (simp add: contains_iff)
qed

sublocale sqlite_connection \<subseteq> output_key_storage "sqlite_storage C E" "sq_wf C" "sq_key_map C"
proof (unfold_locales, goal_cases)
  case (1 s k oid)
  show ?case by (cases rule: key_insert_cases [OF 1, of k oid]) (use 1 in \<open>auto dest!: tables_eqD [where C = C]\<close>)
next
  case (2 s k oid s')
  show ?case by (cases rule: key_insert_cases [OF 2(1), of k oid]) (use 2 in auto)
next
  case (3 s k oid ru s')
  show ?case by (cases rule: key_insert_cases [OF 3(1), of k oid]) (use 3 in \<open>auto dest!: tables_eqD [where C = C]\<close>)
next
  case (4 s k r)
  then show ?case by (auto simp: sq_key_get_def and_then_eq_Ok sq_key_map_def dest!: one_row_Ok sq_decode_Ok)
qed

sublocale sqlite_connection \<subseteq> height_storage "sqlite_storage C E" "sq_wf C" "sq_height_of C"
proof (unfold_locales, goal_cases)
  case (1 s h)
  show ?case by (cases rule: upsert_cases [OF 1, of h]) (use 1 in \<open>auto dest!: tables_eqD [where C = C]\<close>)
next
  case (2 s h r s')
  show ?case by (cases rule: upsert_cases [OF 2(1), of h]) (use 2 in auto)
next
  case (3 s r)
  show ?case by (rule height_get_returns [OF 3(1)]) (use 3 in auto)
qed

sublocale sqlite_connection \<subseteq> full_storage "sqlite_storage C E" "sq_wf C" "sq_invoice_map C" "sq_key_map C" "sq_height_of C"
proof (unfold_locales, goal_cases)
  case (1 s k oid)
  show ?case by (cases rule: key_insert_cases [OF 1, of k oid]) (auto dest!: tables_eqD [where C = C])
next
  case (2 s h)
  show ?case by (cases rule: upsert_cases [OF 2, of h]) (auto dest!: tables_eqD [where C = C])
next
  case (3 s h)
  show ?case by (cases rule: upsert_cases [OF 3, of h]) (auto dest!: tables_eqD [where C = C])
next
  case (4 s v)
  show ?case by (cases rule: update_cases [OF 4, of v]) (auto dest!: tables_eqD [where C = C])
next
  case (5 s v)
  show ?case by (cases rule: insert_cases [OF 5, of v]) (auto dest!: tables_eqD [where C = C])
next
  case (6 s i)
  show ?case by (cases rule: remove_cases [OF 6, of i]) (auto dest!: tables_eqD [where C = C])
qed

context sqlite_connection
begin

lemma contract:
  "full_storage (sqlite_storage C E) (sq_wf C) (sq_invoice_map C) (sq_key_map C) (sq_height_of C)
   \<and> exact_invoice_storage (sqlite_storage C E) (sq_wf C) (sq_invoice_map C)"
  by (intro conjI; unfold_locales)

end

definition calm_env :: "(invoice, output_id, u64, unit) sqlite_env" where
  "calm_env = \<lparr>se_fail = (\<lambda>_ _ _. None), se_items = (\<lambda>_ _ n. map Ok [0..<n]), se_nested = ()\<rparr>"

interpretation sq: sqlite_connection vi_codec calm_env
  by unfold_locales (auto simp: vi_codec_def calm_env_def permuted_rows_def)

section \<open>A transaction that is never ended\<close>

inductive sq_step :: "('v, 'o, 'h, 'c) codec \<Rightarrow> ('v, 'o, 'h, 'x) sqlite_env \<Rightarrow> ('v, 'o, 'h) sqlite \<Rightarrow> ('v, 'o, 'h) sqlite \<Rightarrow> bool"
  for C E where
  "sq_step C E s (snd (sq_insert C E v s))"
| "sq_step C E s (snd (sq_remove C E i s))"
| "sq_step C E s (snd (sq_update C E v s))"
| "sq_step C E s (snd (sq_key_insert C E k oid s))"
| "sq_step C E s (snd (sq_height_upsert C E h s))"

lemma begin_nested: "sq_begun s = Some t \<Longrightarrow> sq_begin E s = (Err (SqDatabase (se_nested E)), s)"
  by (simp add: sq_begin_def)

lemma update_nested:
  assumes "sq_begun s = Some t"
  shows "snd (sq_update C E v s) = s" "fst (sq_update C E v s) \<noteq> Ok r"
  by (cases "enc_inv C v"; simp add: sq_update_def begin_nested [OF assms])+

lemma upsert_nested:
  assumes "sq_begun s = Some t"
  shows "snd (sq_height_upsert C E h s) = s" "fst (sq_height_upsert C E h s) \<noteq> Ok r"
  by (cases "enc_height C h"; simp add: sq_height_upsert_def begin_nested [OF assms])+

lemma autocommit_operations:
  "sq_begun (snd (sq_insert C E v s)) = sq_begun s" "sq_begun (snd (sq_remove C E i s)) = sq_begun s"
  "sq_begun (snd (sq_key_insert C E k oid s)) = sq_begun s"
  unfolding sq_insert_def sq_remove_def sq_key_insert_def Let_def
  by (rule try_st_snd; simp; (rule try_st_snd)?; auto split: option.splits)+

lemma step_begun: "sq_step C E s s' \<Longrightarrow> sq_begun s = Some t \<Longrightarrow> sq_begun s' = Some t"
  by (induction rule: sq_step.induct) (simp_all add: autocommit_operations update_nested upsert_nested)

lemma steps_begun: "(sq_step C E)\<^sup>*\<^sup>* s s' \<Longrightarrow> sq_begun s = Some t \<Longrightarrow> sq_begun s' = Some t"
  by (induction rule: rtranclp_induct) (auto dest: step_begun)

lemma begin_Ok: "sq_begin E s = (Ok u, s') \<Longrightarrow> sq_begun s' = Some (sq_tables s)"
  by (auto simp: sq_begin_def try_st_eq_Ok split: option.splits)

lemma update_unknown_begun: "sq_update C E v s = (Ok None, s') \<Longrightarrow> sq_begun s' = Some (sq_tables s)"
  by (auto simp: sq_update_def try_st_eq_Ok Let_def dest: begin_Ok split: option.splits)

section \<open>Reading a quoted name\<close>

text \<open>SQL's rule for a name in double quotes: it ends at the first quote that is not doubled.\<close>

fun read_quoted :: "string \<Rightarrow> (string \<times> string) option" where
  "read_quoted [] = None"
| "read_quoted (c # cs) =
     (if c \<noteq> CHR 0x22 then map_option (\<lambda>(name, rest). (c # name, rest)) (read_quoted cs)
      else case cs of
          [] \<Rightarrow> Some ([], [])
        | d # ds \<Rightarrow>
            if d = CHR 0x22 then map_option (\<lambda>(name, rest). (CHR 0x22 # name, rest)) (read_quoted ds)
            else Some ([], cs))"

definition read_name :: "string \<Rightarrow> (string \<times> string) option" where
  "read_name s = (case s of [] \<Rightarrow> None | c # cs \<Rightarrow> if c = CHR 0x22 then read_quoted cs else None)"

lemma read_quoted_doubled:
  "(rest = [] \<or> hd rest \<noteq> CHR 0x22) \<Longrightarrow> read_quoted (double_quotes t @ CHR 0x22 # rest) = Some (t, rest)"
  by (induction t) (auto split: list.splits)

section \<open>Properties\<close>



text \<open>
  Updating an invoice that is not stored leaves the transaction open.  From then on, whatever is
  called, every update of an invoice and of the height fails, and nothing that is inserted or removed
  reaches the database file.
\<close>

theorem update_of_unknown_invoice_blocks_database:
  assumes "sq_update C E v s = (Ok None, s1)" and "(sq_step C E)\<^sup>*\<^sup>* s1 s2"
  shows "in_file s2 = sq_tables s \<and> (\<forall>w r. fst (sq_update C E w s2) \<noteq> Ok r)
    \<and> (\<forall>h r. fst (sq_height_upsert C E h s2) \<noteq> Ok r)"
proof -
  have "sq_begun s2 = Some (sq_tables s)"
    by (rule steps_begun [OF assms(2) update_unknown_begun [OF assms(1)]])
  then show ?thesis by (simp add: in_file_def update_nested upsert_nested)
qed

definition ex_invoice :: "u32 \<Rightarrow> invoice" where
  "ex_invoice n = invoice_new ''addr'' (SubIndex 0 n) 100 7 1 10 ''tea''"

definition ex_empty :: "(invoice, output_id, u64) sqlite" where
  "ex_empty = \<lparr>sq_tables = \<lparr>t_invoices = [], t_output_keys = [], t_height = None\<rparr>, sq_begun = None, sq_changes = 0\<rparr>"

theorem update_of_unknown_invoice_blocks_database_witness:
  "\<exists>s1 s2. sq_update vi_codec calm_env (ex_invoice 1) ex_empty = (Ok None, s1)
     \<and> sq_insert vi_codec calm_env (ex_invoice 2) s1 = (Ok (), s2)
     \<and> t_invoices (in_file s2) = []"
proof -
  let ?s1 = "snd (sq_update vi_codec calm_env (ex_invoice 1) ex_empty)"
  let ?s2 = "snd (sq_insert vi_codec calm_env (ex_invoice 2) ?s1)"
  have 1: "sq_update vi_codec calm_env (ex_invoice 1) ex_empty = (Ok None, ?s1)"
    by (simp add: sq_update_def sq_get_def sq_begin_def one_row_def prepare_bind_def sq_try_def vi_codec_def calm_env_def
        ex_empty_def sq_decode_def)
  have 2: "sq_insert vi_codec calm_env (ex_invoice 2) ?s1 = (Ok (), ?s2)"
    by (simp add: sq_update_def sq_get_def sq_begin_def one_row_def prepare_bind_def sq_try_def vi_codec_def calm_env_def
        ex_empty_def sq_decode_def sq_insert_def Let_def)
  have "(sq_step vi_codec calm_env)\<^sup>*\<^sup>* ?s1 ?s2" by (intro r_into_rtranclp sq_step.intros)
  from update_of_unknown_invoice_blocks_database [OF 1 this] have "t_invoices (in_file ?s2) = []" by (simp add: ex_empty_def)
  with 1 2 show ?thesis by blast
qed

text \<open>
  A table name taken from the configuration is always read as that one name: whatever characters it
  has, the quoted form cannot end early, so it cannot bring other SQL into the statements.
\<close>

theorem table_name_is_one_name:
  assumes "rest = [] \<or> hd rest \<noteq> CHR 0x22"
  shows "read_name (table_name t @ rest) = Some (t, rest)"
  using read_quoted_doubled [OF assms] by (simp add: read_name_def table_name_def)

theorem table_name_is_one_name_witness:
  "read_name (table_name (''a'' @ [CHR 0x22] @ ''; DROP TABLE b'') @ '' WHERE'') = Some (''a'' @ [CHR 0x22] @ ''; DROP TABLE b'', '' WHERE'')"
  by (rule table_name_is_one_name) simp

text \<open>A row that cannot be read is missing from the result of \<open>get_ids\<close>, which reports no error.\<close>

theorem unreadable_rows_are_left_out:
  "sq_get_ids (calm_env\<lparr>se_items := (\<lambda>_ _ n. [Err ()])\<rparr>)
     (snd (sq_insert vi_codec calm_env (ex_invoice 1) ex_empty))
   = (Ok [] :: (_, (unit, unit) sqlite_storage_error) result)"
  by (simp add: sq_get_ids_def sq_try_def calm_env_def)

end
