(* ===== verification/Opening.thy ===== *)
theory Opening
  imports Sqlite
begin

text \<open>
  Opening and closing the databases: \<open>Sqlite::new\<close> and \<open>Sled::new\<close> of \<open>library/src/storage/stores\<close>, and
  what a restart does to the store.

  The file of a database holds each table, or tree, once it has been created; the three names are taken
  to be different, as they are in \<open>build_gateway\<close>.  Each call may fail: the arguments \<open>fail\<close> number
  them in the order of the source.  Closing an SQLite connection rolls back an open transaction.
\<close>

section \<open>SQLite\<close>

record ('v, 'o, 'h) db_file =
  f_invoices :: "(row_key \<times> 'v) list option"
  f_output_keys :: "(output_pub_key \<times> 'o) list option"
  f_height :: "'h option option"

definition no_tables :: "('v, 'o, 'h) db_file" where
  "no_tables = \<lparr>f_invoices = None, f_output_keys = None, f_height = None\<rparr>"

definition execute ::
  "'x option \<Rightarrow> (('v, 'o, 'h) db_file \<Rightarrow> ('v, 'o, 'h) db_file) \<Rightarrow> ('v, 'o, 'h) db_file
     \<Rightarrow> (unit, ('c, 'x) sqlite_storage_error) result \<times> ('v, 'o, 'h) db_file" where
  "execute failure statement file =
     (case failure of Some x \<Rightarrow> (Err (SqDatabase x), file) | None \<Rightarrow> (Ok (), statement file))"

text \<open>\<open>CREATE TABLE IF NOT EXISTS\<close>.\<close>

definition if_not_exists :: "'t option \<Rightarrow> 't \<Rightarrow> 't option" where
  "if_not_exists old new = Some (case old of Some t \<Rightarrow> t | None \<Rightarrow> new)"

definition sqlite_new ::
  "(nat \<Rightarrow> 'x option) \<Rightarrow> ('v, 'o, 'h) db_file
     \<Rightarrow> (('v, 'o, 'h) sqlite, ('c, 'x) sqlite_storage_error) result \<times> ('v, 'o, 'h) db_file" where
  "sqlite_new fail file =
     try_st (execute (fail 0) id file) (\<lambda>_ file.
     try_st (execute (fail 1) (\<lambda>f. f\<lparr>f_invoices := if_not_exists (f_invoices f) []\<rparr>) file) (\<lambda>_ file.
     try_st (execute (fail 2) (\<lambda>f. f\<lparr>f_output_keys := if_not_exists (f_output_keys f) []\<rparr>) file) (\<lambda>_ file.
     try_st (execute (fail 3) (\<lambda>f. f\<lparr>f_height := if_not_exists (f_height f) None\<rparr>) file) (\<lambda>_ file.
       (Ok \<lparr>sq_tables = \<lparr>t_invoices = the (f_invoices file), t_output_keys = the (f_output_keys file), t_height = the (f_height file)\<rparr>,
            sq_begun = None, sq_changes = 0\<rparr>, file)))))"

definition close_sqlite :: "('v, 'o, 'h) sqlite \<Rightarrow> ('v, 'o, 'h) db_file" where
  "close_sqlite s = \<lparr>f_invoices = Some (t_invoices (in_file s)), f_output_keys = Some (t_output_keys (in_file s)),
     f_height = Some (t_height (in_file s))\<rparr>"

section \<open>Sled\<close>

record ('v, 'o, 'h) sled_db =
  d_invoices :: "(bytes, 'v) btree_map option"
  d_output_keys :: "(output_pub_key, 'o) btree_map option"
  d_height :: "(string, 'h) btree_map option"

definition sled_call :: "'x option \<Rightarrow> 's \<Rightarrow> (unit, ('c, 'x) sled_storage_error) result \<times> 's" where
  "sled_call failure d = (case failure of Some x \<Rightarrow> (Err (Database (General x)), d) | None \<Rightarrow> (Ok (), d))"

definition open_tree :: "'t list option \<Rightarrow> 't list" where
  "open_tree t = (case t of Some rows \<Rightarrow> rows | None \<Rightarrow> [])"

definition sled_new ::
  "(nat \<Rightarrow> 'x option) \<Rightarrow> ('v, 'o, 'h) sled_db
     \<Rightarrow> (('v, 'o, 'h) sled, ('c, 'x) sled_storage_error) result \<times> ('v, 'o, 'h) sled_db" where
  "sled_new fail d =
     try_st (sled_call (fail 0) d) (\<lambda>_ d.
     try_st (sled_call (fail 1) d) (\<lambda>_ d. let d = d\<lparr>d_invoices := Some (open_tree (d_invoices d))\<rparr> in
     try_st (sled_call (fail 2) d) (\<lambda>_ d. let d = d\<lparr>d_output_keys := Some (open_tree (d_output_keys d))\<rparr> in
     try_st (sled_call (fail 3) d) (\<lambda>_ d. let d = d\<lparr>d_height := Some (open_tree (d_height d))\<rparr> in
       (Ok \<lparr>sl_invoices = open_tree (d_invoices d), sl_output_keys = open_tree (d_output_keys d), sl_height = open_tree (d_height d)\<rparr>, d)))))"

text \<open>The merge operator, which no operation of the store calls.\<close>

definition update_merge :: "'k \<Rightarrow> 'v option \<Rightarrow> 'v \<Rightarrow> 'v option" where
  "update_merge k old_value new_value = (if old_value \<noteq> None then Some new_value else None)"

section \<open>Opened stores keep the contract\<close>

text \<open>The tables a file stands for, with those not yet created empty.\<close>

definition tables_of :: "('v, 'o, 'h) db_file \<Rightarrow> ('v, 'o, 'h) tables" where
  "tables_of f = \<lparr>t_invoices = the (if_not_exists (f_invoices f) []), t_output_keys = the (if_not_exists (f_output_keys f) []),
     t_height = the (if_not_exists (f_height f) None)\<rparr>"

definition connected :: "('v, 'o, 'h) tables \<Rightarrow> ('v, 'o, 'h) sqlite" where
  "connected t = \<lparr>sq_tables = t, sq_begun = None, sq_changes = 0\<rparr>"

lemma sqlite_new_Ok: "sqlite_new fail file = (Ok s, file') \<Longrightarrow> s = connected (tables_of file)"
  by (auto simp: sqlite_new_def execute_def try_st_eq_Ok if_not_exists_def tables_of_def connected_def split: option.splits)

lemma tables_of_close [simp]: "tables_of (close_sqlite s) = in_file s"
  by (simp add: tables_of_def close_sqlite_def if_not_exists_def)

lemma sled_new_Ok: "sled_new fail d = (Ok s, d') \<Longrightarrow>
    s = \<lparr>sl_invoices = open_tree (d_invoices d), sl_output_keys = open_tree (d_output_keys d), sl_height = open_tree (d_height d)\<rparr>"
  by (auto simp: sled_new_def sled_call_def try_st_eq_Ok open_tree_def Let_def split: option.splits)

lemma new_sled_wf: "sled_new fail \<lparr>d_invoices = None, d_output_keys = None, d_height = None\<rparr> = (Ok s, d') \<Longrightarrow> sl_wf C key s"
  by (drule sled_new_Ok) (simp add: sl_wf_def open_tree_def bt_ok_def)

lemma new_sqlite_wf: "sq_wf C (connected (tables_of no_tables))"
  by (simp add: sq_wf_def connected_def tables_of_def no_tables_def if_not_exists_def)

section \<open>What is in the file\<close>

lemma wf_tables: "sq_tables s' = sq_tables s \<Longrightarrow> sq_wf C s' = sq_wf C s"
  by (simp add: sq_wf_def)

text \<open>The connection is outside a transaction, or in one that started from the tables \<open>t\<close>.\<close>

definition begun_from :: "('v, 'o, 'h) tables \<Rightarrow> ('v, 'o, 'h) sqlite \<Rightarrow> bool" where
  "begun_from t s \<longleftrightarrow> sq_begun s = None \<or> sq_begun s = Some t"

lemma begun_from_pure:
  "begun_from t s \<Longrightarrow> (\<And>a. begun_from t (snd (k a s))) \<Longrightarrow> begun_from t (snd (try_st (r, s) k))"
  by (cases r) simp_all

lemma begun_from_begin:
  assumes "sq_begun s = None" and "\<And>s'. begun_from (sq_tables s) s' \<Longrightarrow> begun_from (sq_tables s) (snd (k () s'))"
  shows "begun_from (sq_tables s) (snd (try_st (sq_begin E s) k))"
  using assms by (simp add: sq_begin_def sq_try_def begun_from_def split: option.split)

lemma begun_from_commit:
  assumes "begun_from t s" and "\<And>s'. begun_from t s' \<Longrightarrow> begun_from t (snd (k () s'))"
  shows "begun_from t (snd (try_st (sq_commit E (set_tables t' n s)) k))"
  using assms by (simp add: sq_commit_def sq_try_def set_tables_def begun_from_def split: option.split)

lemmas begun_from_intros = begun_from_begin begun_from_commit begun_from_pure

lemma begun_after:
  assumes "sq_step C E s s'" and "sq_begun s = None"
  shows "begun_from (sq_tables s) s'"
  using assms(1)
proof (cases rule: sq_step.cases)
  case (3 v)
  have here: "begun_from (sq_tables s) s" using assms(2) by (simp add: begun_from_def)
  show ?thesis unfolding 3 sq_update_def Let_def
    by (intro begun_from_intros here assms(2)) (auto intro!: begun_from_commit begun_from_pure split: option.split)
next
  case (5 h)
  have here: "begun_from (sq_tables s) s" using assms(2) by (simp add: begun_from_def)
  show ?thesis unfolding 5 sq_height_upsert_def
    by (intro begun_from_intros here assms(2)) simp_all
qed (simp_all add: autocommit_operations begun_from_def assms(2))

text \<open>Both the tables the connection shows and those in the file are well-formed.\<close>

definition both_wf :: "('v, 'o, 'h, 'c) codec \<Rightarrow> ('v, 'o, 'h) sqlite \<Rightarrow> bool" where
  "both_wf C s \<longleftrightarrow> sq_wf C s \<and> sq_wf C (connected (in_file s))"

context sqlite_connection
begin

lemma step_wf:
  assumes "sq_step C E s s'" and "sq_wf C s"
  shows "sq_wf C s'"
  using assms(1) insert_wf [OF assms(2)] remove_wf [OF assms(2)] update_wf [OF assms(2)] key_insert_wf [OF assms(2)] upsert_wf [OF assms(2)]
  by (cases rule: sq_step.cases) (simp_all add: sqlite_storage_def)

lemma step_both_wf:
  assumes "sq_step C E s s'" and "both_wf C s"
  shows "both_wf C s'"
proof (cases "sq_begun s")
  case None
  have wf: "sq_wf C s" "sq_wf C s'" using assms step_wf by (auto simp: both_wf_def)
  have "sq_tables (connected (in_file s')) = sq_tables s' \<or> sq_tables (connected (in_file s')) = sq_tables s"
    using begun_after [OF assms(1) None] by (auto simp: begun_from_def in_file_def connected_def)
  then show ?thesis using wf by (auto simp: both_wf_def dest!: wf_tables [where C = C])
next
  case (Some t)
  with step_begun [OF assms(1) Some] assms step_wf show ?thesis by (auto simp: both_wf_def in_file_def)
qed

lemma steps_both_wf: "(sq_step C E)\<^sup>*\<^sup>* s s' \<Longrightarrow> both_wf C s \<Longrightarrow> both_wf C s'"
  by (induction rule: rtranclp_induct) (auto intro: step_both_wf)

end

section \<open>Properties\<close>



end
