(* ===== verification/Strings.thy ===== *)
theory Strings
  imports Prelude
begin

text \<open>
  The methods of \<open>str\<close> that the HTTP code uses, on ASCII strings (a header that is not visible ASCII
  is rejected before it is parsed), and hexadecimal formatting.
\<close>

definition is_whitespace :: "char \<Rightarrow> bool" where
  "is_whitespace c \<longleftrightarrow> of_char c \<in> {9, 10, 11, 12, 13, 32 :: nat}"

definition trim_start_matches :: "char \<Rightarrow> string \<Rightarrow> string" where
  "trim_start_matches c s = dropWhile (\<lambda>x. x = c) s"

definition trim_end_matches :: "char \<Rightarrow> string \<Rightarrow> string" where
  "trim_end_matches c s = rev (dropWhile (\<lambda>x. x = c) (rev s))"

definition trim :: "string \<Rightarrow> string" where
  "trim s = rev (dropWhile is_whitespace (rev (dropWhile is_whitespace s)))"

definition starts_with :: "string \<Rightarrow> string \<Rightarrow> bool" where
  "starts_with pat s \<longleftrightarrow> take (length pat) s = pat"

definition strip_prefix :: "string \<Rightarrow> string \<Rightarrow> string option" where
  "strip_prefix pat s = (if starts_with pat s then Some (drop (length pat) s) else None)"

text \<open>\<open>s.replace(pat, "")\<close> for a pattern that is not empty.\<close>

function delete_all :: "string \<Rightarrow> string \<Rightarrow> string" where
  "delete_all pat [] = []"
| "delete_all pat (c # cs) =
     (if pat \<noteq> [] \<and> starts_with pat (c # cs) then delete_all pat (drop (length pat) (c # cs))
      else c # delete_all pat cs)"
  by pat_completeness auto
termination
proof (relation "measure (\<lambda>(pat, s). length s)")
  fix pat and c and cs :: string
  assume "pat \<noteq> [] \<and> starts_with pat (c # cs)"
  then show "((pat, drop (length pat) (c # cs)), pat, c # cs) \<in> measure (\<lambda>(pat, s). length s)"
    by (cases pat) auto
qed auto

fun split_on :: "char \<Rightarrow> string \<Rightarrow> string list" where
  "split_on d [] = [[]]"
| "split_on d (c # cs) =
     (if c = d then [] # split_on d cs
      else case split_on d cs of p # ps \<Rightarrow> (c # p) # ps | [] \<Rightarrow> [[c]])"

fun contains_str :: "string \<Rightarrow> string \<Rightarrow> bool" where
  "contains_str pat [] \<longleftrightarrow> pat = []"
| "contains_str pat (c # cs) \<longleftrightarrow> starts_with pat (c # cs) \<or> contains_str pat cs"

lemma delete_all_absent: "\<not> contains_str pat s \<Longrightarrow> delete_all pat s = s"
  by (induction s) auto

lemma delete_all_prefix:
  assumes "pat \<noteq> []" and "\<not> contains_str pat s"
  shows "delete_all pat (pat @ s) = s"
proof (cases pat)
  case (Cons c cs)
  then have "starts_with pat (c # cs @ s)" by (simp add: starts_with_def)
  with Cons assms show ?thesis using delete_all_absent [OF assms(2)] by (simp add: starts_with_def)
qed (use assms in simp)

lemma starts_with_append: "starts_with pat (pat @ s)"
  by (simp add: starts_with_def)

lemma dropWhile_hd: "xs = [] \<or> \<not> P (hd xs) \<Longrightarrow> dropWhile P xs = xs"
  by (cases xs) auto

lemma trim_id: "s = [] \<or> (\<not> is_whitespace (hd s) \<and> \<not> is_whitespace (last s)) \<Longrightarrow> trim s = s"
  by (cases "s = []") (simp_all add: trim_def dropWhile_hd hd_rev)

lemma trim_quotes:
  assumes "q \<notin> set v"
  shows "trim_end_matches q (trim_start_matches q (q # v @ [q])) = v"
proof (cases v)
  case (Cons c cs)
  with assms have "dropWhile (\<lambda>x. x = q) (v @ [q]) = v @ [q]" by auto
  moreover have "dropWhile (\<lambda>x. x = q) (rev v) = rev v"
    using assms by (cases "rev v") auto
  ultimately show ?thesis by (simp add: trim_start_matches_def trim_end_matches_def)
qed (simp add: trim_start_matches_def trim_end_matches_def)

lemma split_on_ne [simp]: "split_on d s \<noteq> []"
  by (induction s) (auto split: list.splits)

lemma split_on_absent: "d \<notin> set s \<Longrightarrow> split_on d s = [s]"
  by (induction s) auto

section \<open>Hexadecimal\<close>

definition hex_char :: "nat \<Rightarrow> char" where
  "hex_char d = (if d < 10 then char_of (48 + d) else char_of (87 + d))"

definition hex_val :: "char \<Rightarrow> nat" where
  "hex_val c = (if of_char c < (58 :: nat) then of_char c - 48 else of_char c - 87)"

fun hex_str :: "nat \<Rightarrow> nat \<Rightarrow> string" where
  "hex_str 0 n = []"
| "hex_str (Suc k) n = hex_str k (n div 16) @ [hex_char (n mod 16)]"

definition read_hex :: "string \<Rightarrow> nat" where
  "read_hex s = foldl (\<lambda>acc c. 16 * acc + hex_val c) 0 s"

lemma hex_val_char [simp]: "d < 16 \<Longrightarrow> hex_val (hex_char d) = d"
  by (auto simp: hex_val_def hex_char_def)

lemma read_hex_str: "read_hex (hex_str k n) = n mod 16 ^ k"
proof (induction k arbitrary: n)
  case (Suc k)
  have "read_hex (hex_str (Suc k) n) = 16 * read_hex (hex_str k (n div 16)) + n mod 16"
    by (simp add: read_hex_def)
  also have "\<dots> = n mod 16 ^ Suc k" by (simp add: Suc mod_mult2_eq)
  finally show ?case .
qed (simp add: read_hex_def)

text \<open>\<open>format!("{:08x}", w)\<close> and \<open>hex::encode\<close>.\<close>

definition hex8 :: "u32 \<Rightarrow> string" where
  "hex8 w = hex_str 8 (unat w)"

definition hex_encode :: "u8 list \<Rightarrow> string" where
  "hex_encode bs = concat (map (\<lambda>b. hex_str 2 (unat b)) bs)"

lemma hex8_inject: "hex8 a = hex8 b \<longleftrightarrow> a = b"
proof
  assume eq: "hex8 a = hex8 b"
  have "read_hex (hex8 w) = unat w" for w
    using unat_u32_less [of w] by (simp add: hex8_def read_hex_str)
  with eq show "a = b" by (metis word_unat_eq_iff)
qed simp

end
