(* ===== verification/Authentication.thy ===== *)
theory Authentication
  imports Strings
begin

text \<open>
  HTTP digest authentication against the daemon, \<open>library/src/monerod_client/authentication.rs\<close>.
  Parameters: the MD5 digest of a string in hexadecimal (\<open>md5\<close>), the random generator filling 16 bytes
  (\<open>fill\<close>), and \<open>HeaderValue::from_str\<close> (\<open>header_value\<close>).  A request's URI enters by its path and
  query.
\<close>

section \<open>Parameters of a challenge\<close>

datatype qop = Auth

datatype algorithm = Md5 | Md5Sess

record auth_params =
  realm :: string
  qop :: "qop list"
  algorithm :: algorithm
  nonce :: string
  opaque :: "string option"

datatype 'i auth_error =
    Unauthorized
  | InvalidHeader string
  | HeaderConstruction 'i
  | Unsupported

definition is_sess :: "algorithm \<Rightarrow> bool" where
  "is_sess a \<longleftrightarrow> a = Md5Sess"

fun show_qop :: "qop \<Rightarrow> string" where
  "show_qop Auth = ''auth''"

fun show_algorithm :: "algorithm \<Rightarrow> string" where
  "show_algorithm Md5 = ''MD5''"
| "show_algorithm Md5Sess = ''MD5-sess''"

text \<open>The best option: \<open>Qop\<close> has one value, so its maximum is \<open>Auth\<close> unless the list is empty.\<close>

definition max_qop :: "qop list \<Rightarrow> qop option" where
  "max_qop qs = (if qs = [] then None else Some Auth)"

text \<open>The derived order of \<open>Algorithm\<close>, and \<open>Ord for AuthParams\<close> by rank.\<close>

fun algorithm_rank :: "algorithm \<Rightarrow> nat" where
  "algorithm_rank Md5 = 0"
| "algorithm_rank Md5Sess = 1"

definition auth_params_cmp :: "auth_params \<Rightarrow> auth_params \<Rightarrow> ordering" where
  "auth_params_cmp self other =
     (case cmp (max_qop (qop self) \<noteq> None) (max_qop (qop other) \<noteq> None) of
        Equal \<Rightarrow> cmp (algorithm_rank (algorithm self)) (algorithm_rank (algorithm other))
      | ord \<Rightarrow> ord)"

section \<open>Reading a challenge\<close>

text \<open>
  \<open>split_header\<close>: \<open>cur\<close> is the text from the last split to the current character, the comma of the
  split included.
\<close>

definition clean_part :: "string \<Rightarrow> string" where
  "clean_part s = trim (trim_start_matches (CHR '','') s)"

fun split_loop :: "string \<Rightarrow> string \<Rightarrow> bool \<Rightarrow> bool \<Rightarrow> string list" where
  "split_loop [] cur in_single in_double = []"
| "split_loop (c # cs) cur in_single in_double =
     (let in_single' = (if c = CHR 0x27 then \<not> in_single else in_single);
          in_double' = (if c = CHR 0x22 then \<not> in_double else in_double);
          split = (c = CHR '','' \<and> \<not> in_single \<and> \<not> in_double);
          cur' = (if split then [c] else cur @ [c])
      in (if split then [clean_part cur] else [])
         @ (if cs = [] then [clean_part cur'] else split_loop cs cur' in_single' in_double'))"

definition split_header :: "string \<Rightarrow> string list" where
  "split_header header_str = split_loop header_str [] False False"

fun find_string_value :: "string list \<Rightarrow> string \<Rightarrow> string option" where
  "find_string_value [] field = None"
| "find_string_value (p # parts) field =
     (if starts_with field p
      then Some (trim_end_matches (CHR 0x22) (trim_start_matches (CHR 0x22) (delete_all (field @ ''='') p)))
      else find_string_value parts field)"

definition unwrap_or_default :: "string option \<Rightarrow> string" where
  "unwrap_or_default s = (case s of Some x \<Rightarrow> x | None \<Rightarrow> [])"

definition parse_qop :: "string \<Rightarrow> (qop, 'i auth_error) result" where
  "parse_qop s =
     (let q = trim s
      in if q = [] \<or> q = ''auth'' then Ok Auth
         else Err (InvalidHeader (''unknown QoP directive: '' @ q)))"

definition parse_algorithm :: "string \<Rightarrow> (algorithm, 'i auth_error) result" where
  "parse_algorithm s =
     (let a = trim s
      in if a = [] \<or> a = ''MD5'' then Ok Md5
         else if a = ''MD5-sess'' then Ok Md5Sess
         else Err (InvalidHeader (''unknown algorithm: '' @ a)))"

definition parse_header :: "string \<Rightarrow> (auth_params, 'i auth_error) result" where
  "parse_header header =
     (let str_params = split_header header;
          rlm = unwrap_or_default (find_string_value str_params ''realm'')
      in and_then (collect_results (map parse_qop
             (split_on (CHR '','') (unwrap_or_default (find_string_value str_params ''qop''))))) (\<lambda>q.
         and_then (parse_algorithm (unwrap_or_default (find_string_value str_params ''algorithm''))) (\<lambda>alg.
         and_then (ok_or (find_string_value str_params ''nonce'') (InvalidHeader ''no nonce provided'')) (\<lambda>n.
           Ok \<lparr>realm = rlm, qop = q, algorithm = alg, nonce = n,
               opaque = find_string_value str_params ''opaque''\<rparr>))))"

section \<open>Answering it\<close>

record 'g auth_info =
  username :: string
  password :: string
  counter :: u32
  last_auth_params :: "auth_params option"
  auth_rng :: 'g

definition auth_info_new :: "'g \<Rightarrow> (u64 \<Rightarrow> 'g) \<Rightarrow> string \<Rightarrow> string \<Rightarrow> u64 option \<Rightarrow> 'g auth_info" where
  "auth_info_new from_entropy seed_from_u64 user pass seed =
     \<lparr>username = user, password = pass, counter = 1, last_auth_params = None,
      auth_rng = (case seed of Some s \<Rightarrow> seed_from_u64 s | None \<Rightarrow> from_entropy)\<rparr>"

definition quoted :: "string \<Rightarrow> string" where
  "quoted s = CHR 0x22 # s @ [CHR 0x22]"

definition digest_response ::
  "(string \<Rightarrow> string) \<Rightarrow> 'g auth_info \<Rightarrow> auth_params \<Rightarrow> qop \<Rightarrow> string \<Rightarrow> string \<Rightarrow> string \<Rightarrow> string \<Rightarrow> string" where
  "digest_response md5 self ps q nc cnonce meth path =
     (let ha1 = md5 (username self @ '':'' @ realm ps @ '':'' @ password self);
          ha1' = (if is_sess (algorithm ps) then md5 (ha1 @ '':'' @ nonce ps @ '':'' @ cnonce) else ha1);
          ha2 = md5 (meth @ '':'' @ path)
      in md5 (ha1' @ '':'' @ nonce ps @ '':'' @ nc @ '':'' @ cnonce @ '':'' @ show_qop q @ '':'' @ ha2))"

definition auth_header ::
  "(string \<Rightarrow> string) \<Rightarrow> 'g auth_info \<Rightarrow> auth_params \<Rightarrow> qop \<Rightarrow> string \<Rightarrow> string \<Rightarrow> string \<Rightarrow> string \<Rightarrow> string" where
  "auth_header md5 self ps q nc cnonce meth path =
     ''Digest username='' @ quoted (username self) @ '', realm='' @ quoted (realm ps)
     @ '', nonce='' @ quoted (nonce ps) @ '', uri='' @ quoted path @ '', qop='' @ show_qop q
     @ '', nc='' @ nc @ '', cnonce='' @ quoted cnonce
     @ '', response='' @ quoted (digest_response md5 self ps q nc cnonce meth path)
     @ '', algorithm='' @ show_algorithm (algorithm ps)
     @ (case opaque ps of Some v \<Rightarrow> '', opaque='' @ v | None \<Rightarrow> [])"

definition authenticate ::
  "(string \<Rightarrow> string) \<Rightarrow> ('g \<Rightarrow> u8 list \<times> 'g) \<Rightarrow> (string \<Rightarrow> ('hv, 'i) result) \<Rightarrow> string \<Rightarrow> string
     \<Rightarrow> 'g auth_info \<Rightarrow> ('hv option, 'i auth_error) result \<times> 'g auth_info" where
  "authenticate md5 fill header_value path meth self =
     (case last_auth_params self of
        None \<Rightarrow> (Ok None, self)
      | Some ps \<Rightarrow>
          (let (cnonce_bytes, rng') = fill (auth_rng self);
               self1 = self\<lparr>auth_rng := rng'\<rparr>;
               nc = hex8 (counter self1)
           in try_st (ok_or (max_qop (qop ps)) Unsupported, self1) (\<lambda>q self1.
                let h = auth_header md5 self1 ps q nc (hex_encode cnonce_bytes) meth path
                in (map_ok Some (map_err HeaderConstruction (header_value h)),
                    self1\<lparr>counter := counter self1 + 1\<rparr>))))"

text \<open>
  \<open>headers\<close> are the values of the response's \<open>WWW-Authenticate\<close> headers, \<open>None\<close> for one that is not
  visible ASCII.  After sorting, the last of the best options is taken.
\<close>

definition auth_rank :: "auth_params \<Rightarrow> nat" where
  "auth_rank p = (if max_qop (qop p) = None then 0 else 2) + algorithm_rank (algorithm p)"

definition best_params :: "auth_params list \<Rightarrow> auth_params option" where
  "best_params choices =
     (case sort_key auth_rank choices of
        [] \<Rightarrow> None
      | ps \<Rightarrow> Some (last ps))"

definition read_challenges :: "string option list \<Rightarrow> (auth_params list, 'i auth_error) result" where
  "read_challenges headers =
     and_then (collect_results (map (\<lambda>h. ok_or h (InvalidHeader ''header could not be parsed to String'')) headers))
       (\<lambda>hs. collect_results (map parse_header (List.map_filter (strip_prefix ''Digest '') hs)))"

definition authenticate_with_resp ::
  "(string \<Rightarrow> string) \<Rightarrow> ('g \<Rightarrow> u8 list \<times> 'g) \<Rightarrow> (string \<Rightarrow> ('hv, 'i) result) \<Rightarrow> string option list \<Rightarrow> string
     \<Rightarrow> string \<Rightarrow> 'g auth_info \<Rightarrow> ('hv, 'i auth_error) result \<times> 'g auth_info" where
  "authenticate_with_resp md5 fill header_value headers path meth self =
     try_st (read_challenges headers, self) (\<lambda>auth_choices self.
     try_st (ok_or (best_params auth_choices) Unsupported, self) (\<lambda>ps self.
       let self1 = self\<lparr>last_auth_params := Some ps, counter := 1\<rparr>
       in try_st (authenticate md5 fill header_value path meth self1) (\<lambda>h self2.
            (ok_or h Unsupported, self2))))"

section \<open>Sorting by rank is sorting by \<open>Ord\<close>\<close>

lemma algorithm_rank_less: "algorithm_rank a < 2"
  by (cases a) auto

lemma auth_params_cmp_rank: "auth_params_cmp a b = cmp (auth_rank a) (auth_rank b)"
  using algorithm_rank_less [of "algorithm a"] algorithm_rank_less [of "algorithm b"]
  by (auto simp: auth_params_cmp_def auth_rank_def cmp_def max_qop_def)

lemma best_params_best:
  assumes "best_params choices = Some p"
  shows "p \<in> set choices \<and> (\<forall>c \<in> set choices. auth_rank c \<le> auth_rank p)"
proof -
  let ?s = "sort_key auth_rank choices"
  from assms have ne: "?s \<noteq> []" and p: "p = last ?s" by (auto simp: best_params_def split: list.splits)
  have "auth_rank c \<le> auth_rank p" if "c \<in> set choices" for c
  proof -
    from that obtain i where i: "i < length ?s" "c = ?s ! i" by (metis in_set_conv_nth set_sort)
    then have "map auth_rank ?s ! i \<le> map auth_rank ?s ! (length ?s - 1)"
      by (intro sorted_nth_mono) auto
    with i ne show ?thesis by (simp add: p last_conv_nth)
  qed
  moreover have "p \<in> set choices" using ne p by (metis last_in_set set_sort)
  ultimately show ?thesis by blast
qed

section \<open>Counting the uses of a nonce\<close>

lemma authenticate_known:
  assumes "last_auth_params self = Some ps" and "qop ps \<noteq> []"
  shows "\<exists>cnonce rng'. authenticate md5 fill header_value path meth self =
    (map_ok Some (map_err HeaderConstruction (header_value
       (auth_header md5 self ps Auth (hex8 (counter self)) cnonce meth path))),
     self\<lparr>auth_rng := rng', counter := counter self + 1\<rparr>)"
proof -
  obtain bytes rng' where f: "fill (auth_rng self) = (bytes, rng')" by force
  have "auth_header md5 (self\<lparr>auth_rng := rng'\<rparr>) ps q nc cn m pth = auth_header md5 self ps q nc cn m pth" for q nc cn m pth
    by (simp add: auth_header_def digest_response_def)
  then show ?thesis using assms f by (auto simp: authenticate_def max_qop_def)
qed

text \<open>The nonce counts that a sequence of requests uses.\<close>

fun nonce_counts ::
  "(string \<Rightarrow> string) \<Rightarrow> ('g \<Rightarrow> u8 list \<times> 'g) \<Rightarrow> (string \<Rightarrow> ('hv, 'i) result) \<Rightarrow> (string \<times> string) list
     \<Rightarrow> 'g auth_info \<Rightarrow> string list" where
  "nonce_counts md5 fill header_value [] self = []"
| "nonce_counts md5 fill header_value ((path, meth) # reqs) self =
     hex8 (counter self) # nonce_counts md5 fill header_value reqs
       (snd (authenticate md5 fill header_value path meth self))"

lemma nonce_counts_eq:
  assumes "last_auth_params self = Some ps" and "qop ps \<noteq> []"
  shows "nonce_counts md5 fill header_value reqs self
    = map (\<lambda>i. hex8 (counter self + of_nat i)) [0..<length reqs]"
  using assms(1)
proof (induction reqs arbitrary: self)
  case (Cons r reqs)
  obtain path meth where r: "r = (path, meth)" by force
  let ?self' = "snd (authenticate md5 fill header_value path meth self)"
  have "last_auth_params ?self' = Some ps \<and> counter ?self' = counter self + 1"
    using authenticate_known [OF Cons.prems assms(2), of md5 fill header_value path meth] Cons.prems by auto
  then have "nonce_counts md5 fill header_value reqs ?self'
      = map (\<lambda>i. hex8 (counter self + 1 + of_nat i)) [0..<length reqs]"
    using Cons.IH [of ?self'] by simp
  moreover have "[0..<length (r # reqs)] = 0 # map Suc [0..<length reqs]"
    by (simp only: map_Suc_upt list.size) (simp add: upt_conv_Cons del: upt_Suc)
  ultimately show ?case by (simp add: r add.assoc)
qed simp

lemma distinct_counts:
  assumes "n \<le> 2 ^ 32"
  shows "distinct (map (\<lambda>i. hex8 (c + of_nat i)) [0..<n])"
proof -
  have "i = j" if "i < n" "j < n" "(of_nat i :: u32) = of_nat j" for i j
  proof -
    have "unat (of_nat i :: u32) = i" "unat (of_nat j :: u32) = j"
      using that(1,2) assms by (auto intro!: unat_of_nat_u32)
    with that(3) show ?thesis by metis
  qed
  then show ?thesis by (auto simp: distinct_map inj_on_def hex8_inject)
qed

section \<open>Round trip of a challenge\<close>

text \<open>
  The quotation state after a text, starting from a given state; \<open>None\<close> if the text has a comma
  outside quotation marks.
\<close>

fun quote_run :: "string \<Rightarrow> bool \<Rightarrow> bool \<Rightarrow> (bool \<times> bool) option" where
  "quote_run [] s d = Some (s, d)"
| "quote_run (c # cs) s d =
     (if c = CHR '','' \<and> \<not> s \<and> \<not> d then None
      else quote_run cs (if c = CHR 0x27 then \<not> s else s) (if c = CHR 0x22 then \<not> d else d))"

lemma quote_run_append:
  "quote_run (a @ b) s d = (case quote_run a s d of None \<Rightarrow> None | Some (s', d') \<Rightarrow> quote_run b s' d')"
  by (induction a arbitrary: s d) auto

text \<open>A part of a header that the parser leaves as it is.\<close>

definition part_ok :: "string \<Rightarrow> bool" where
  "part_ok p \<longleftrightarrow> p \<noteq> [] \<and> quote_run p False False = Some (False, False)
     \<and> \<not> is_whitespace (hd p) \<and> \<not> is_whitespace (last p)"

lemma split_loop_last:
  assumes "quote_run p s d = Some (s', d')" and "p \<noteq> []"
  shows "split_loop p cur s d = [clean_part (cur @ p)]"
  using assms
proof (induction p arbitrary: cur s d)
  case (Cons c cs)
  then show ?case by (cases "cs = []") (auto simp: Let_def split: if_splits)
qed simp

lemma split_loop_comma:
  assumes "quote_run p s d = Some (False, False)" and "rest \<noteq> []"
  shows "split_loop (p @ CHR '','' # rest) cur s d
    = clean_part (cur @ p) # split_loop rest [CHR '',''] False False"
  using assms
proof (induction p arbitrary: cur s d)
  case (Cons c cs)
  then show ?case by (auto simp: Let_def split: if_splits)
qed simp

lemma clean_part_ok:
  assumes "part_ok p"
  shows "clean_part p = p" and "clean_part (CHR '','' # p) = p"
proof -
  have "hd p \<noteq> CHR '',''" using assms by (cases p) (auto simp: part_ok_def)
  moreover have "p \<noteq> []" using assms by (simp add: part_ok_def)
  ultimately have "trim_start_matches (CHR '','') p = p" by (simp add: trim_start_matches_def dropWhile_hd)
  with assms show "clean_part p = p" "clean_part (CHR '','' # p) = p"
    by (simp_all add: clean_part_def part_ok_def trim_id trim_start_matches_def)
qed

fun join_parts :: "string list \<Rightarrow> string" where
  "join_parts [] = []"
| "join_parts [p] = p"
| "join_parts (p # ps) = p @ '','' @ join_parts ps"

lemma join_ne: "\<forall>p \<in> set (p0 # ps). part_ok p \<Longrightarrow> join_parts (p0 # ps) \<noteq> []"
  by (cases ps) (auto simp: part_ok_def)

lemma split_loop_join:
  assumes "\<forall>p \<in> set ps. part_ok p" and "ps \<noteq> []" and "cur \<in> {[], [CHR '','']}"
  shows "split_loop (join_parts ps) cur False False = ps"
  using assms
proof (induction ps arbitrary: cur rule: join_parts.induct)
  case (2 p)
  then show ?case using clean_part_ok [of p] by (auto simp: split_loop_last [of p False False False False] part_ok_def)
next
  case (3 p q ps)
  have "part_ok p" and rest: "join_parts (q # ps) \<noteq> []" using 3(2) join_ne [of q ps] by auto
  then have "split_loop (p @ CHR '','' # join_parts (q # ps)) cur False False
      = clean_part (cur @ p) # split_loop (join_parts (q # ps)) [CHR '',''] False False"
    by (intro split_loop_comma) (simp_all add: part_ok_def)
  moreover have "clean_part (cur @ p) = p" using clean_part_ok [OF \<open>part_ok p\<close>] 3(4) by auto
  ultimately show ?case using 3(1) [of "[CHR '','']"] 3(2) by simp
qed simp

lemma split_header_join:
  "\<forall>p \<in> set ps. part_ok p \<Longrightarrow> ps \<noteq> [] \<Longrightarrow> split_header (join_parts ps) = ps"
  by (simp add: split_header_def split_loop_join)

text \<open>A value that may stand between quotation marks in the parameter \<open>field\<close>.\<close>

definition value_ok :: "string \<Rightarrow> string \<Rightarrow> bool" where
  "value_ok field v \<longleftrightarrow> CHR 0x22 \<notin> set v \<and> CHR 0x27 \<notin> set v \<and> \<not> contains_str (field @ ''='') (quoted v)"

lemma quote_run_value:
  "CHR 0x22 \<notin> set v \<Longrightarrow> CHR 0x27 \<notin> set v \<Longrightarrow> quote_run v False True = Some (False, True)"
  by (induction v) auto

lemma part_ok_field:
  assumes "value_ok field v" and "quote_run field False False = Some (False, False)"
    and "field \<noteq> []" and "\<not> is_whitespace (hd field)"
  shows "part_ok (field @ ''='' @ quoted v)"
  using assms quote_run_value [of v]
  by (simp add: part_ok_def quote_run_append quoted_def value_ok_def is_whitespace_def)

lemma find_field:
  assumes "value_ok field v" and "field \<noteq> []"
  shows "find_string_value ((field @ ''='' @ quoted v) # ps) field = Some v"
proof -
  have "starts_with field (field @ ''='' @ quoted v)" by (rule starts_with_append)
  moreover have "delete_all (field @ ''='') (field @ ''='' @ quoted v) = quoted v"
    using delete_all_prefix [of "field @ ''=''" "quoted v"] assms by (simp add: value_ok_def)
  moreover have "trim_end_matches (CHR 0x22) (trim_start_matches (CHR 0x22) (quoted v)) = v"
    unfolding quoted_def by (rule trim_quotes) (use assms in \<open>simp add: value_ok_def\<close>)
  ultimately show ?thesis by simp
qed

text \<open>The challenge a daemon sends for given parameters.\<close>

definition challenge :: "auth_params \<Rightarrow> string" where
  "challenge ps = join_parts
     ([''qop='' @ quoted ''auth'', ''algorithm='' @ show_algorithm (algorithm ps),
       ''realm='' @ quoted (realm ps), ''nonce='' @ quoted (nonce ps)]
      @ (case opaque ps of Some v \<Rightarrow> [''opaque='' @ quoted v] | None \<Rightarrow> []))"

lemma challenge_parts:
  assumes "value_ok ''realm'' (realm ps)" and "value_ok ''nonce'' (nonce ps)"
    and "\<forall>v. opaque ps = Some v \<longrightarrow> value_ok ''opaque'' v"
  shows "split_header (challenge ps) =
    [''qop='' @ quoted ''auth'', ''algorithm='' @ show_algorithm (algorithm ps),
     ''realm='' @ quoted (realm ps), ''nonce='' @ quoted (nonce ps)]
    @ (case opaque ps of Some v \<Rightarrow> [''opaque='' @ quoted v] | None \<Rightarrow> [])"
proof -
  have "part_ok (''qop='' @ quoted ''auth'')" by (simp add: part_ok_def quoted_def is_whitespace_def)
  moreover have "part_ok (''algorithm='' @ show_algorithm a)" for a
    by (cases a) (simp_all add: part_ok_def is_whitespace_def)
  moreover have "part_ok (''realm='' @ quoted (realm ps))"
    using part_ok_field [OF assms(1)] by (simp add: is_whitespace_def)
  moreover have "part_ok (''nonce='' @ quoted (nonce ps))"
    using part_ok_field [OF assms(2)] by (simp add: is_whitespace_def)
  moreover have "part_ok (''opaque='' @ quoted v)" if "opaque ps = Some v" for v
    using part_ok_field [of "''opaque''" v] assms(3) that by (simp add: is_whitespace_def)
  ultimately show ?thesis
    unfolding challenge_def by (intro split_header_join) (auto split: option.splits)
qed

section \<open>Properties\<close>

text \<open>
  A challenge is read back as its parameters: for a realm, nonce and opaque value without
  quotation marks that do not repeat their own field name, parsing the header a daemon sends gives
  exactly the parameters it was made from, commas inside the values included.
\<close>

theorem challenge_round_trip:
  assumes "value_ok ''realm'' (realm ps)" and "value_ok ''nonce'' (nonce ps)"
    and "\<forall>v. opaque ps = Some v \<longrightarrow> value_ok ''opaque'' v" and "qop ps = [Auth]"
  shows "parse_header (challenge ps) = Ok ps"
proof -
  let ?r = "''realm='' @ quoted (realm ps)" and ?n = "''nonce='' @ quoted (nonce ps)"
  have q: "find_string_value ((''qop='' @ quoted ''auth'') # rest) ''qop'' = Some ''auth''" for rest
    using find_field [of "''qop''" "''auth''" rest] by (simp add: value_ok_def quoted_def starts_with_def)
  have a: "find_string_value ((''qop='' @ quoted ''auth'') # (''algorithm='' @ show_algorithm alg) # rest) ''algorithm''
      = Some (show_algorithm alg)" for alg rest
    by (cases alg) (simp_all add: starts_with_def quoted_def trim_start_matches_def trim_end_matches_def)
  have r: "find_string_value (?r # rest) ''realm'' = Some (realm ps)" for rest
    using find_field [OF assms(1), of rest] by simp
  have n: "find_string_value (?n # rest) ''nonce'' = Some (nonce ps)" for rest
    using find_field [OF assms(2), of rest] by simp
  have "find_string_value ((''opaque='' @ quoted v) # rest) ''opaque'' = Some v" if "opaque ps = Some v" for v rest
    using find_field [of "''opaque''" v rest] assms(3) that by simp
  then have o: "find_string_value (case opaque ps of Some v \<Rightarrow> [''opaque='' @ quoted v] | None \<Rightarrow> []) ''opaque'' = opaque ps"
    by (cases "opaque ps") simp_all
  have skip: "find_string_value ((f @ s) # rest) g = find_string_value rest g"
    if "\<not> starts_with g (f @ s)" for f s rest g using that by simp
  have "parse_algorithm (show_algorithm alg) = (Ok alg :: (_, 'a auth_error) result)" for alg
    by (cases alg) (simp_all add: parse_algorithm_def Let_def trim_id is_whitespace_def)
  moreover have "parse_qop ''auth'' = (Ok Auth :: (_, 'a auth_error) result)"
    by (simp add: parse_qop_def trim_id is_whitespace_def)
  ultimately show ?thesis
    using assms(4) q a r n o unfolding parse_header_def challenge_parts [OF assms(1-3)] Let_def
    by (simp add: starts_with_def unwrap_or_default_def split_on_absent)
qed

theorem challenge_round_trip_witness:
  "parse_header (challenge \<lparr>realm = ''monero-rpc, main'', qop = [Auth], algorithm = Md5Sess,
      nonce = ''kVmRYw+lSQ80tTK3zj6/aA=='', opaque = None\<rparr>)
     = (Ok \<lparr>realm = ''monero-rpc, main'', qop = [Auth], algorithm = Md5Sess,
      nonce = ''kVmRYw+lSQ80tTK3zj6/aA=='', opaque = None\<rparr> :: (_, unit auth_error) result)"
  by (rule challenge_round_trip) (simp_all add: value_ok_def quoted_def starts_with_def)


definition ex_auth :: "unit auth_info" where
  "ex_auth = auth_info_new () (\<lambda>_. ()) ''u'' ''p'' None"


text \<open>
  Two ways in which a usable challenge is refused.  An apostrophe in the realm opens a quotation that
  hides the parameters after it, so the nonce is not found.  And one challenge with an algorithm that
  is not known makes the whole response fail, although another challenge offers MD5.
\<close>

theorem usable_challenges_refused:
  "parse_header (''realm='' @ quoted (''Bob'' @ [CHR 0x27] @ ''s node'') @ '',nonce='' @ quoted ''abc'')
     = (Err (InvalidHeader ''no nonce provided'') :: (_, unit auth_error) result)
   \<and> read_challenges [Some (''Digest algorithm=SHA-256,nonce='' @ quoted ''abc''), Some (''Digest algorithm=MD5,nonce='' @ quoted ''abc'')]
     = (Err (InvalidHeader ''unknown algorithm: SHA-256'') :: (_, unit auth_error) result)"
  by code_simp

end
