(* ===== verification/Daemon.thy ===== *)
theory Daemon
  imports Prelude
begin

text \<open>
  The monero daemon as the gateway sees it: the trait \<open>Client\<close> of
  \<open>library/src/monerod_client/mod.rs\<close>.  An implementation is a record of its methods.  Every call
  takes and returns a state \<open>'w\<close> of the outside world, so two calls may see different chains and
  pools; \<open>'r\<close> is the error type.

  Of the \<open>monero\<close> crate's \<open>Block\<close> and \<open>Transaction\<close> the gateway reads the previous block's ID, the
  transaction hashes, and a transaction's hash and unlock time; \<open>tx_rest\<close> stands for what only the
  crate's own output check reads.
\<close>

record mblock =
  prev_id :: hash
  tx_hashes :: "hash list"

record transaction =
  tx_hash :: hash
  unlock_time :: u64
  tx_rest :: "u8 list"

record ('w, 'r) monerod =
  md_block :: "u64 \<Rightarrow> 'w \<Rightarrow> (hash \<times> mblock, 'r) result \<times> 'w"
  md_block_transactions :: "mblock \<Rightarrow> 'w \<Rightarrow> (transaction list, 'r) result \<times> 'w"
  md_txpool :: "'w \<Rightarrow> (transaction list, 'r) result \<times> 'w"
  md_txpool_hashes :: "'w \<Rightarrow> (hash list, 'r) result \<times> 'w"
    \<comment> \<open>a \<open>HashSet\<close>, in one iteration order\<close>
  md_transactions_by_hashes :: "hash list \<Rightarrow> 'w \<Rightarrow> (transaction list, 'r) result \<times> 'w"
  md_daemon_height :: "'w \<Rightarrow> (u64, 'r) result \<times> 'w"

text \<open>A daemon call inside an operation that also changes a component's state \<open>'c\<close>.\<close>

definition on_world :: "('w \<Rightarrow> ('a, 'e) result \<times> 'w) \<Rightarrow> 'c \<times> 'w \<Rightarrow> ('a, 'e) result \<times> ('c \<times> 'w)" where
  "on_world f s = (let (r, w') = f (snd s) in (r, (fst s, w')))"

fun map_err_st :: "('e \<Rightarrow> 'f) \<Rightarrow> ('a, 'e) result \<times> 's \<Rightarrow> ('a, 'f) result \<times> 's" where
  "map_err_st f (r, s) = (map_err f r, s)"

lemma on_world_eq: "f w = (r, w') \<Longrightarrow> on_world f (c, w) = (r, (c, w'))"
  by (simp add: on_world_def)

lemma fst_snd_on_world [simp]: "fst (snd (on_world f s)) = fst s"
  by (simp add: on_world_def split: prod.splits)

lemma map_err_st_eq_Ok [simp]: "map_err_st f rs = (Ok a, s) \<longleftrightarrow> rs = (Ok a, s)"
  by (cases rs) simp

lemma snd_map_err_st [simp]: "snd (map_err_st f rs) = snd rs"
  by (cases rs) simp

lemma on_world_Ok: "on_world f s = (Ok a, s') \<longleftrightarrow> (\<exists>w'. f (snd s) = (Ok a, w') \<and> s' = (fst s, w'))"
  by (auto simp: on_world_def split: prod.splits)

end
