(* ===== verification/Monerod_Client.thy ===== *)
theory Monerod_Client
  imports Authentication Daemon
begin

text \<open>
  The RPC client for the monero daemon, \<open>RpcClient\<close> in \<open>library/src/monerod_client/mod.rs\<close>.

  The HTTP transport, the URI parser, and the decoders of the crates hex and monero are parameters,
  collected in a record.  An operation's result is an \<open>option\<close> whose \<open>None\<close> means that it does not
  return: the loop that answers challenges has no bound.
\<close>

section \<open>JSON\<close>

datatype json = JNull | JBool bool | JInt int | JFloat string | JStr string | JArr "json list"
  | JObj "(string \<times> json) list"

definition jget :: "string \<Rightarrow> json \<Rightarrow> json" where
  "jget k v = (case v of JObj m \<Rightarrow> (case map_of m k of Some x \<Rightarrow> x | None \<Rightarrow> JNull) | _ \<Rightarrow> JNull)"

definition as_str :: "json \<Rightarrow> string option" where
  "as_str v = (case v of JStr s \<Rightarrow> Some s | _ \<Rightarrow> None)"

definition as_array :: "json \<Rightarrow> json list option" where
  "as_array v = (case v of JArr xs \<Rightarrow> Some xs | _ \<Rightarrow> None)"

definition as_u64 :: "json \<Rightarrow> u64 option" where
  "as_u64 v = (case v of JInt n \<Rightarrow> if 0 \<le> n \<and> n < 2 ^ 64 then Some (of_int n) else None | _ \<Rightarrow> None)"

section \<open>Requests\<close>

datatype 'x rpc_error =
    Request 'x
  | InvalidRequest 'x
  | Timeout
  | HexDecode 'x
  | Serialization 'x
  | MissingData string
  | DataType json string
  | InvalidJson 'x
  | RpcAuth "'x auth_error"

record http_request =
  req_uri :: string
  req_authorization :: "string option"
  req_body :: string

text \<open>A response, with what reading its body as JSON gives.\<close>

record 'x http_response =
  resp_status :: nat
  resp_www_authenticate :: "string option list"
  resp_json :: "(json, 'x rpc_error) result"

record ('w, 'g, 'x) http_env =
  he_md5 :: "string \<Rightarrow> string"
  he_fill :: "'g \<Rightarrow> u8 list \<times> 'g"
  he_header_value :: "string \<Rightarrow> (string, 'x) result"
  he_path :: "string \<Rightarrow> (string, 'x) result"
  he_send :: "http_request \<Rightarrow> 'w \<Rightarrow> ('x http_response, 'x rpc_error) result \<times> 'w"
  he_hex_decode :: "string \<Rightarrow> (u8 list, 'x) result"
  he_block :: "u8 list \<Rightarrow> (mblock, 'x) result"
  he_transaction :: "u8 list \<Rightarrow> (transaction, 'x) result"
  he_hash :: "u8 list \<Rightarrow> (hash, 'x) result"

record 'g rpc_client =
  rc_url :: string
  rc_auth :: "'g auth_info option"

definition rpc_client_new ::
  "'g \<Rightarrow> (u64 \<Rightarrow> 'g) \<Rightarrow> string \<Rightarrow> string option \<Rightarrow> string option \<Rightarrow> u64 option \<Rightarrow> 'g rpc_client" where
  "rpc_client_new from_entropy seed_from_u64 url user pass seed =
     \<lparr>rc_url = url,
      rc_auth = (if user \<noteq> None \<or> pass \<noteq> None
                 then Some (auth_info_new from_entropy seed_from_u64 (unwrap_or_default user)
                              (unwrap_or_default pass) seed)
                 else None)\<rparr>"

type_synonym ('a, 's, 'x) rpc_result = "(('a, 'x rpc_error) result \<times> 's) option"

definition challenged :: "'x http_response \<Rightarrow> bool" where
  "challenged r \<longleftrightarrow> resp_status r = 401 \<and> resp_www_authenticate r \<noteq> []"

text \<open>Sending one request; \<open>path\<close> is the path and query of its URI.\<close>

definition send_request ::
  "('w, 'g, 'x) http_env \<Rightarrow> string \<Rightarrow> string option \<Rightarrow> string \<Rightarrow> 'g rpc_client \<times> 'w
     \<Rightarrow> ('x http_response, 'x rpc_error) result \<times> ('g rpc_client \<times> 'w)" where
  "send_request E uri auth body st =
     (let (r, w) = he_send E \<lparr>req_uri = uri, req_authorization = auth, req_body = body\<rparr> (snd st)
      in (r, (fst st, w)))"

text \<open>The loop in \<open>request\<close>; the pauses between its turns have no effect on the state.\<close>

partial_function (option) challenge_loop ::
  "('w, 'g, 'x) http_env \<Rightarrow> string \<Rightarrow> string \<Rightarrow> string \<Rightarrow> 'x http_response \<Rightarrow> 'g rpc_client \<times> 'w
     \<Rightarrow> (json, 'g rpc_client \<times> 'w, 'x) rpc_result" where
  "challenge_loop E uri path body response st =
     (if challenged response then
        (case rc_auth (fst st) of
           None \<Rightarrow> Some (Err (RpcAuth Unauthorized), st)
         | Some ai \<Rightarrow>
             (let (rh, ai') = authenticate_with_resp (he_md5 E) (he_fill E) (he_header_value E)
                    (resp_www_authenticate response) path ''POST'' ai;
                  st1 = ((fst st)\<lparr>rc_auth := Some ai'\<rparr>, snd st)
              in case rh of
                   Ok h \<Rightarrow>
                     (let (rr, st2) = send_request E uri (Some h) body st1
                      in case rr of
                           Ok response' \<Rightarrow> challenge_loop E uri path body response' st2
                         | Err e \<Rightarrow> Some (Err e, st2)
                         | Panic \<Rightarrow> Some (Panic, st2))
                 | Err e \<Rightarrow> Some (Err (RpcAuth e), st1)
                 | Panic \<Rightarrow> Some (Panic, st1)))
      else Some (resp_json response, st))"

definition first_authorization ::
  "('w, 'g, 'x) http_env \<Rightarrow> string \<Rightarrow> 'g rpc_client \<times> 'w
     \<Rightarrow> (string option, 'x rpc_error) result \<times> ('g rpc_client \<times> 'w)" where
  "first_authorization E path st =
     (case rc_auth (fst st) of
        None \<Rightarrow> (Ok None, st)
      | Some ai \<Rightarrow>
          (let (rh, ai') = authenticate (he_md5 E) (he_fill E) (he_header_value E) path ''POST'' ai
           in (map_err RpcAuth rh, ((fst st)\<lparr>rc_auth := Some ai'\<rparr>, snd st))))"

definition request ::
  "('w, 'g, 'x) http_env \<Rightarrow> string \<Rightarrow> string \<Rightarrow> 'g rpc_client \<times> 'w \<Rightarrow> (json, 'g rpc_client \<times> 'w, 'x) rpc_result" where
  "request E body endpoint st =
     (let uri = rc_url (fst st) @ endpoint
      in case he_path E uri of
           Ok path \<Rightarrow>
             (let (ra, st1) = first_authorization E path st
              in case ra of
                   Ok auth \<Rightarrow>
                     (let (rr, st2) = send_request E uri auth body st1
                      in case rr of
                           Ok response \<Rightarrow> challenge_loop E uri path body response st2
                         | Err e \<Rightarrow> Some (Err e, st2)
                         | Panic \<Rightarrow> Some (Panic, st2))
                 | Err e \<Rightarrow> Some (Err e, st1)
                 | Panic \<Rightarrow> Some (Panic, st1))
         | Err x \<Rightarrow> Some (Err (InvalidRequest x), st)
         | Panic \<Rightarrow> Some (Panic, st))"

text \<open>\<open>?\<close> after a request, and a result computed from its answer.\<close>

definition and_next ::
  "('a, 's, 'x) rpc_result \<Rightarrow> ('a \<Rightarrow> 's \<Rightarrow> ('b, 's, 'x) rpc_result) \<Rightarrow> ('b, 's, 'x) rpc_result" where
  "and_next r k =
     (case r of
        None \<Rightarrow> None
      | Some (Ok a, s) \<Rightarrow> k a s
      | Some (Err e, s) \<Rightarrow> Some (Err e, s)
      | Some (Panic, s) \<Rightarrow> Some (Panic, s))"

definition and_read ::
  "('a, 's, 'x) rpc_result \<Rightarrow> ('a \<Rightarrow> ('b, 'x rpc_error) result) \<Rightarrow> ('b, 's, 'x) rpc_result" where
  "and_read r f = and_next r (\<lambda>a s. Some (f a, s))"

section \<open>The client's methods\<close>

definition MAX_REQUESTED_TRANSACTIONS :: nat where
  "MAX_REQUESTED_TRANSACTIONS = 100"

definition decode_transaction :: "('w, 'g, 'x) http_env \<Rightarrow> string \<Rightarrow> (transaction, 'x rpc_error) result" where
  "decode_transaction E s =
     and_then (map_err HexDecode (he_hex_decode E s)) (\<lambda>bs. map_err Serialization (he_transaction E bs))"

text \<open>\<open>Hash::from_slice\<close> panics unless it is given 32 bytes.\<close>

definition hash_from_slice :: "u8 list \<Rightarrow> (hash, 'e) result" where
  "hash_from_slice bs = (if length bs = 32 then Ok (from_be_bytes bs) else Panic)"

definition rpc_block ::
  "('w, 'g, 'x) http_env \<Rightarrow> u64 \<Rightarrow> 'g rpc_client \<times> 'w \<Rightarrow> (hash \<times> mblock, 'g rpc_client \<times> 'w, 'x) rpc_result" where
  "rpc_block E h st =
     and_read (request E (''{\"jsonrpc\":\"2.0\",\"id\":\"0\",\"method\":\"get_block\",\"params\":{\"height\":''
         @ show_nat (unat h) @ ''}}'') ''json_rpc'' st) (\<lambda>res.
       and_then (ok_or (as_str (jget ''hash'' (jget ''block_header'' (jget ''result'' res))))
           (MissingData ''{{ result: {{ block_header: {{ hash: \"...\"}} }} }}'')) (\<lambda>block_hash_str.
       and_then (map_err HexDecode (he_hex_decode E block_hash_str)) (\<lambda>block_hash_hex.
       and_then (hash_from_slice block_hash_hex) (\<lambda>block_hash.
       and_then (ok_or (as_str (jget ''blob'' (jget ''result'' res)))
           (MissingData ''{{ result: {{ blob: \"...\" }} }}'')) (\<lambda>block_str.
       and_then (map_err HexDecode (he_hex_decode E block_str)) (\<lambda>block_hex.
         map_ok (\<lambda>b. (block_hash, b)) (map_err Serialization (he_block E block_hex))))))))"

definition rpc_txpool ::
  "('w, 'g, 'x) http_env \<Rightarrow> 'g rpc_client \<times> 'w \<Rightarrow> (transaction list, 'g rpc_client \<times> 'w, 'x) rpc_result" where
  "rpc_txpool E st =
     and_read (request E [] ''get_transaction_pool'' st) (\<lambda>res.
       case as_array (jget ''transactions'' res) of
         None \<Rightarrow> Ok []
       | Some blobs \<Rightarrow> collect_results (map (\<lambda>blob.
           and_then (ok_or (as_str (jget ''tx_blob'' blob)) (MissingData ''{{ transactions: [ {{ tx_blob: \"...\" }} ] }}''))
             (decode_transaction E)) blobs))"

text \<open>A \<open>HashSet\<close> is a list without repetitions.\<close>

definition rpc_txpool_hashes ::
  "('w, 'g, 'x) http_env \<Rightarrow> 'g rpc_client \<times> 'w \<Rightarrow> (hash list, 'g rpc_client \<times> 'w, 'x) rpc_result" where
  "rpc_txpool_hashes E st =
     and_read (request E [] ''get_transaction_pool_hashes'' st) (\<lambda>res.
       case as_array (jget ''tx_hashes'' res) of
         None \<Rightarrow> Ok []
       | Some blobs \<Rightarrow> map_ok remdups (collect_results (map (\<lambda>blob.
           and_then (ok_or (as_str blob) (DataType blob ''&str'')) (\<lambda>s.
           and_then (map_err HexDecode (he_hex_decode E s)) (\<lambda>bs.
             map_err Serialization (he_hash E bs)))) blobs)))"

fun json_strings :: "string list \<Rightarrow> string" where
  "json_strings [] = []"
| "json_strings [s] = quoted s"
| "json_strings (s # ss) = quoted s @ '','' @ json_strings ss"

definition get_transactions ::
  "('w, 'g, 'x) http_env \<Rightarrow> hash list \<Rightarrow> 'g rpc_client \<times> 'w
     \<Rightarrow> (transaction list, 'g rpc_client \<times> 'w, 'x) rpc_result" where
  "get_transactions E hashes st =
     and_read (request E (''{\"txs_hashes\":['' @ json_strings (map (\<lambda>x. hex_encode (to_be_bytes x)) hashes) @ '']}'')
         ''get_transactions'' st) (\<lambda>res.
       and_then (ok_or (as_array (jget ''txs_as_hex'' res)) (MissingData ''{{ txs_as_hex: [...] }}'')) (\<lambda>hexes.
         collect_results (map (\<lambda>tx_json.
           and_then (ok_or (as_str tx_json) (DataType tx_json ''&str'')) (decode_transaction E)) hexes)))"

fun transactions_loop ::
  "('w, 'g, 'x) http_env \<Rightarrow> hash list \<Rightarrow> nat list \<Rightarrow> transaction list \<Rightarrow> 'g rpc_client \<times> 'w
     \<Rightarrow> (transaction list, 'g rpc_client \<times> 'w, 'x) rpc_result" where
  "transactions_loop E hashes [] transactions st = Some (Ok transactions, st)"
| "transactions_loop E hashes (i # is) transactions st =
     (let starting_index = i * MAX_REQUESTED_TRANSACTIONS;
          ending_index = min (MAX_REQUESTED_TRANSACTIONS * (i + 1)) (length hashes)
      in if ending_index = starting_index then Some (Ok transactions, st)
         else and_next (get_transactions E (take (ending_index - starting_index) (drop starting_index hashes)) st)
                (\<lambda>txs st'. transactions_loop E hashes is (transactions @ txs) st'))"

definition rpc_transactions_by_hashes ::
  "('w, 'g, 'x) http_env \<Rightarrow> hash list \<Rightarrow> 'g rpc_client \<times> 'w
     \<Rightarrow> (transaction list, 'g rpc_client \<times> 'w, 'x) rpc_result" where
  "rpc_transactions_by_hashes E hashes st =
     transactions_loop E hashes [0..<Suc (length hashes div MAX_REQUESTED_TRANSACTIONS)] [] st"

definition rpc_block_transactions ::
  "('w, 'g, 'x) http_env \<Rightarrow> mblock \<Rightarrow> 'g rpc_client \<times> 'w
     \<Rightarrow> (transaction list, 'g rpc_client \<times> 'w, 'x) rpc_result" where
  "rpc_block_transactions E b st = rpc_transactions_by_hashes E (tx_hashes b) st"

definition rpc_daemon_height ::
  "('w, 'g, 'x) http_env \<Rightarrow> 'g rpc_client \<times> 'w \<Rightarrow> (u64, 'g rpc_client \<times> 'w, 'x) rpc_result" where
  "rpc_daemon_height E st =
     and_read (request E ''{\"jsonrpc\":\"2.0\",\"id\":\"0\",\"method\":\"get_block_count\"}'' ''json_rpc'' st) (\<lambda>res.
       ok_or (as_u64 (jget ''count'' (jget ''result'' res))) (MissingData ''{{ result: {{ count: \"...\" }}''))"

section \<open>Fetching transactions in parts\<close>

text \<open>The reference: cut the hashes into parts of at most 100 and ask for them one after the other.\<close>

function chunks :: "nat \<Rightarrow> 'a list \<Rightarrow> 'a list list" where
  "chunks n xs = (if xs = [] \<or> n = 0 then [] else take n xs # chunks n (drop n xs))"
  by pat_completeness auto
termination by (relation "measure (\<lambda>(n, xs). length xs)") auto

declare chunks.simps [simp del]

fun fetch_all ::
  "('w, 'g, 'x) http_env \<Rightarrow> hash list list \<Rightarrow> transaction list \<Rightarrow> 'g rpc_client \<times> 'w
     \<Rightarrow> (transaction list, 'g rpc_client \<times> 'w, 'x) rpc_result" where
  "fetch_all E [] acc st = Some (Ok acc, st)"
| "fetch_all E (c # cs) acc st = and_next (get_transactions E c st) (\<lambda>txs st'. fetch_all E cs (acc @ txs) st')"

lemma concat_chunks: "0 < n \<Longrightarrow> concat (chunks n xs) = xs"
  by (induction n xs rule: chunks.induct) (simp add: chunks.simps)

lemma chunks_Nil [simp]: "chunks n [] = []"
  by (simp add: chunks.simps)

lemma chunks_Cons: "xs \<noteq> [] \<Longrightarrow> 0 < n \<Longrightarrow> chunks n xs = take n xs # chunks n (drop n xs)"
  by (simp add: chunks.simps [of n xs])

lemma chunks_length: "0 < n \<Longrightarrow> length ` set (chunks n xs) \<subseteq> {1..n}"
proof (induction n xs rule: chunks.induct)
  case (1 n xs)
  then show ?case by (cases "xs = []") (auto simp: chunks_Cons Suc_le_eq)
qed

lemma transactions_loop_chunks:
  assumes "k \<le> length hs div 100"
  shows "transactions_loop E hs [k..<Suc (length hs div 100)] acc st = fetch_all E (chunks 100 (drop (k * 100) hs)) acc st"
  using assms
proof (induction "length hs div 100 - k" arbitrary: k acc st)
  case 0
  let ?q = "length hs div 100" and ?xs = "drop (k * 100) hs"
  from 0 have k: "k = ?q" by simp
  have r: "length ?xs = length hs mod 100" "length ?xs < 100"
    unfolding k length_drop by (simp_all add: minus_div_mult_eq_mod)
  have len: "length hs = k * 100 + length ?xs" unfolding k length_drop by simp
  have "transactions_loop E hs [k] acc st = fetch_all E (chunks 100 ?xs) acc st"
  proof (cases "?xs = []")
    case True
    with len have "length hs = k * 100" by simp
    then show ?thesis by (simp add: MAX_REQUESTED_TRANSACTIONS_def)
  next
    case False
    have "length hs \<le> 100 * (length hs div 100 + 1)" by presburger
    then have "length hs \<le> 100 * (k + 1)" by (simp only: k)
    then have "min (100 * (k + 1)) (length hs) = length hs" by simp
    moreover have "length hs \<noteq> k * 100" using False by simp
    moreover have "chunks 100 ?xs = [?xs]" using False r(2) by (simp add: chunks_Cons)
    moreover have "transactions_loop E hs [] = fetch_all E []" by (intro ext) simp
    ultimately show ?thesis by (simp add: MAX_REQUESTED_TRANSACTIONS_def Let_def)
  qed
  then show ?case by (simp flip: k)
next
  case (Suc n)
  let ?q = "length hs div 100" and ?xs = "drop (k * 100) hs"
  from Suc(2) have k: "Suc k \<le> ?q" "n = ?q - Suc k" by simp_all
  then have "Suc k * 100 \<le> ?q * 100" by simp
  also have "\<dots> \<le> length hs" by simp
  finally have len: "Suc k * 100 \<le> length hs" .
  have upt: "[k..<Suc ?q] = k # [Suc k..<Suc ?q]" using k(1) by (intro upt_conv_Cons) simp
  have m: "min (100 * (k + 1)) (length hs) = 100 * (k + 1)" "100 * (k + 1) - k * 100 = 100" "100 * (k + 1) \<noteq> k * 100"
    using len by (simp_all add: min_def)
  have "?xs \<noteq> []" using len by simp
  then have ch: "chunks 100 ?xs = take 100 ?xs # chunks 100 (drop (Suc k * 100) hs)"
    by (simp add: chunks_Cons add.commute)
  have IH: "transactions_loop E hs [Suc k..<Suc ?q] = fetch_all E (chunks 100 (drop (Suc k * 100) hs))"
    by (intro ext Suc(1) [OF k(2) k(1)])
  show ?case
    unfolding upt ch transactions_loop.simps fetch_all.simps MAX_REQUESTED_TRANSACTIONS_def Let_def m
    by (simp only: m if_False IH)
qed

section \<open>Challenges without end\<close>

text \<open>A daemon that answers every request with a challenge that can be answered.\<close>

definition always_challenges :: "('w, 'g, 'x) http_env \<Rightarrow> 'x http_response \<Rightarrow> bool" where
  "always_challenges E resp \<longleftrightarrow> challenged resp
     \<and> (\<forall>r w. fst (he_send E r w) = Ok resp) \<and> (\<forall>u. \<exists>p. he_path E u = Ok p) \<and> (\<forall>h. \<exists>v. he_header_value E h = Ok v)
     \<and> (\<exists>choices. (read_challenges (resp_www_authenticate resp) :: (_, 'x auth_error) result) = Ok choices
          \<and> (\<exists>p. best_params choices = Some p \<and> qop p \<noteq> []))"

lemma always_answered:
  fixes E :: "('w, 'g, 'x) http_env"
  assumes "always_challenges E resp"
  obtains h ai' where "authenticate_with_resp (he_md5 E) (he_fill E) (he_header_value E)
      (resp_www_authenticate resp) path meth ai = (Ok h, ai')"
proof -
  obtain choices p where c: "(read_challenges (resp_www_authenticate resp) :: (_, 'x auth_error) result) = Ok choices"
      "best_params choices = Some p" "qop p \<noteq> []"
    using assms by (auto simp: always_challenges_def)
  let ?ai = "ai\<lparr>last_auth_params := Some p, counter := 1\<rparr>"
  obtain cnonce rng' where a: "authenticate (he_md5 E) (he_fill E) (he_header_value E) path meth ?ai =
      (map_ok Some (map_err HeaderConstruction (he_header_value E
         (auth_header (he_md5 E) ?ai p Auth (hex8 (counter ?ai)) cnonce meth path))),
       ?ai\<lparr>auth_rng := rng', counter := counter ?ai + 1\<rparr>)"
    using authenticate_known [of ?ai p "he_md5 E" "he_fill E" "he_header_value E" path meth] c(3) by auto
  obtain v where "he_header_value E (auth_header (he_md5 E) ?ai p Auth (hex8 (counter ?ai)) cnonce meth path) = Ok v"
    using assms unfolding always_challenges_def by blast
  with a c show thesis by (intro that) (simp add: authenticate_with_resp_def)
qed

lemma always_sends:
  assumes "always_challenges E resp"
  obtains w where "send_request E uri auth body st = (Ok resp, (fst st, w))"
  using assms by (simp add: send_request_def case_prod_beta always_challenges_def)

lemma challenge_loop_diverges:
  fixes E :: "('w, 'g, 'x) http_env"
  assumes "always_challenges E resp" and "rc_auth (fst st) \<noteq> None"
  shows "challenge_loop E uri path body resp st = None"
proof (rule ccontr)
  assume "challenge_loop E uri path body resp st \<noteq> None"
  then obtain r where "challenge_loop E uri path body resp st = Some r" by blast
  then have "always_challenges E resp \<longrightarrow> rc_auth (fst st) \<noteq> None \<longrightarrow> False"
  proof (rule challenge_loop.raw_induct [rotated, where P = "\<lambda>E uri path body resp st r.
      always_challenges E resp \<longrightarrow> rc_auth (fst st) \<noteq> None \<longrightarrow> False"], goal_cases)
    case step: (1 loop E uri path body resp st r)
    show ?case
    proof (intro impI)
      assume ch: "always_challenges E resp" and "rc_auth (fst st) \<noteq> None"
      then obtain ai where ai: "rc_auth (fst st) = Some ai" by blast
      obtain h ai' where h: "authenticate_with_resp (he_md5 E) (he_fill E) (he_header_value E)
          (resp_www_authenticate resp) path ''POST'' ai = (Ok h, ai')" by (rule always_answered [OF ch])
      let ?st1 = "((fst st)\<lparr>rc_auth := Some ai'\<rparr>, snd st)"
      obtain w where send: "send_request E uri (Some h) body ?st1 = (Ok resp, (fst ?st1, w))"
        by (rule always_sends [OF ch])
      have "loop E uri path body resp (fst ?st1, w) = Some r"
        using step(2) ch by (simp add: always_challenges_def ai h send)
      from step(1) [OF this] ch show False by simp
    qed
  qed
  with assms show False by blast
qed

section \<open>Properties\<close>

text \<open>
  Fetching transactions asks for every hash exactly once and in order.  The loop over indices is the
  same as cutting the list of hashes into parts and fetching these one after the other; the parts put
  together are the list, and each has between 1 and 100 hashes.
\<close>

theorem transactions_fetched_in_chunks:
  "rpc_transactions_by_hashes E hs st = fetch_all E (chunks 100 hs) [] st
   \<and> concat (chunks 100 hs) = hs \<and> length ` set (chunks 100 hs) \<subseteq> {1..100}"
  using transactions_loop_chunks [of 0 hs E "[]" st] chunks_length [of 100 hs]
  by (simp add: rpc_transactions_by_hashes_def MAX_REQUESTED_TRANSACTIONS_def concat_chunks)


definition ex_refusal :: "unit http_response" where
  "ex_refusal = \<lparr>resp_status = 401, resp_www_authenticate = [Some ''Digest nonce=n''], resp_json = Ok JNull\<rparr>"

definition ex_env :: "(http_request \<Rightarrow> nat \<Rightarrow> unit http_response) \<Rightarrow> (nat, unit, unit) http_env" where
  "ex_env server = \<lparr>he_md5 = id, he_fill = (\<lambda>g. ([1], g)), he_header_value = Ok, he_path = Ok,
     he_send = (\<lambda>r w. (Ok (server r w), Suc w)), he_hex_decode = (\<lambda>s. Ok []),
     he_block = (\<lambda>_. Err ()), he_transaction = (\<lambda>_. Err ()), he_hash = (\<lambda>_. Err ())\<rparr>"

definition ex_client :: "unit rpc_client" where
  "ex_client = rpc_client_new () (\<lambda>_. ()) ''u/'' (Some ''me'') (Some ''pw'') None"

lemma ex_refusal_challenge:
  "(read_challenges (resp_www_authenticate ex_refusal) :: (_, unit auth_error) result)
     = Ok [\<lparr>realm = [], qop = [Auth], algorithm = Md5, nonce = ''n'', opaque = None\<rparr>]"
  by code_simp


text \<open>
  A challenge is answered once and the second response is the result.  The client sends the body
  again with an \<open>Authorization\<close> header for the challenge, made with nonce count 1, and keeps the
  challenge's parameters for later requests.
\<close>

theorem challenge_answered_once:
  assumes "rc_auth (fst st) = Some ai" and "challenged r1" and "\<not> challenged r2"
    and "authenticate_with_resp (he_md5 E) (he_fill E) (he_header_value E) (resp_www_authenticate r1) path ''POST'' ai = (Ok h, ai')"
    and "he_send E \<lparr>req_uri = uri, req_authorization = Some h, req_body = body\<rparr> (snd st) = (Ok r2, w)"
  shows "challenge_loop E uri path body r1 st = Some (resp_json r2, ((fst st)\<lparr>rc_auth := Some ai'\<rparr>, w))"
proof -
  have "challenge_loop E uri path body r1 st = challenge_loop E uri path body r2 ((fst st)\<lparr>rc_auth := Some ai'\<rparr>, w)"
    by (subst challenge_loop.simps) (simp add: assms send_request_def)
  also have "\<dots> = Some (resp_json r2, ((fst st)\<lparr>rc_auth := Some ai'\<rparr>, w))"
    by (subst challenge_loop.simps) (simp add: assms(3))
  finally show ?thesis .
qed

definition ex_accept :: "unit http_response" where
  "ex_accept = \<lparr>resp_status = 200, resp_www_authenticate = [], resp_json = Ok (JInt 7)\<rparr>"

theorem challenge_answered_once_witness:
  "\<exists>st'. challenge_loop (ex_env (\<lambda>_ _. ex_accept)) ''u'' ''/'' ''b'' ex_refusal (ex_client, 0) = Some (Ok (JInt 7), st')"
proof -
  obtain ai where ai: "rc_auth (fst (ex_client, 0 :: nat)) = Some ai" by (simp add: ex_client_def rpc_client_new_def)
  let ?E = "ex_env (\<lambda>_ _. ex_accept)"
  let ?run = "authenticate_with_resp (he_md5 ?E) (he_fill ?E) (he_header_value ?E) (resp_www_authenticate ex_refusal)
      ''/'' ''POST'' (the (rc_auth ex_client))"
  have "case fst ?run of Ok _ \<Rightarrow> True | _ \<Rightarrow> False" by code_simp
  then obtain h ai' where a: "?run = (Ok h, ai')" by (cases ?run) (auto split: result.splits)
  have "he_send ?E \<lparr>req_uri = ''u'', req_authorization = Some h, req_body = ''b''\<rparr> (snd (ex_client, 0)) = (Ok ex_accept, 1)"
    by (simp add: ex_env_def)
  from challenge_answered_once [OF ai _ _ a [unfolded fst_conv ai [unfolded fst_conv] option.sel] this]
  show ?thesis by (simp add: challenged_def ex_refusal_def ex_accept_def)
qed

end
