(* ===== verification/Invoice_Update.thy ===== *)
theory Invoice_Update
  imports Invoice
begin

text \<open>
  The closure of \<open>Scanner::update_invoices\<close> (\<open>library/src/scanner.rs\<close>): what one scan does to one stored
  invoice.  \<open>ts\<close> are the transfers the scan found, for all invoices; \<open>deepest_update\<close> is the height of
  the deepest block that changed; \<open>cache_height\<close> is the height of the block cache.
\<close>

section \<open>The closure\<close>

definition retain_transfers :: "u64 \<Rightarrow> transfer list \<Rightarrow> transfer list" where
  "retain_transfers deepest_update old =
     filter (\<lambda>t. cmp_by_height t (Transfer 0 (Some deepest_update)) = Less) old"

definition matching :: "invoice \<Rightarrow> (sub_index \<times> transfer) list \<Rightarrow> transfer list" where
  "matching v ts =
     map snd (filter (\<lambda>(idx, t). idx = index v \<and>
       cmp_by_height t (Transfer 0 (Some (creation_height v - 1))) = Greater) ts)"

text \<open>Adding up the transfers, after \<open>amount_paid\<close> and \<open>paid_height\<close> were zeroed.\<close>

fun tally :: "transfer list \<Rightarrow> invoice \<Rightarrow> invoice" where
  "tally [] v = v"
| "tally (t # ts) v =
     (let v1 = v\<lparr>amount_paid := amount_paid v + amount t\<rparr>
      in tally ts (if amount_requested v1 \<le> amount_paid v1 \<and> paid_height v1 = None
                   then v1\<lparr>paid_height := height t\<rparr> else v1))"

definition new_invoice_state :: "(sub_index \<times> transfer) list \<Rightarrow> u64 \<Rightarrow> u64 \<Rightarrow> invoice \<Rightarrow> invoice" where
  "new_invoice_state ts deepest_update cache_height old =
     old\<lparr>transfers := retain_transfers deepest_update (transfers old) @ matching old ts,
         current_height := cache_height + 1\<rparr>"

text \<open>\<open>None\<close> when nothing changed, so that the invoice is not written back.\<close>

definition update_one ::
  "(sub_index \<times> transfer) list \<Rightarrow> u64 \<Rightarrow> u64 \<Rightarrow> invoice \<Rightarrow> invoice option" where
  "update_one ts deepest_update cache_height old =
     (let v = new_invoice_state ts deepest_update cache_height old
      in if invoice_eq v old then None
         else Some (tally (transfers v) (v\<lparr>paid_height := None, amount_paid := 0\<rparr>)))"

definition update_closure ::
  "(sub_index \<times> transfer) list \<Rightarrow> u64 \<Rightarrow> u64 \<Rightarrow> (invoice, 'e) result \<Rightarrow> invoice list
     \<Rightarrow> (unit, 'e) result \<times> invoice list" where
  "update_closure ts deepest_update cache_height invoice_or_err updated =
     (case invoice_or_err of
        Ok old \<Rightarrow>
          (case update_one ts deepest_update cache_height old of
             Some v \<Rightarrow> (Ok (), updated @ [v])
           | None \<Rightarrow> (Ok (), updated))
      | Err e \<Rightarrow> (Ok (), updated)
      | Panic \<Rightarrow> (Panic, updated))"

text \<open>The invoice as it is after the scan, written back or not.\<close>

definition refresh :: "(sub_index \<times> transfer) list \<Rightarrow> u64 \<Rightarrow> u64 \<Rightarrow> invoice \<Rightarrow> invoice" where
  "refresh ts deepest_update cache_height old =
     (case update_one ts deepest_update cache_height old of Some v \<Rightarrow> v | None \<Rightarrow> old)"

section \<open>Adding up\<close>

lemma tally_frame [simp]:
  "transfers (tally ts v) = transfers v" "index (tally ts v) = index v"
  "creation_height (tally ts v) = creation_height v" "address (tally ts v) = address v"
  "amount_requested (tally ts v) = amount_requested v" "current_height (tally ts v) = current_height v"
  "confirmations_required (tally ts v) = confirmations_required v"
  "expiration_height (tally ts v) = expiration_height v" "description (tally ts v) = description v"
  by (induction ts arbitrary: v) (simp_all add: Let_def)

lemma tally_amount: "amount_paid (tally ts v) = amount_paid v + sum_list (map amount ts)"
  by (induction ts arbitrary: v) (auto simp: Let_def algebra_simps)

text \<open>Amounts as natural numbers, where no sum overflows.\<close>

definition total :: "transfer list \<Rightarrow> nat" where
  "total ts = sum_list (map (\<lambda>t. unat (amount t)) ts)"

lemma total_simps [simp]:
  "total [] = 0" "total (t # ts) = unat (amount t) + total ts" "total (xs @ ys) = total xs + total ys"
  by (simp_all add: total_def)

lemma total_mset: "mset xs = mset ys \<Longrightarrow> total xs = total ys"
  unfolding total_def by (metis mset_map sum_mset_sum_list)

lemma unat_sum_amounts: "total ts < 2 ^ 64 \<Longrightarrow> unat (sum_list (map amount ts)) = total ts"
proof (induction ts)
  case (Cons t ts)
  then have "unat (amount t + sum_list (map amount ts)) = unat (amount t) + unat (sum_list (map amount ts))"
    by (subst unat_add_lem [THEN iffD1]) auto
  with Cons show ?case by simp
qed simp

text \<open>The height of the first transfer, in list order, at which the running total reaches \<open>req\<close>.\<close>

fun reached_at :: "nat \<Rightarrow> nat \<Rightarrow> transfer list \<Rightarrow> u64 option" where
  "reached_at req acc [] = None"
| "reached_at req acc (t # ts) =
     (if req \<le> acc + unat (amount t) then height t else reached_at req (acc + unat (amount t)) ts)"

lemma tally_paid_Some: "paid_height v = Some h \<Longrightarrow> paid_height (tally ts v) = Some h"
  by (induction ts arbitrary: v) (simp_all add: Let_def)

lemma tally_paid_pool:
  "paid_height v = None \<Longrightarrow> \<forall>t \<in> set ts. height t = None \<Longrightarrow> paid_height (tally ts v) = None"
  by (induction ts arbitrary: v) (simp_all add: Let_def)

lemma height_ordered_Cons:
  "height_ordered (t # ts) \<longleftrightarrow> height_ordered ts \<and> (\<forall>x \<in> set ts. cmp_by_height t x \<noteq> Greater)"
  by (auto simp: height_ordered_def)

lemma after_pool_only_pool: "height_ordered (t # ts) \<Longrightarrow> height t = None \<Longrightarrow> \<forall>x \<in> set ts. height x = None"
  by (auto simp: height_ordered_Cons cmp_by_height_def split: option.splits)

lemma tally_paid:
  "height_ordered ts \<Longrightarrow> unat (amount_paid v) + total ts < 2 ^ 64 \<Longrightarrow> paid_height v = None \<Longrightarrow>
     paid_height (tally ts v) = reached_at (unat (amount_requested v)) (unat (amount_paid v)) ts"
proof (induction ts arbitrary: v)
  case (Cons t ts)
  let ?v = "v\<lparr>amount_paid := amount_paid v + amount t\<rparr>"
  have add: "unat (amount_paid v + amount t) = unat (amount_paid v) + unat (amount t)"
    using Cons.prems(2) by (subst unat_add_lem [THEN iffD1]) auto
  have reached: "amount_requested v \<le> amount_paid v + amount t \<longleftrightarrow>
      unat (amount_requested v) \<le> unat (amount_paid v) + unat (amount t)"
    by (simp add: word_le_nat_alt add)
  show ?case
  proof (cases "amount_requested v \<le> amount_paid v + amount t")
    case True
    have "paid_height (tally ts (?v\<lparr>paid_height := height t\<rparr>)) = height t"
    proof (cases "height t")
      case None
      then show ?thesis using after_pool_only_pool [OF Cons.prems(1)] by (simp add: tally_paid_pool)
    qed (simp add: tally_paid_Some)
    with True Cons.prems(3) reached show ?thesis by (simp add: Let_def)
  next
    case False
    have "paid_height (tally ts ?v) = reached_at (unat (amount_requested v)) (unat (amount_paid ?v)) ts"
      using Cons.IH [of ?v] Cons.prems by (simp add: height_ordered_Cons add)
    with False reached show ?thesis by (simp add: Let_def add)
  qed
qed simp

subsection \<open>The paid height does not depend on the order within a height\<close>

definition before :: "u64 \<Rightarrow> transfer \<Rightarrow> bool" where
  "before h t \<longleftrightarrow> (\<exists>g. height t = Some g \<and> g < h)"

definition upto :: "u64 \<Rightarrow> transfer \<Rightarrow> bool" where
  "upto h t \<longleftrightarrow> (\<exists>g. height t = Some g \<and> g \<le> h)"

definition confirmed :: "transfer \<Rightarrow> bool" where
  "confirmed t \<longleftrightarrow> height t \<noteq> None"

definition reached_cond :: "nat \<Rightarrow> transfer list \<Rightarrow> u64 \<Rightarrow> bool" where
  "reached_cond req ts h \<longleftrightarrow> (\<exists>t \<in> set ts. height t = Some h) \<and> req \<le> total (filter (upto h) ts)
     \<and> (filter (before h) ts = [] \<or> total (filter (before h) ts) < req)"

lemma total_filter_le: "total (filter P ts) \<le> total ts"
  by (induction ts) auto

lemma total_filter_mono: "(\<And>t. P t \<Longrightarrow> Q t) \<Longrightarrow> total (filter P ts) \<le> total (filter Q ts)"
  by (induction ts) (auto simp: trans_le_add2)

lemma reached_at_Some:
  "height_ordered (pre @ ts) \<Longrightarrow> pre = [] \<or> total pre < req \<Longrightarrow> reached_at req (total pre) ts = Some h \<Longrightarrow>
     reached_cond req (pre @ ts) h"
proof (induction ts arbitrary: pre)
  case (Cons t ts)
  show ?case
  proof (cases "req \<le> total pre + unat (amount t)")
    case True
    with Cons.prems(3) have t: "height t = Some h" by simp
    have pre: "upto h x" if "x \<in> set pre" for x
    proof -
      have "cmp_by_height x t \<noteq> Greater" using Cons.prems(1) that by (auto simp: height_ordered_append)
      with t show ?thesis by (auto simp: cmp_by_height_def upto_def split: option.splits)
    qed
    have post: "\<not> before h x" if "x \<in> set (t # ts)" for x
      using Cons.prems(1) that t
      by (auto simp: height_ordered_append height_ordered_Cons cmp_by_height_def before_def
          split: option.splits)
    have "filter (upto h) (pre @ t # ts) = pre @ t # filter (upto h) ts"
      using pre t by (simp add: filter_id_conv upto_def)
    moreover have "filter (before h) (pre @ t # ts) = filter (before h) pre"
      using post by (simp add: filter_empty_conv)
    ultimately show ?thesis
      using True t Cons.prems(2) total_filter_le [of "before h" pre]
      by (auto simp: reached_cond_def)
  next
    case False
    with Cons.IH [of "pre @ [t]"] Cons.prems show ?thesis by simp
  qed
qed simp

lemma reached_at_None:
  "height_ordered (pre @ ts) \<Longrightarrow> pre = [] \<or> total pre < req \<Longrightarrow> reached_at req (total pre) ts = None \<Longrightarrow>
     filter confirmed (pre @ ts) = [] \<or> total (filter confirmed (pre @ ts)) < req"
proof (induction ts arbitrary: pre)
  case Nil
  then show ?case using total_filter_le [of confirmed pre] by auto
next
  case (Cons t ts)
  show ?case
  proof (cases "req \<le> total pre + unat (amount t)")
    case True
    with Cons.prems(3) have "height t = None" by simp
    then have "\<forall>x \<in> set (t # ts). \<not> confirmed x"
      using after_pool_only_pool Cons.prems(1) by (auto simp: height_ordered_append confirmed_def)
    then have "filter confirmed (pre @ t # ts) = filter confirmed pre" by (simp add: filter_empty_conv)
    with Cons.prems(2) total_filter_le [of confirmed pre] show ?thesis by auto
  next
    case False
    with Cons.IH [of "pre @ [t]"] Cons.prems show ?thesis by simp
  qed
qed

lemma reached_cond_unique:
  assumes "reached_cond req ts h" and "reached_cond req ts h'"
  shows "h = h'"
proof -
  have "\<not> h < h'" if c: "reached_cond req ts h" "reached_cond req ts h'" for h h'
  proof
    assume lt: "h < h'"
    have "total (filter (upto h) ts) \<le> total (filter (before h') ts)"
      by (rule total_filter_mono) (use lt in \<open>auto simp: upto_def before_def\<close>)
    moreover have "filter (before h') ts \<noteq> []"
      using c(1) lt by (force simp: reached_cond_def before_def filter_empty_conv)
    ultimately show False using c by (simp add: reached_cond_def)
  qed
  with assms show ?thesis by (metis linorder_neqE)
qed

lemma reached_cond_confirmed:
  "reached_cond req ts h \<Longrightarrow> filter confirmed ts \<noteq> [] \<and> req \<le> total (filter confirmed ts)"
proof -
  assume c: "reached_cond req ts h"
  have "total (filter (upto h) ts) \<le> total (filter confirmed ts)"
    by (rule total_filter_mono) (auto simp: upto_def confirmed_def)
  with c show ?thesis by (auto simp: reached_cond_def confirmed_def filter_empty_conv)
qed

lemma reached_cond_mset: "mset ts = mset ts' \<Longrightarrow> reached_cond req ts h \<longleftrightarrow> reached_cond req ts' h"
proof -
  assume eq: "mset ts = mset ts'"
  have "mset (filter P ts) = mset (filter P ts')" for P using eq by simp
  then have "total (filter P ts) = total (filter P ts')" "filter P ts = [] \<longleftrightarrow> filter P ts' = []" for P
    by (metis total_mset, metis mset_zero_iff)
  moreover have "set ts = set ts'" using eq by (metis set_mset_mset)
  ultimately show ?thesis by (simp add: reached_cond_def)
qed

lemma reached_at_mset:
  assumes "mset ts = mset ts'" and "height_ordered ts" and "height_ordered ts'"
  shows "reached_at req 0 ts = reached_at req 0 ts'"
proof -
  have some: "reached_at req 0 xs = Some h \<Longrightarrow> height_ordered xs \<Longrightarrow> reached_cond req xs h" for xs h
    using reached_at_Some [of "[]" xs req h] by simp
  have none: "\<not> reached_cond req xs h" if "reached_at req 0 xs = None" "height_ordered xs" for xs h
    using reached_at_None [of "[]" xs req] reached_cond_confirmed [of req xs h] that by force
  show ?thesis
  proof (cases "reached_at req 0 ts")
    case None
    then show ?thesis
      using assms none some [of ts'] reached_cond_mset [OF assms(1)] by (cases "reached_at req 0 ts'") auto
  next
    case (Some h)
    then have c: "reached_cond req ts' h"
      using some [OF Some assms(2)] reached_cond_mset [OF assms(1)] by simp
    with none [OF _ assms(3)] obtain h' where h': "reached_at req 0 ts' = Some h'" by blast
    show ?thesis using reached_cond_unique [OF c some [OF h' assms(3)]] Some h' by simp
  qed
qed

section \<open>One scan of one invoice\<close>

lemma invoice_eq_mset: "invoice_eq a b \<Longrightarrow> mset (transfers a) = mset (transfers b)"
  by (simp add: invoice_eq_def hash_map_eq_count)

lemma refresh_cases:
  obtains (same) "invoice_eq (new_invoice_state ts d H v) v" and "refresh ts d H v = v"
  | (changed) "refresh ts d H v = tally (transfers (new_invoice_state ts d H v))
        ((new_invoice_state ts d H v)\<lparr>paid_height := None, amount_paid := 0\<rparr>)"
  by (cases "invoice_eq (new_invoice_state ts d H v) v") (auto simp: refresh_def update_one_def Let_def)

lemma refresh_frame:
  "index (refresh ts d H v) = index v \<and> creation_height (refresh ts d H v) = creation_height v
   \<and> amount_requested (refresh ts d H v) = amount_requested v \<and> address (refresh ts d H v) = address v
   \<and> confirmations_required (refresh ts d H v) = confirmations_required v
   \<and> expiration_height (refresh ts d H v) = expiration_height v
   \<and> description (refresh ts d H v) = description v
   \<and> current_height (refresh ts d H v) = H + 1
   \<and> mset (transfers (refresh ts d H v)) = mset (retain_transfers d (transfers v)) + mset (matching v ts)"
proof (cases rule: refresh_cases [of ts d H v])
  case same
  from same(1) have "current_height v = H + 1" by (simp add: invoice_eq_def new_invoice_state_def)
  moreover have "mset (transfers v) = mset (retain_transfers d (transfers v)) + mset (matching v ts)"
    using invoice_eq_mset [OF same(1)] by (simp add: new_invoice_state_def)
  ultimately show ?thesis using same(2) by metis
next
  case changed
  then show ?thesis by (simp add: new_invoice_state_def)
qed

lemma ident_refresh [simp]: "invoice_ident (refresh ts d H v) = invoice_ident v"
  using refresh_frame [of ts d H v] by (simp add: invoice_ident_def)

text \<open>
  A scan's result for a deepest update at height \<open>d\<close>: transfers of the changed blocks, oldest first,
  then those of the pool.
\<close>

definition scan_result :: "u64 \<Rightarrow> (sub_index \<times> transfer) list \<Rightarrow> bool" where
  "scan_result d ts \<longleftrightarrow> height_ordered (map snd ts)
     \<and> (\<forall>p \<in> set ts. cmp_by_height (snd p) (Transfer 0 (Some d)) \<noteq> Less)"

text \<open>An invoice whose totals are those of its transfers.\<close>

definition books_ok :: "invoice \<Rightarrow> bool" where
  "books_ok v \<longleftrightarrow> height_ordered (transfers v) \<and> total (transfers v) < 2 ^ 64
     \<and> unat (amount_paid v) = total (transfers v)
     \<and> paid_height v = reached_at (unat (amount_requested v)) 0 (transfers v)"

lemma height_ordered_map_snd_filter:
  "height_ordered (map snd ts) \<Longrightarrow> height_ordered (map snd (filter P ts))"
  by (auto simp: height_ordered_def sorted_wrt_map intro: sorted_wrt_filter)

lemma new_state_ordered:
  assumes "height_ordered (transfers v)" and "scan_result d ts"
  shows "height_ordered (transfers (new_invoice_state ts d H v))"
proof -
  have "height_ordered (matching v ts)"
    unfolding matching_def using assms(2) by (simp add: scan_result_def height_ordered_map_snd_filter)
  moreover have "cmp_by_height x y \<noteq> Greater"
    if x: "x \<in> set (retain_transfers d (transfers v))" and y: "y \<in> set (matching v ts)" for x y
  proof -
    obtain g where g: "height x = Some g" "g < d"
      using x by (auto simp: retain_transfers_def cmp_by_height_Less_Some)
    have "\<not> (\<exists>h. height y = Some h \<and> h < d)"
      using y assms(2) by (force simp: matching_def scan_result_def cmp_by_height_Less_Some)
    with g show ?thesis by (auto simp: cmp_by_height_def split: option.splits)
  qed
  ultimately show ?thesis
    using assms(1)
    by (simp add: new_invoice_state_def height_ordered_append retain_transfers_def height_ordered_filter)
qed

lemma refresh_books:
  assumes "books_ok v" and "scan_result d ts"
    and "total (retain_transfers d (transfers v)) + total (matching v ts) < 2 ^ 64"
  shows "books_ok (refresh ts d H v)"
proof (cases rule: refresh_cases [of ts d H v])
  case same
  with assms(1) show ?thesis by simp
next
  case changed
  let ?ts = "transfers (new_invoice_state ts d H v)"
  have ts: "?ts = retain_transfers d (transfers v) @ matching v ts" by (simp add: new_invoice_state_def)
  have ord: "height_ordered ?ts"
    using assms(1,2) by (intro new_state_ordered) (simp_all add: books_ok_def)
  have lim: "total ?ts < 2 ^ 64" using assms(3) by (simp add: ts)
  have "unat (amount_paid (refresh ts d H v)) = total ?ts"
    using unat_sum_amounts [OF lim] by (simp add: changed tally_amount)
  moreover have "paid_height (refresh ts d H v) = reached_at (unat (amount_requested v)) 0 ?ts"
    using tally_paid [OF ord, of "(new_invoice_state ts d H v)\<lparr>paid_height := None, amount_paid := 0\<rparr>"] lim
    by (simp add: changed new_invoice_state_def)
  moreover have "transfers (refresh ts d H v) = ?ts" "amount_requested (refresh ts d H v) = amount_requested v"
    by (simp_all add: changed new_invoice_state_def)
  ultimately show ?thesis using ord lim by (simp add: books_ok_def)
qed

lemma mset_matching:
  "mset (matching v ts) = image_mset snd (filter_mset (\<lambda>(idx, t). idx = index v \<and>
     cmp_by_height t (Transfer 0 (Some (creation_height v - 1))) = Greater) (mset ts))"
  by (simp add: matching_def)

abbreviation below :: "u64 \<Rightarrow> transfer \<Rightarrow> bool" where
  "below d t \<equiv> cmp_by_height t (Transfer 0 (Some d)) = Less"

lemma retain_matching:
  assumes "mset old = mset (matching v L)"
  shows "mset (retain_transfers d old) = mset (matching v (filter (\<lambda>p. below d (snd p)) L))"
proof -
  have "mset (retain_transfers d old) = filter_mset (below d) (mset (matching v L))"
    using assms by (simp add: retain_transfers_def)
  also have "\<dots> = mset (matching v (filter (\<lambda>p. below d (snd p)) L))"
    unfolding mset_matching by (induction L) auto
  finally show ?thesis .
qed

section \<open>Properties\<close>

text \<open>
  A scan keeps an invoice's books: if \<open>amount_paid\<close> is the sum of the recorded transfers and
  \<open>paid_height\<close> the first height at which they reach the requested amount, this is so after the scan;
  in particular \<open>paid_height\<close> is \<open>Some h\<close> exactly when the transfers of height up to \<open>h\<close> reach the
  amount and those before \<open>h\<close> do not.  No sum may exceed 64 bits.
\<close>

theorem scan_keeps_books:
  assumes "books_ok v" and "scan_result d ts"
    and "total (retain_transfers d (transfers v)) + total (matching v ts) < 2 ^ 64"
  shows "books_ok (refresh ts d H v)
    \<and> unat (amount_paid (refresh ts d H v)) = total (transfers (refresh ts d H v))
    \<and> (paid_height (refresh ts d H v) = Some h \<longleftrightarrow>
         reached_cond (unat (amount_requested v)) (transfers (refresh ts d H v)) h)"
proof -
  let ?v = "refresh ts d H v" and ?req = "unat (amount_requested v)"
  have ok: "books_ok ?v" by (rule refresh_books [OF assms])
  then have ord: "height_ordered (transfers ?v)" and ph: "paid_height ?v = reached_at ?req 0 (transfers ?v)"
    using refresh_frame [of ts d H v] by (simp_all add: books_ok_def)
  have "reached_at ?req 0 (transfers ?v) = Some h" if c: "reached_cond ?req (transfers ?v) h"
  proof (cases "reached_at ?req 0 (transfers ?v)")
    case None
    then show ?thesis
      using reached_at_None [of "[]" "transfers ?v" ?req] ord reached_cond_confirmed [OF c] by force
  next
    case (Some h')
    then show ?thesis
      using reached_at_Some [of "[]" "transfers ?v" ?req h'] ord reached_cond_unique [OF c] by simp
  qed
  moreover have "reached_cond ?req (transfers ?v) h" if "reached_at ?req 0 (transfers ?v) = Some h"
    using reached_at_Some [of "[]" "transfers ?v" ?req h] ord that by simp
  ultimately show ?thesis using ok ph by (auto simp: books_ok_def)
qed

definition ex_invoice :: invoice where
  "ex_invoice = (invoice_new ''a'' (SubIndex 0 1) 3 10 2 20 ''d'')
     \<lparr>transfers := [Transfer 4 (Some 5)], amount_paid := 4, current_height := 6\<rparr>"

theorem scan_keeps_books_witness:
  "paid_height (refresh [(SubIndex 0 1, Transfer 6 (Some 7)), (SubIndex 0 1, Transfer 9 None)] 6 7 ex_invoice)
     = Some 7"
proof -
  let ?ts = "[(SubIndex 0 1, Transfer 6 (Some 7)), (SubIndex 0 1, Transfer 9 None)]"
  note defs = ex_invoice_def invoice_new_def
  have ok: "books_ok ex_invoice" by (simp add: books_ok_def defs height_ordered_def)
  have ts: "scan_result 6 ?ts"
    by (simp add: scan_result_def height_ordered_def cmp_by_height_def cmp_def)
  have m: "matching ex_invoice ?ts = [Transfer 6 (Some 7), Transfer 9 None]"
    by (simp add: matching_def defs cmp_by_height_def cmp_def)
  have r: "retain_transfers 6 (transfers ex_invoice) = [Transfer 4 (Some 5)]"
    by (simp add: retain_transfers_def defs cmp_by_height_def cmp_def)
  have "total (retain_transfers 6 (transfers ex_invoice)) + total (matching ex_invoice ?ts) < 2 ^ 64"
    by (simp add: m r)
  from scan_keeps_books [OF ok ts this, of 7 7] show ?thesis
    by (simp add: refresh_def update_one_def new_invoice_state_def Let_def m r invoice_eq_def Let_def)
      (simp add: defs)
qed



text \<open>
  The order in which the found transfers are listed within one height or within the pool does not
  matter: two results with the same transfers give the same recorded transfers (as a multiset), the
  same amount paid and the same paid height.  The pool's transfers come out of a \<open>HashMap\<close>, whose order
  is random.
\<close>

theorem scan_order_irrelevant:
  assumes "books_ok v" and "scan_result d ts" and "scan_result d ts'" and "mset ts = mset ts'"
    and "total (retain_transfers d (transfers v)) + total (matching v ts) < 2 ^ 64"
  shows "mset (transfers (refresh ts d H v)) = mset (transfers (refresh ts' d H v))
    \<and> amount_paid (refresh ts d H v) = amount_paid (refresh ts' d H v)
    \<and> paid_height (refresh ts d H v) = paid_height (refresh ts' d H v)"
proof -
  let ?a = "refresh ts d H v" and ?b = "refresh ts' d H v"
  have m: "mset (matching v ts) = mset (matching v ts')" unfolding mset_matching using assms(4) by simp
  have eq: "mset (transfers ?a) = mset (transfers ?b)"
    using refresh_frame [of ts d H v] refresh_frame [of ts' d H v] m by simp
  have a: "books_ok ?a" by (rule refresh_books [OF assms(1,2,5)])
  have b: "books_ok ?b" using assms(5) total_mset [OF m] by (intro refresh_books [OF assms(1,3)]) simp
  have "unat (amount_paid ?a) = unat (amount_paid ?b)"
    using a b total_mset [OF eq] by (simp add: books_ok_def)
  then have "amount_paid ?a = amount_paid ?b" by (rule unsigned_word_eqI)
  moreover have "paid_height ?a = paid_height ?b"
    using a b reached_at_mset [OF eq] refresh_frame [of ts d H v] refresh_frame [of ts' d H v]
    by (simp add: books_ok_def)
  ultimately show ?thesis using eq by simp
qed

theorem scan_order_irrelevant_witness:
  "paid_height (refresh [(SubIndex 0 1, Transfer 1 None), (SubIndex 0 1, Transfer 9 None)] 6 7 ex_invoice)
   = paid_height (refresh [(SubIndex 0 1, Transfer 9 None), (SubIndex 0 1, Transfer 1 None)] 6 7 ex_invoice)"
proof -
  let ?p = "(SubIndex 0 1, Transfer 1 None)" and ?q = "(SubIndex 0 1, Transfer 9 None)"
  note defs = ex_invoice_def invoice_new_def
  have ok: "books_ok ex_invoice" by (simp add: books_ok_def defs height_ordered_def)
  have ts: "scan_result 6 [?p, ?q]" "scan_result 6 [?q, ?p]"
    by (simp_all add: scan_result_def height_ordered_def cmp_by_height_def)
  have "total (retain_transfers 6 (transfers ex_invoice)) + total (matching ex_invoice [?p, ?q]) < 2 ^ 64"
    by (simp add: retain_transfers_def matching_def defs cmp_by_height_def cmp_def)
  from scan_order_irrelevant [OF ok ts _ this, of 7] show ?thesis by simp
qed

end
