(* ===== verification/Block_Cache.thy ===== *)
theory Block_Cache
  imports Daemon
begin

text \<open>
  \<open>library/src/caching/block_cache.rs\<close>: the most recent blocks, newest first, followed block by block
  and repaired when the chain is reorganised.
\<close>

section \<open>The cache and its operations\<close>

record block =
  block_hash :: hash
  block_height :: u64
  inner :: mblock
  block_txs :: "transaction list"

record block_cache =
  bc_height :: u64
  bc_daemon_height :: u64
  bc_blocks :: "block list"

datatype 'r block_cache_error = BlockCacheRpc 'r

text \<open>The two requests made for every cached block: the block and its transactions.\<close>

definition fetch_block ::
  "('w, 'r) monerod \<Rightarrow> u64 \<Rightarrow> 'w \<Rightarrow> (block, 'r block_cache_error) result \<times> 'w" where
  "fetch_block D h w =
     map_err_st BlockCacheRpc
       (try_st (md_block D h w) (\<lambda>(block_id, blk) w'.
          try_st (md_block_transactions D blk w') (\<lambda>txs w''.
            (Ok \<lparr>block_hash = block_id, block_height = h, inner = blk, block_txs = txs\<rparr>, w''))))"

text \<open>\<open>init\<close>: \<open>n\<close> blocks are left to fetch, the next at depth \<open>i\<close>.\<close>

fun init_loop ::
  "('w, 'r) monerod \<Rightarrow> u64 \<Rightarrow> nat \<Rightarrow> nat \<Rightarrow> block list \<Rightarrow> 'w
     \<Rightarrow> (block list, 'r block_cache_error) result \<times> 'w" where
  "init_loop D initial_height i 0 blocks w = (Ok blocks, w)"
| "init_loop D initial_height i (Suc n) blocks w =
     try_st (fetch_block D (initial_height - of_nat i) w) (\<lambda>b w'.
       init_loop D initial_height (Suc i) n (blocks @ [b]) w')"

definition block_cache_init ::
  "('w, 'r) monerod \<Rightarrow> nat \<Rightarrow> u64 \<Rightarrow> u64 \<Rightarrow> 'w \<Rightarrow> (block_cache, 'r block_cache_error) result \<times> 'w" where
  "block_cache_init D cache_size initial_height daemon_h w =
     try_st (init_loop D initial_height 0 cache_size [] w) (\<lambda>blocks w'.
       (Ok \<lparr>bc_height = initial_height, bc_daemon_height = daemon_h, bc_blocks = blocks\<rparr>, w'))"

text \<open>
  The loop of \<open>check_and_fix_reorg\<close> at index \<open>i\<close>, with \<open>n\<close> rounds left.  The cache is changed in
  place: when a request fails, the blocks replaced so far stay replaced.
\<close>

fun fix_loop ::
  "('w, 'r) monerod \<Rightarrow> u64 \<Rightarrow> nat \<Rightarrow> nat \<Rightarrow> nat \<Rightarrow> block_cache \<times> 'w
     \<Rightarrow> (nat, 'r block_cache_error) result \<times> (block_cache \<times> 'w)" where
  "fix_loop D cache_height i 0 updated s = (Ok updated, s)"
| "fix_loop D cache_height i (Suc n) updated s =
     (if prev_id (inner (bc_blocks (fst s) ! i)) \<noteq> block_hash (bc_blocks (fst s) ! (i + 1)) then
        try_st (on_world (fetch_block D (cache_height - 1 - of_nat i)) s) (\<lambda>b (self, w).
          fix_loop D cache_height (i + 1) n (max updated 1 + 1)
            (self\<lparr>bc_blocks := (bc_blocks self)[i + 1 := b]\<rparr>, w))
      else fix_loop D cache_height (i + 1) n updated s)"

definition check_and_fix_reorg ::
  "('w, 'r) monerod \<Rightarrow> block_cache \<times> 'w \<Rightarrow> (nat, 'r block_cache_error) result \<times> (block_cache \<times> 'w)"
  where
  "check_and_fix_reorg D s =
     (if bc_blocks (fst s) = [] then (Panic, s)
      else fix_loop D (bc_height (fst s)) 0 (length (bc_blocks (fst s)) - 1) 0 s)"

text \<open>The part of \<open>update\<close> that advances the cache by one block; it returns \<open>updated\<close>.\<close>

definition advance ::
  "('w, 'r) monerod \<Rightarrow> u64 \<Rightarrow> block_cache \<times> 'w \<Rightarrow> (nat, 'r block_cache_error) result \<times> (block_cache \<times> 'w)"
  where
  "advance D blockchain_height s =
     (if bc_height (fst s) < saturating_sub blockchain_height 1 then
        try_st (on_world (fetch_block D (bc_height (fst s) + 1)) s) (\<lambda>b (self, w).
          (Ok 1, (self\<lparr>bc_blocks := butlast (b # bc_blocks self), bc_height := bc_height self + 1\<rparr>, w)))
      else (Ok 0, s))"

definition block_cache_update ::
  "('w, 'r) monerod \<Rightarrow> block_cache \<times> 'w \<Rightarrow> (nat, 'r block_cache_error) result \<times> (block_cache \<times> 'w)"
  where
  "block_cache_update D s =
     try_st (map_err_st BlockCacheRpc (on_world (md_daemon_height D) s)) (\<lambda>blockchain_height (self, w).
       try_st (advance D blockchain_height (self\<lparr>bc_daemon_height := blockchain_height\<rparr>, w)) (\<lambda>updated s'.
         try_st (check_and_fix_reorg D s') (\<lambda>fixed s''. (Ok (max updated fixed), s''))))"

definition is_synchronized :: "block_cache \<Rightarrow> bool" where
  "is_synchronized self \<longleftrightarrow> saturating_sub (bc_daemon_height self) 1 \<le> bc_height self"

section \<open>The invariant: one block per height\<close>

fun descending :: "u64 \<Rightarrow> block list \<Rightarrow> bool" where
  "descending h [] = True"
| "descending h (b # bs) \<longleftrightarrow> block_height b = h \<and> descending (h - 1) bs"

definition bc_wf :: "nat \<Rightarrow> block_cache \<Rightarrow> bool" where
  "bc_wf n c \<longleftrightarrow> length (bc_blocks c) = n \<and> descending (bc_height c) (bc_blocks c)"

lemma descending_append:
  "descending h (xs @ ys) \<longleftrightarrow> descending h xs \<and> descending (h - of_nat (length xs)) ys"
  by (induction xs arbitrary: h) (auto simp: algebra_simps)

lemma descending_nth: "descending h bs \<Longrightarrow> i < length bs \<Longrightarrow> block_height (bs ! i) = h - of_nat i"
proof (induction bs arbitrary: h i)
  case (Cons b bs)
  then show ?case by (cases i) (auto simp: algebra_simps)
qed simp

lemma descending_butlast: "descending h bs \<Longrightarrow> descending h (butlast bs)"
  by (induction bs arbitrary: h) auto

lemma descending_update:
  "descending h bs \<Longrightarrow> block_height b = h - of_nat i \<Longrightarrow> descending h (bs[i := b])"
proof (induction bs arbitrary: h i)
  case (Cons c bs)
  then show ?case by (cases i) (auto simp: algebra_simps)
qed simp

lemma fetch_block_height: "fetch_block D h w = (Ok b, w') \<Longrightarrow> block_height b = h"
  by (auto simp: fetch_block_def try_st_eq_Ok)

lemma init_loop_Ok:
  "init_loop D H i n bs w = (Ok blocks, w') \<Longrightarrow> descending H bs \<Longrightarrow> length bs = i \<Longrightarrow>
     descending H blocks \<and> length blocks = i + n"
proof (induction n arbitrary: i bs w)
  case (Suc n)
  then obtain b w1 where b: "fetch_block D (H - of_nat i) w = (Ok b, w1)"
    and rest: "init_loop D H (Suc i) n (bs @ [b]) w1 = (Ok blocks, w')"
    by (auto simp: try_st_eq_Ok)
  show ?case
    using Suc.IH [OF rest] Suc.prems fetch_block_height [OF b] by (simp add: descending_append)
qed simp

lemma init_wf: "block_cache_init D n H dh w = (Ok c, w') \<Longrightarrow> bc_wf n c \<and> bc_height c = H"
  by (auto simp: block_cache_init_def try_st_eq_Ok bc_wf_def dest: init_loop_Ok)

lemma fix_loop_wf:
  "bc_wf m (fst s) \<Longrightarrow> bc_height (fst s) = H \<Longrightarrow>
     bc_wf m (fst (snd (fix_loop D H i n updated s)))
     \<and> bc_height (fst (snd (fix_loop D H i n updated s))) = H"
proof (induction n arbitrary: i updated s)
  case (Suc n)
  let ?P = "\<lambda>s. bc_wf m (fst s) \<and> bc_height (fst s) = H"
  have "?P (snd (fix_loop D H i (Suc n) updated s))"
  proof (cases "prev_id (inner (bc_blocks (fst s) ! i)) \<noteq> block_hash (bc_blocks (fst s) ! (i + 1))")
    case True
    have "?P (snd (try_st (on_world (fetch_block D (H - 1 - of_nat i)) s) (\<lambda>b (self, w).
        fix_loop D H (i + 1) n (max updated 1 + 1) (self\<lparr>bc_blocks := (bc_blocks self)[i + 1 := b]\<rparr>, w))))"
    proof (rule try_st_snd)
      show "?P (snd (on_world (fetch_block D (H - 1 - of_nat i)) s))" using Suc.prems by simp
    next
      fix b s' assume ok: "on_world (fetch_block D (H - 1 - of_nat i)) s = (Ok b, s')" and P: "?P s'"
      obtain self w where s': "s' = (self, w)" by force
      have "block_height b = H - of_nat (i + 1)"
        using ok fetch_block_height by (force simp: on_world_Ok algebra_simps)
      then have "bc_wf m (self\<lparr>bc_blocks := (bc_blocks self)[i + 1 := b]\<rparr>)"
        using P descending_update [of H "bc_blocks self" b "i + 1"] by (auto simp: bc_wf_def s')
      then show "?P (snd (case s' of (self, w) \<Rightarrow> fix_loop D H (i + 1) n (max updated 1 + 1)
          (self\<lparr>bc_blocks := (bc_blocks self)[i + 1 := b]\<rparr>, w)))"
        using P Suc.IH by (simp add: s')
    qed
    with True show ?thesis by simp
  next
    case False
    then show ?thesis using Suc by simp
  qed
  then show ?case by simp
qed simp

lemma advance_wf:
  assumes "bc_wf m (fst s)"
  shows "bc_wf m (fst (snd (advance D dh s)))"
proof -
  let ?k = "\<lambda>b (self, w). (Ok (1 :: nat), (self\<lparr>bc_blocks := butlast (b # bc_blocks self),
      bc_height := bc_height self + 1\<rparr>, w))"
  have "bc_wf m (fst (snd (try_st (on_world (fetch_block D (bc_height (fst s) + 1)) s) ?k)))"
  proof (rule try_st_snd [where P = "\<lambda>s. bc_wf m (fst s)"])
    show "bc_wf m (fst (snd (on_world (fetch_block D (bc_height (fst s) + 1)) s)))" using assms by simp
  next
    fix b s' assume ok: "on_world (fetch_block D (bc_height (fst s) + 1)) s = (Ok b, s')"
      and wf: "bc_wf m (fst s')"
    obtain self w where s': "s' = (self, w)" by force
    have b: "block_height b = bc_height (fst s) + 1" and self: "self = fst s"
      using ok fetch_block_height by (force simp: on_world_Ok s')+
    show "bc_wf m (fst (snd (?k b s')))"
      using wf b self descending_butlast [of "bc_height (fst s) + 1" "b # bc_blocks (fst s)"]
      by (simp add: bc_wf_def s' del: butlast.simps)
  qed
  with assms show ?thesis by (simp add: advance_def)
qed

lemma update_wf:
  assumes "bc_wf m (fst s)"
  shows "bc_wf m (fst (snd (block_cache_update D s)))"
proof -
  let ?P = "\<lambda>s :: block_cache \<times> 'a. bc_wf m (fst s)"
  have fix_wf: "?P (snd (check_and_fix_reorg D s))" if "?P s" for s
    using that fix_loop_wf [of m s "bc_height (fst s)" D 0 "length (bc_blocks (fst s)) - 1" 0]
    by (simp add: check_and_fix_reorg_def)
  show ?thesis
    unfolding block_cache_update_def
  proof (rule try_st_snd [where P = ?P])
    show "?P (snd (map_err_st BlockCacheRpc (on_world (md_daemon_height D) s)))" using assms by simp
  next
    fix dh s' assume P: "?P s'"
    obtain self w where s': "s' = (self, w)" by force
    have self: "?P (self\<lparr>bc_daemon_height := dh\<rparr>, w)" using P by (simp add: s' bc_wf_def)
    have "?P (snd (try_st (advance D dh (self\<lparr>bc_daemon_height := dh\<rparr>, w)) (\<lambda>updated s'.
         try_st (check_and_fix_reorg D s') (\<lambda>fixed s''. (Ok (max updated fixed), s'')))))"
    proof (rule try_st_snd [where P = ?P])
      show "?P (snd (advance D dh (self\<lparr>bc_daemon_height := dh\<rparr>, w)))" using self by (rule advance_wf)
    next
      fix updated s1 assume "?P s1"
      then show "?P (snd (try_st (check_and_fix_reorg D s1) (\<lambda>fixed s''. (Ok (max updated fixed), s''))))"
        by (intro try_st_snd [where P = ?P] fix_wf) auto
    qed
    then show "?P (snd (case s' of (self, w) \<Rightarrow>
        try_st (advance D dh (self\<lparr>bc_daemon_height := dh\<rparr>, w)) (\<lambda>updated s'.
         try_st (check_and_fix_reorg D s') (\<lambda>fixed s''. (Ok (max updated fixed), s'')))))"
      by (simp add: s')
  qed
qed

section \<open>Following a consistent daemon\<close>

text \<open>Each block names its predecessor's hash.\<close>

definition linked :: "block list \<Rightarrow> bool" where
  "linked bs \<longleftrightarrow> (\<forall>i. Suc i < length bs \<longrightarrow> prev_id (inner (bs ! i)) = block_hash (bs ! Suc i))"

text \<open>In the world \<open>w\<close>, the daemon answers requests for the heights of \<open>ch\<close> with the blocks of \<open>ch\<close>.\<close>

definition serves :: "('w, 'r) monerod \<Rightarrow> 'w \<Rightarrow> block list \<Rightarrow> bool" where
  "serves D w ch \<longleftrightarrow> (\<forall>b \<in> set ch.
     md_block D (block_height b) w = (Ok (block_hash b, inner b), w)
     \<and> md_block_transactions D (inner b) w = (Ok (block_txs b), w))"

lemma fetch_served:
  "serves D w ch \<Longrightarrow> b \<in> set ch \<Longrightarrow> h = block_height b \<Longrightarrow> fetch_block D h w = (Ok b, w)"
  by (simp add: serves_def fetch_block_def)

lemma fix_loop_linked:
  assumes "\<And>j. i \<le> j \<Longrightarrow> j < i + n \<Longrightarrow> prev_id (inner (bc_blocks c ! j)) = block_hash (bc_blocks c ! Suc j)"
  shows "fix_loop D H i n k (c, w) = (Ok k, (c, w))"
  using assms by (induction n arbitrary: i) auto

lemma linked_agree:
  assumes "linked ch" and "length bs = length ch" and "bs ! i = ch ! i"
    and link: "\<And>j. i \<le> j \<Longrightarrow> Suc j < length ch \<Longrightarrow> prev_id (inner (bs ! j)) = block_hash (bs ! Suc j)"
    and det: "\<And>a b. a \<in> set bs \<union> set ch \<Longrightarrow> b \<in> set ch \<Longrightarrow> block_hash a = block_hash b \<Longrightarrow> a = b"
  shows "i + d < length ch \<Longrightarrow> bs ! (i + d) = ch ! (i + d)"
proof (induction d)
  case (Suc d)
  then have "block_hash (bs ! Suc (i + d)) = block_hash (ch ! Suc (i + d))"
    using link [of "i + d"] assms(1) by (simp add: linked_def)
  then show ?case using det Suc.prems assms(2) by simp
qed (use assms(3) in simp)

text \<open>
  One run of the repair loop from index \<open>i\<close>, when the cache agrees with the chain \<open>ch\<close> down to depth
  \<open>i\<close> and the blocks below are linked: it ends with the whole chain, and the blocks beyond the last
  repaired one were right already.
\<close>

lemma fix_loop_mirror:
  assumes "serves D w ch" and "linked ch" and "descending H ch"
    and "length (bc_blocks c) = length ch" and "Suc (i + n) = length ch"
    and "\<And>j. j \<le> i \<Longrightarrow> bc_blocks c ! j = ch ! j"
    and "\<And>j. i < j \<Longrightarrow> Suc j < length ch \<Longrightarrow>
           prev_id (inner (bc_blocks c ! j)) = block_hash (bc_blocks c ! Suc j)"
    and "\<And>a b. a \<in> set (bc_blocks c) \<union> set ch \<Longrightarrow> b \<in> set ch \<Longrightarrow> block_hash a = block_hash b \<Longrightarrow> a = b"
  shows "\<exists>m. fix_loop D H i n k (c, w) =
      (Ok (if m = 0 then k else max k 1 + m), (c\<lparr>bc_blocks := ch\<rparr>, w))
    \<and> (\<forall>j. i + m < j \<longrightarrow> j < length ch \<longrightarrow> bc_blocks c ! j = ch ! j) \<and> i + m < length ch"
  using assms(4-8)
proof (induction n arbitrary: i k c)
  case 0
  then have "bc_blocks c = ch" by (intro nth_equalityI) auto
  then show ?case using 0 by (intro exI [of _ 0]) auto
next
  case (Suc n)
  note len = Suc.prems(1) and i = Suc.prems(2) and pre = Suc.prems(3)
    and link = Suc.prems(4) and det = Suc.prems(5)
  have il: "Suc i < length ch" using i by simp
  show ?case
  proof (cases "prev_id (inner (bc_blocks c ! i)) = block_hash (bc_blocks c ! Suc i)")
    case True
    have all: "prev_id (inner (bc_blocks c ! j)) = block_hash (bc_blocks c ! Suc j)"
      if "i \<le> j" "Suc j < length ch" for j
      using that True link [of j] by (cases "j = i") auto
    have below: "bc_blocks c ! (i + d) = ch ! (i + d)" if "i + d < length ch" for d
      using linked_agree [OF assms(2) len pre [OF order_refl] all det] that by blast
    have "bc_blocks c = ch"
    proof (rule nth_equalityI [OF len])
      fix j assume "j < length (bc_blocks c)"
      then show "bc_blocks c ! j = ch ! j" using pre below [of "j - i"] len by (cases "j \<le> i") auto
    qed
    moreover have "fix_loop D H i (Suc n) k (c, w) = (Ok k, (c, w))"
      by (rule fix_loop_linked) (use all i in auto)
    ultimately show ?thesis using il by (intro exI [of _ 0]) auto
  next
    case False
    let ?b = "ch ! Suc i"
    let ?c = "c\<lparr>bc_blocks := (bc_blocks c)[Suc i := ?b]\<rparr>"
    have "block_height ?b = H - 1 - of_nat i"
      using descending_nth [OF assms(3) il] by (simp add: algebra_simps)
    then have fetch: "on_world (fetch_block D (H - 1 - of_nat i)) (c, w) = (Ok ?b, (c, w))"
      using fetch_served [OF assms(1)] il by (intro on_world_eq) (metis nth_mem)
    have "\<exists>m. fix_loop D H (Suc i) n (max k 1 + 1) (?c, w) =
        (Ok (if m = 0 then max k 1 + 1 else max (max k 1 + 1) 1 + m), (?c\<lparr>bc_blocks := ch\<rparr>, w))
      \<and> (\<forall>j. Suc i + m < j \<longrightarrow> j < length ch \<longrightarrow> bc_blocks ?c ! j = ch ! j) \<and> Suc i + m < length ch"
    proof (rule Suc.IH)
      fix a b assume "a \<in> set (bc_blocks ?c) \<union> set ch" "b \<in> set ch" "block_hash a = block_hash b"
      moreover have "set (bc_blocks ?c) \<subseteq> insert ?b (set (bc_blocks c))"
        using set_update_subset_insert [of "bc_blocks c" "Suc i" ?b] by simp
      moreover have "?b \<in> set ch" using il by simp
      ultimately show "a = b" using det [of a b] by blast
    qed (use len i pre link il in \<open>auto simp: nth_list_update le_Suc_eq\<close>)
    then obtain m where m: "fix_loop D H (Suc i) n (max k 1 + 1) (?c, w) =
        (Ok (max k 1 + Suc m), (c\<lparr>bc_blocks := ch\<rparr>, w))"
      and "\<forall>j. Suc i + m < j \<longrightarrow> j < length ch \<longrightarrow> bc_blocks ?c ! j = ch ! j" "Suc i + m < length ch"
      by (auto split: if_splits)
    moreover have "fix_loop D H i (Suc n) k (c, w) = fix_loop D H (Suc i) n (max k 1 + 1) (?c, w)"
      using False fetch by simp
    ultimately show ?thesis by (intro exI [of _ "Suc m"]) (auto simp: nth_list_update)
  qed
qed

lemma advance_served:
  assumes "serves D w ch" and "descending (bc_height c + 1) ch" and "ch \<noteq> []"
    and "bc_height c < saturating_sub dh 1" and "length (bc_blocks c) = length ch"
  shows "advance D dh (c, w) =
    (Ok 1, (c\<lparr>bc_blocks := butlast (hd ch # bc_blocks c), bc_height := bc_height c + 1\<rparr>, w))"
proof -
  have "hd ch \<in> set ch" "bc_height c + 1 = block_height (hd ch)"
    using assms(2,3) by (cases ch; simp)+
  then have "on_world (fetch_block D (bc_height c + 1)) (c, w) = (Ok (hd ch), (c, w))"
    by (intro on_world_eq fetch_served [OF assms(1)])
  with assms(4) show ?thesis by (simp add: advance_def)
qed

lemma nth_shifted: "i < length bs \<Longrightarrow> butlast (b # bs) ! i = (if i = 0 then b else bs ! (i - 1))"
  using nth_butlast [of i "b # bs"] by (cases i) auto

lemma set_butlast_Cons: "set (butlast (b # bs)) \<subseteq> insert b (set bs)"
  by (auto simp del: butlast.simps dest: in_set_butlastD)

section \<open>Properties\<close>

text \<open>
  C15. Whatever the daemon answers: a cache \<open>init\<close> returns holds as many blocks as asked for, at
  consecutive heights from the cache height down, and \<open>update\<close> keeps it so on every path, also when it
  returns an error in the middle of a repair.
\<close>

theorem block_cache_invariant:
  "(block_cache_init D n H dh w = (Ok c, w') \<longrightarrow> bc_wf n c \<and> bc_height c = H)
   \<and> (bc_wf m (fst s) \<longrightarrow> bc_wf m (fst (snd (block_cache_update D s))))"
  using init_wf [of D n H dh w c w'] update_wf [of m s D] by blast


text \<open>A three-block example: heights 4 to 6 were reorganised, and the daemon serves the new blocks.\<close>

definition ex_block :: "u64 \<Rightarrow> hash \<Rightarrow> hash \<Rightarrow> block" where
  "ex_block h hsh prev =
     \<lparr>block_hash = hsh, block_height = h, inner = \<lparr>prev_id = prev, tx_hashes = []\<rparr>, block_txs = []\<rparr>"

definition ex_chain :: "block list" where
  "ex_chain = [ex_block 6 16 15, ex_block 5 15 14, ex_block 4 14 3]"

definition ex_cache :: block_cache where
  "ex_cache = \<lparr>bc_height = 5, bc_daemon_height = 6,
     bc_blocks = [ex_block 5 5 4, ex_block 4 4 3, ex_block 3 3 2]\<rparr>"

text \<open>The world is whether the next request for block 4 fails.\<close>

definition ex_daemon :: "(bool, unit) monerod" where
  "ex_daemon = \<lparr>
     md_block = (\<lambda>h w. if h = 4 \<and> w then (Err (), False)
       else (Ok (ucast h + 10, \<lparr>prev_id = (if h = 4 then 3 else ucast h + 9), tx_hashes = []\<rparr>), w)),
     md_block_transactions = (\<lambda>_ w. (Ok [], w)),
     md_txpool = (\<lambda>w. (Ok [], w)), md_txpool_hashes = (\<lambda>w. (Ok [], w)),
     md_transactions_by_hashes = (\<lambda>_ w. (Ok [], w)), md_daemon_height = (\<lambda>w. (Ok 7, w))\<rparr>"

lemmas ex_defs = ex_block_def ex_chain_def ex_cache_def ex_daemon_def

theorem block_cache_invariant_witness:
  "bc_wf 3 ex_cache \<and> bc_wf 3 (fst (snd (block_cache_update ex_daemon (ex_cache, True))))"
proof -
  have "bc_wf 3 (fst (ex_cache, True))" by (simp add: bc_wf_def ex_defs)
  with block_cache_invariant [of ex_daemon 0 0 0 True ex_cache True 3 "(ex_cache, True)"]
  show ?thesis by simp
qed


text \<open>
  A request that fails in the middle of a repair loses the count of the blocks already replaced:
  the next \<open>update\<close> succeeds with the whole new chain in the cache but returns 2 although the three
  blocks were replaced, so the deepest of them lies outside the heights the scanner looks at.
\<close>

theorem block_cache_repair_count_lost:
  "let (r1, s1) = block_cache_update ex_daemon (ex_cache, True);
       (r2, s2) = block_cache_update ex_daemon s1
   in r1 = Err (BlockCacheRpc ()) \<and> r2 = Ok 2 \<and> bc_blocks (fst s2) = ex_chain
      \<and> set ex_chain \<inter> set (bc_blocks ex_cache) = {}"
proof -
  define s1 where "s1 = (\<lparr>bc_height = 6, bc_daemon_height = 7,
      bc_blocks = [ex_block 6 16 15, ex_block 5 15 14, ex_block 4 4 3]\<rparr>, False)"
  have 1: "block_cache_update ex_daemon (ex_cache, True) = (Err (BlockCacheRpc ()), s1)"
    unfolding s1_def by code_simp
  have 2: "block_cache_update ex_daemon s1 =
      (Ok 2, (\<lparr>bc_height = 6, bc_daemon_height = 7, bc_blocks = ex_chain\<rparr>, False))"
    unfolding s1_def by code_simp
  show ?thesis by (simp add: 1 2) (simp add: ex_defs)
qed

end
