(* ===== verification/Txpool_Cache.thy ===== *)
theory Txpool_Cache
  imports Daemon Invoice
begin

text \<open>
  \<open>library/src/caching/txpool_cache.rs\<close>: the transactions of the daemon's pool and the transfers found
  in them, both keyed by transaction hash.
\<close>

section \<open>The cache and its operations\<close>

record txpool_cache =
  tp_transactions :: "(hash, transaction) hash_map"
  tp_discovered :: "(hash, (sub_index \<times> transfer) list) hash_map"

datatype 'r txpool_cache_error = TxpoolCacheRpc 'r

definition txpool_cache_init ::
  "('w, 'r) monerod \<Rightarrow> 'w \<Rightarrow> (txpool_cache, 'r txpool_cache_error) result \<times> 'w" where
  "txpool_cache_init D w =
     try_st (map_err_st TxpoolCacheRpc (md_txpool D w)) (\<lambda>txs w'.
       (Ok \<lparr>tp_transactions = im_extend [] (map (\<lambda>tx. (tx_hash tx, tx)) txs), tp_discovered = []\<rparr>, w'))"

definition retain_keys :: "hash list \<Rightarrow> (hash, 'v) hash_map \<Rightarrow> (hash, 'v) hash_map" where
  "retain_keys hashes m = filter (\<lambda>p. fst p \<in> set hashes) m"

text \<open>
  \<open>update\<close>: the request for the new transactions and the removal of the ones that left the pool run
  in one \<open>join!\<close>, so the removal happens also when the request fails.
\<close>

definition txpool_cache_update ::
  "('w, 'r) monerod \<Rightarrow> txpool_cache \<times> 'w
     \<Rightarrow> (transaction list, 'r txpool_cache_error) result \<times> (txpool_cache \<times> 'w)" where
  "txpool_cache_update D s =
     try_st (map_err_st TxpoolCacheRpc (on_world (md_txpool_hashes D) s)) (\<lambda>txpool_hashes (self, w).
       let new_hashes = filter (\<lambda>h. h \<notin> fst ` set (tp_transactions self)) txpool_hashes;
           self' = self\<lparr>tp_transactions := retain_keys txpool_hashes (tp_transactions self),
                        tp_discovered := retain_keys txpool_hashes (tp_discovered self)\<rparr>
       in try_st (map_err_st TxpoolCacheRpc (on_world (md_transactions_by_hashes D new_hashes) (self', w)))
            (\<lambda>new_transactions (self'', w').
               (Ok new_transactions,
                (self''\<lparr>tp_transactions :=
                   im_extend (tp_transactions self'') (map (\<lambda>tx. (tx_hash tx, tx)) new_transactions)\<rparr>,
                 w'))))"

definition insert_transfers ::
  "(hash, (sub_index \<times> transfer) list) hash_map \<Rightarrow> txpool_cache \<Rightarrow> txpool_cache" where
  "insert_transfers ts self = self\<lparr>tp_discovered := im_extend (tp_discovered self) ts\<rparr>"

section \<open>Invariant\<close>

text \<open>Keys occur once, every transaction under its own hash, transfers only of cached transactions.\<close>

definition by_hash :: "(hash, transaction) hash_map \<Rightarrow> bool" where
  "by_hash m \<longleftrightarrow> (\<forall>p \<in> set m. tx_hash (snd p) = fst p)"

definition tp_wf :: "txpool_cache \<Rightarrow> bool" where
  "tp_wf c \<longleftrightarrow> distinct (map fst (tp_transactions c)) \<and> distinct (map fst (tp_discovered c))
     \<and> by_hash (tp_transactions c)
     \<and> fst ` set (tp_discovered c) \<subseteq> fst ` set (tp_transactions c)"

lemma fst_retain_keys: "fst ` set (retain_keys hs m) = fst ` set m \<inter> set hs"
  by (auto simp: retain_keys_def)

lemma distinct_retain_keys: "distinct (map fst m) \<Longrightarrow> distinct (map fst (retain_keys hs m))"
  by (simp add: retain_keys_def map_fst_filter_fst [of "\<lambda>k. k \<in> set hs"])

lemma im_insert_by_hash: "distinct (map fst m) \<Longrightarrow> by_hash m \<Longrightarrow> by_hash (im_insert (tx_hash tx) tx m)"
  by (auto simp: by_hash_def set_im_insert)

lemma im_extend_by_hash:
  "distinct (map fst m) \<Longrightarrow> by_hash m \<Longrightarrow> by_hash (im_extend m (map (\<lambda>tx. (tx_hash tx, tx)) txs))"
  by (induction txs arbitrary: m) (simp_all add: im_insert_by_hash)

lemma by_hash_Nil [simp]: "by_hash []"
  by (simp add: by_hash_def)

lemma by_hash_retain: "by_hash m \<Longrightarrow> by_hash (retain_keys hs m)"
  by (simp add: by_hash_def retain_keys_def)

lemma fst_im_extend_by_hash:
  "fst ` set (im_extend m (map (\<lambda>tx. (tx_hash tx, tx)) txs)) = fst ` set m \<union> tx_hash ` set txs"
  by (simp add: fst_im_extend image_image)

lemma init_tp_wf: "txpool_cache_init D w = (Ok c, w') \<Longrightarrow> tp_wf c"
  using im_extend_by_hash [of "[]"] by (auto simp: txpool_cache_init_def try_st_eq_Ok tp_wf_def)

lemma tp_wf_retain:
  assumes "tp_wf c"
  shows "tp_wf (c\<lparr>tp_transactions := retain_keys hs (tp_transactions c),
                  tp_discovered := retain_keys hs (tp_discovered c)\<rparr>)"
proof -
  have "fst ` set (tp_discovered c) \<inter> set hs \<subseteq> fst ` set (tp_transactions c) \<inter> set hs"
    using assms by (auto simp: tp_wf_def)
  then show ?thesis
    using assms unfolding tp_wf_def
    by (simp add: distinct_retain_keys fst_retain_keys by_hash_retain)
qed

lemma tp_wf_extend:
  assumes "tp_wf c"
  shows "tp_wf (c\<lparr>tp_transactions := im_extend (tp_transactions c) (map (\<lambda>tx. (tx_hash tx, tx)) txs)\<rparr>)"
  using assms im_extend_by_hash [of "tp_transactions c" txs]
  unfolding tp_wf_def by (simp add: fst_im_extend_by_hash) blast

lemma insert_transfers_wf:
  assumes "tp_wf c" and "fst ` set ts \<subseteq> fst ` set (tp_transactions c)"
  shows "tp_wf (insert_transfers ts c)"
  using assms unfolding tp_wf_def insert_transfers_def by (simp add: fst_im_extend)

lemma update_tp_wf:
  assumes "tp_wf (fst s)"
  shows "tp_wf (fst (snd (txpool_cache_update D s)))"
proof -
  let ?P = "\<lambda>s :: txpool_cache \<times> 'a. tp_wf (fst s)"
  show ?thesis
    unfolding txpool_cache_update_def
  proof (rule try_st_snd [where P = ?P])
    show "?P (snd (map_err_st TxpoolCacheRpc (on_world (md_txpool_hashes D) s)))" using assms by simp
  next
    fix hs and s' :: "txpool_cache \<times> 'a" assume P: "?P s'"
    obtain self w where s': "s' = (self, w)" by force
    show "?P (snd ((\<lambda>(self, w).
       let new_hashes = filter (\<lambda>h. h \<notin> fst ` set (tp_transactions self)) hs;
           self' = self\<lparr>tp_transactions := retain_keys hs (tp_transactions self),
                        tp_discovered := retain_keys hs (tp_discovered self)\<rparr>
       in try_st (map_err_st TxpoolCacheRpc (on_world (md_transactions_by_hashes D new_hashes) (self', w)))
            (\<lambda>new_transactions (self'', w').
               (Ok new_transactions,
                (self''\<lparr>tp_transactions :=
                   im_extend (tp_transactions self'') (map (\<lambda>tx. (tx_hash tx, tx)) new_transactions)\<rparr>,
                 w')))) s'))"
      unfolding s' Let_def prod.case
      by (rule try_st_snd [where P = ?P])
        (use P in \<open>auto simp: s' tp_wf_retain intro: tp_wf_extend split: prod.splits\<close>)
  qed
qed

lemma update_discovered_subset:
  "set (tp_discovered (fst (snd (txpool_cache_update D s)))) \<subseteq> set (tp_discovered (fst s))"
proof -
  let ?P = "\<lambda>t :: txpool_cache \<times> 'a. set (tp_discovered (fst t)) \<subseteq> set (tp_discovered (fst s))"
  show ?thesis
    unfolding txpool_cache_update_def
  proof (rule try_st_snd [where P = ?P], simp, goal_cases)
    case (1 hs s')
    obtain self w where s': "s' = (self, w)" by force
    show ?case
      unfolding s' Let_def prod.case
      by (rule try_st_snd [where P = ?P])
        (use 1 in \<open>auto simp: s' retain_keys_def split: prod.splits\<close>)
  qed
qed

section \<open>Properties\<close>

text \<open>
  The pool cache is well formed after \<open>init\<close>, and stays so through \<open>update\<close>, whatever the daemon
  answers and also when a request fails, and through \<open>insert_transfers\<close> of transfers of cached
  transactions.
\<close>

theorem txpool_cache_invariant:
  "(txpool_cache_init D w = (Ok c, w') \<longrightarrow> tp_wf c)
   \<and> (tp_wf (fst s) \<longrightarrow> tp_wf (fst (snd (txpool_cache_update D s))))
   \<and> (tp_wf c1 \<longrightarrow> fst ` set ts \<subseteq> fst ` set (tp_transactions c1) \<longrightarrow> tp_wf (insert_transfers ts c1))"
  using init_tp_wf [of D w c w'] update_tp_wf [of s D] insert_transfers_wf [of c1 ts] by blast

definition tp_example :: txpool_cache where
  "tp_example = \<lparr>tp_transactions = [(1, \<lparr>tx_hash = 1, unlock_time = 0, tx_rest = []\<rparr>)], tp_discovered = []\<rparr>"

definition tp_daemon :: "transaction list \<Rightarrow> (unit, unit) monerod" where
  "tp_daemon txs = \<lparr>
     md_block = (\<lambda>_ w. (Err (), w)), md_block_transactions = (\<lambda>_ w. (Err (), w)),
     md_txpool = (\<lambda>w. (Ok txs, w)), md_txpool_hashes = (\<lambda>w. (Ok (map tx_hash txs), w)),
     md_transactions_by_hashes = (\<lambda>hs w. (Ok (filter (\<lambda>tx. tx_hash tx \<in> set hs) txs), w)),
     md_daemon_height = (\<lambda>w. (Err (), w))\<rparr>"

theorem txpool_cache_invariant_witness:
  "tp_wf (insert_transfers [(1, [])] tp_example)"
proof -
  have "tp_wf tp_example" by (simp add: tp_example_def tp_wf_def by_hash_def)
  with txpool_cache_invariant [of "tp_daemon []" "()" tp_example "()" "(tp_example, ())" tp_example "[(1, [])]"]
  show ?thesis by (auto simp: tp_example_def)
qed

text \<open>
  C19. When the daemon answers with the pool's hashes and with the transactions asked for, \<open>update\<close>
  returns exactly the pool transactions that were not cached, the cache then holds exactly the pool,
  and the discovered transfers of transactions that left the pool are gone while the others are kept.
\<close>

theorem txpool_cache_update_tracks_pool:
  assumes "tp_wf c" and "md_txpool_hashes D w = (Ok pool, w1)"
    and "md_transactions_by_hashes D (filter (\<lambda>h. h \<notin> fst ` set (tp_transactions c)) pool) w1 = (Ok txs, w2)"
    and "tx_hash ` set txs = set (filter (\<lambda>h. h \<notin> fst ` set (tp_transactions c)) pool)"
  shows "\<exists>c'. txpool_cache_update D (c, w) = (Ok txs, (c', w2)) \<and> tp_wf c'
    \<and> fst ` set (tp_transactions c') = set pool
    \<and> tp_discovered c' = filter (\<lambda>p. fst p \<in> set pool) (tp_discovered c)"
proof -
  let ?r = "c\<lparr>tp_transactions := retain_keys pool (tp_transactions c),
              tp_discovered := retain_keys pool (tp_discovered c)\<rparr>"
  let ?c = "?r\<lparr>tp_transactions := im_extend (tp_transactions ?r) (map (\<lambda>tx. (tx_hash tx, tx)) txs)\<rparr>"
  have "txpool_cache_update D (c, w) = (Ok txs, (?c, w2))"
    using assms(2,3) by (simp add: txpool_cache_update_def on_world_def)
  moreover have "tp_wf ?c" by (rule tp_wf_extend [OF tp_wf_retain [OF assms(1)]])
  moreover have "fst ` set (tp_transactions ?c) = set pool"
    using assms(4) by (auto simp: fst_im_extend_by_hash fst_retain_keys)
  moreover have "tp_discovered ?c = filter (\<lambda>p. fst p \<in> set pool) (tp_discovered c)"
    by (simp add: retain_keys_def)
  ultimately show ?thesis by blast
qed

theorem txpool_cache_update_tracks_pool_witness:
  "let tx = \<lparr>tx_hash = 2, unlock_time = 0, tx_rest = []\<rparr>
   in \<exists>c'. txpool_cache_update (tp_daemon [tx]) (tp_example, ()) = (Ok [tx], (c', ()))
        \<and> fst ` set (tp_transactions c') = {2}"
proof -
  have "tp_wf tp_example" by (simp add: tp_example_def tp_wf_def by_hash_def)
  from txpool_cache_update_tracks_pool [OF this,
      of "tp_daemon [\<lparr>tx_hash = 2, unlock_time = 0, tx_rest = []\<rparr>]" "()" "[2]" "()"
         "[\<lparr>tx_hash = 2, unlock_time = 0, tx_rest = []\<rparr>]" "()"]
  show ?thesis by (auto simp: tp_daemon_def tp_example_def)
qed

text \<open>
  A transaction that is in the pool when the gateway starts is never returned by \<open>update\<close> while it
  stays there: \<open>init\<close> caches the whole pool as already known, and only returned transactions are scanned.
\<close>

theorem txpool_cache_init_hides_pool:
  assumes "txpool_cache_init (tp_daemon txs) w = (Ok c, w1)" and "set txs' \<subseteq> set txs"
  shows "fst (txpool_cache_update (tp_daemon txs') (c, w1)) = Ok []"
proof -
  have c: "c = \<lparr>tp_transactions = im_extend [] (map (\<lambda>tx. (tx_hash tx, tx)) txs), tp_discovered = []\<rparr>"
    using assms(1) by (simp add: txpool_cache_init_def tp_daemon_def)
  have "\<forall>tx \<in> set txs'. tx_hash tx \<in> fst ` set (tp_transactions c)"
    using assms(2) by (auto simp: c fst_im_extend_by_hash)
  then show ?thesis by (simp add: txpool_cache_update_def tp_daemon_def on_world_def filter_empty_conv)
qed

theorem txpool_cache_init_hides_pool_witness:
  "let tx = \<lparr>tx_hash = 2, unlock_time = 0, tx_rest = []\<rparr>;
       c = \<lparr>tp_transactions = [(2, tx)], tp_discovered = []\<rparr>
   in fst (txpool_cache_update (tp_daemon [tx]) (c, ())) = Ok []"
  using txpool_cache_init_hides_pool [of "[\<lparr>tx_hash = 2, unlock_time = 0, tx_rest = []\<rparr>]" "()"
      "\<lparr>tp_transactions = [(2, \<lparr>tx_hash = 2, unlock_time = 0, tx_rest = []\<rparr>)], tp_discovered = []\<rparr>" "()"
      "[\<lparr>tx_hash = 2, unlock_time = 0, tx_rest = []\<rparr>]"]
  by (simp add: txpool_cache_init_def tp_daemon_def)

end
