(* ===== verification/Pubsub.thy ===== *)
theory Pubsub
  imports Invoice
begin

text \<open>
  \<open>library/src/pubsub.rs\<close>: the publisher keeps, for every tracked invoice and for "all invoices", an
  ordered map from random sender IDs to the sending halves of channels; \<open>send_updates\<close> walks those
  maps by index and drops senders whose receiver is gone.

  A channel is identified by a number; its state is the queue of invoices not yet received and
  whether the receiver has been dropped.  \<open>Sender::send\<close> waits while the buffer is full; the model
  describes the completed send, so the buffer bound (2048) does not appear.
\<close>

section \<open>Channels\<close>

type_synonym sender_id = u128

record channel =
  closed :: bool
  queue :: "invoice list"

type_synonym channels = "nat \<Rightarrow> channel"

definition chan_send :: "nat \<Rightarrow> invoice \<Rightarrow> channels \<Rightarrow> bool \<times> channels" where
  "chan_send c v chans =
     (if closed (chans c) then (False, chans)
      else (True, chans(c := (chans c)\<lparr>queue := queue (chans c) @ [v]\<rparr>)))"

section \<open>The publisher\<close>

record publisher =
  invoice_subs :: "(invoice_id, (sender_id, nat) index_map) hash_map"
  global_subs :: "(sender_id, nat) index_map"

definition publisher_new :: publisher where
  "publisher_new = \<lparr>invoice_subs = [], global_subs = []\<rparr>"

text \<open>
  \<open>subscribe\<close>: \<open>sid\<close> is the random sender ID, \<open>c\<close> the fresh channel.
\<close>

definition subscribe ::
  "invoice_id \<Rightarrow> sender_id \<Rightarrow> nat \<Rightarrow> publisher \<Rightarrow> channels \<Rightarrow> nat option \<times> publisher \<times> channels" where
  "subscribe invoice_id sid c pub chans =
     (let chans' = chans(c := \<lparr>closed = False, queue = []\<rparr>)
      in case map_of (invoice_subs pub) invoice_id of
           None \<Rightarrow> (None, pub, chans')
         | Some subs \<Rightarrow>
             (Some c,
              pub\<lparr>invoice_subs := im_insert invoice_id (im_insert sid c subs) (invoice_subs pub)\<rparr>,
              chans'))"

definition subscribe_all ::
  "sender_id \<Rightarrow> nat \<Rightarrow> publisher \<Rightarrow> channels \<Rightarrow> nat \<times> publisher \<times> channels" where
  "subscribe_all sid c pub chans =
     (c, pub\<lparr>global_subs := im_insert sid c (global_subs pub)\<rparr>,
      chans(c := \<lparr>closed = False, queue = []\<rparr>))"

definition publisher_insert_invoice :: "invoice_id \<Rightarrow> publisher \<Rightarrow> publisher" where
  "publisher_insert_invoice invoice_id pub =
     pub\<lparr>invoice_subs := im_insert invoice_id [] (invoice_subs pub)\<rparr>"

definition publisher_remove_invoice :: "invoice_id \<Rightarrow> publisher \<Rightarrow> publisher" where
  "publisher_remove_invoice invoice_id pub =
     pub\<lparr>invoice_subs := filter (\<lambda>p. fst p \<noteq> invoice_id) (invoice_subs pub)\<rparr>"

text \<open>
  \<open>get_sender_by_index\<close> and \<open>remove_sender\<close>, for one invoice's senders or the global ones.
\<close>

definition senders :: "invoice_id option \<Rightarrow> publisher \<Rightarrow> (sender_id, nat) index_map" where
  "senders invoice_id pub =
     (case invoice_id of
        Some i \<Rightarrow> (case map_of (invoice_subs pub) i of Some m \<Rightarrow> m | None \<Rightarrow> [])
      | None \<Rightarrow> global_subs pub)"

definition get_sender_by_index ::
  "invoice_id option \<Rightarrow> nat \<Rightarrow> publisher \<Rightarrow> (sender_id \<times> nat) option" where
  "get_sender_by_index invoice_id idx pub =
     (if idx < length (senders invoice_id pub) then Some (senders invoice_id pub ! idx) else None)"

definition remove_sender :: "invoice_id option \<Rightarrow> sender_id \<Rightarrow> publisher \<Rightarrow> publisher" where
  "remove_sender invoice_id sender_id pub =
     (case invoice_id of
        Some i \<Rightarrow>
          (case map_of (invoice_subs pub) i of
             Some m \<Rightarrow> pub\<lparr>invoice_subs := im_insert i (swap_remove sender_id m) (invoice_subs pub)\<rparr>
           | None \<Rightarrow> pub)
      | None \<Rightarrow> pub\<lparr>global_subs := swap_remove sender_id (global_subs pub)\<rparr>)"

lemma index_of_less: "k \<in> fst ` set m \<Longrightarrow> index_of k m < length m"
  by (induction m) auto

lemma length_swap_remove: "k \<in> fst ` set m \<Longrightarrow> length (swap_remove k m) = length m - 1"
  by (simp add: swap_remove_def index_of_less)

lemma senders_remove_sender:
  "senders i (remove_sender i k pub) =
     (if senders i pub = [] then [] else swap_remove k (senders i pub))"
  by (auto simp: senders_def remove_sender_def swap_remove_def swap_remove_index_def
      split: option.splits)

text \<open>
  The body of one of the two loops of \<open>send_updates\<close>: \<open>is_closed\<close> is the variable \<open>closed\<close>, which is
  initialised before the loop and never reset inside it.
\<close>

function send_loop ::
  "invoice_id option \<Rightarrow> invoice \<Rightarrow> nat \<Rightarrow> bool \<Rightarrow> publisher \<Rightarrow> channels \<Rightarrow> publisher \<times> channels" where
  "send_loop i v idx is_closed pub chans =
     (case get_sender_by_index i idx pub of
        None \<Rightarrow> (pub, chans)
      | Some (sid, c) \<Rightarrow>
          (let (ok, chans') = chan_send c v chans;
               is_closed' = (is_closed \<or> \<not> ok)
           in if is_closed' then send_loop i v idx is_closed' (remove_sender i sid pub) chans'
              else send_loop i v (idx + 1) is_closed' pub chans'))"
  by pat_completeness auto
termination
proof (relation "measure (\<lambda>(i, v, idx, is_closed, pub, chans). length (senders i pub) - idx)",
    goal_cases)
  case (2 i v idx is_closed pub chans x2 sid c x ok chans' is_closed')
  then have idx: "idx < length (senders i pub)" and nth: "senders i pub ! idx = (sid, c)"
    by (auto simp: get_sender_by_index_def split: if_splits)
  then have "sid \<in> fst ` set (senders i pub)" by (metis fst_conv image_eqI nth_mem)
  with idx show ?case
    by (auto simp: senders_remove_sender length_swap_remove)
qed (auto simp: get_sender_by_index_def split: if_splits)

declare send_loop.simps [simp del]

definition send_updates :: "invoice \<Rightarrow> publisher \<Rightarrow> channels \<Rightarrow> publisher \<times> channels" where
  "send_updates v pub chans =
     (let (pub', chans') = send_loop (Some (invoice_ident v)) v 0 False pub chans
      in send_loop None v 0 False pub' chans')"

text \<open>\<open>Subscriber::try_recv\<close>: \<open>Empty\<close> while a sender is left, \<open>Disconnected\<close> when none is.\<close>

datatype try_recv_error = TryRecvEmpty | TryRecvDisconnected

definition has_sender :: "nat \<Rightarrow> publisher \<Rightarrow> bool" where
  "has_sender c pub \<longleftrightarrow>
     c \<in> snd ` set (global_subs pub) \<or> (\<exists>p \<in> set (invoice_subs pub). c \<in> snd ` set (snd p))"

definition try_recv ::
  "nat \<Rightarrow> publisher \<Rightarrow> channels \<Rightarrow> (invoice, try_recv_error) result \<times> channels" where
  "try_recv c pub chans =
     (case queue (chans c) of
        v # vs \<Rightarrow> (Ok v, chans(c := (chans c)\<lparr>queue := vs\<rparr>))
      | [] \<Rightarrow> (Err (if has_sender c pub then TryRecvEmpty else TryRecvDisconnected), chans))"

section \<open>What one loop does\<close>

text \<open>The effect of sending to every channel of a set that is still open.\<close>

definition deliver :: "invoice \<Rightarrow> nat set \<Rightarrow> channels \<Rightarrow> channels" where
  "deliver v cs chans =
     (\<lambda>c. if c \<in> cs \<and> \<not> closed (chans c) then (chans c)\<lparr>queue := queue (chans c) @ [v]\<rparr> else chans c)"

lemma closed_deliver [simp]: "closed (deliver v cs chans c) = closed (chans c)"
  by (simp add: deliver_def)

lemma deliver_empty [simp]: "deliver v {} chans = chans"
  by (simp add: deliver_def)

lemma chan_send_eq: "chan_send c v chans = (\<not> closed (chans c), deliver v {c} chans)"
  by (auto simp: chan_send_def deliver_def fun_eq_iff)

lemma deliver_deliver: "c \<notin> cs \<Longrightarrow> deliver v cs (deliver v {c} chans) = deliver v (insert c cs) chans"
  by (auto simp: deliver_def fun_eq_iff)

lemma swap_remove_index_take:
  "i < length xs \<Longrightarrow> take i (swap_remove_index i xs) = take i xs"
  by (auto simp: swap_remove_index_def butlast_conv_take min_def)

lemma swap_remove_index_drop:
  assumes "i < length xs"
  shows "mset (drop i (swap_remove_index i xs)) = mset (drop (Suc i) xs)"
proof (cases "drop (Suc i) xs = []")
  case True
  with assms have "Suc i = length xs" by simp
  then show ?thesis
    by (simp add: swap_remove_index_def butlast_conv_take)
next
  case False
  have xs: "xs = take i xs @ xs ! i # drop (Suc i) xs"
    using assms by (simp add: id_take_nth_drop)
  have last: "last xs = last (drop (Suc i) xs)" using False by (simp add: last_drop)
  have len: "length (take i xs) = i" using assms by simp
  have "xs[i := last xs] = take i xs @ last xs # drop (Suc i) xs"
    using assms by (simp add: upd_conv_take_nth_drop)
  then have "swap_remove_index i xs = take i xs @ last xs # butlast (drop (Suc i) xs)"
    using assms False by (simp add: swap_remove_index_def butlast_append)
  then have "drop i (swap_remove_index i xs) = last xs # butlast (drop (Suc i) xs)"
    using len by simp
  then have "mset (drop i (swap_remove_index i xs))
      = mset (butlast (drop (Suc i) xs) @ [last (drop (Suc i) xs)])"
    using last by simp
  also have "\<dots> = mset (drop (Suc i) xs)" by (simp only: append_butlast_last_id [OF False])
  finally show ?thesis .
qed

lemma swap_remove_index_mset:
  assumes "i < length xs"
  shows "mset (swap_remove_index i xs) = mset (take i xs @ drop (Suc i) xs)"
proof -
  have "mset (swap_remove_index i xs)
      = mset (take i (swap_remove_index i xs) @ drop i (swap_remove_index i xs))" by simp
  then show ?thesis
    by (simp only: mset_append swap_remove_index_take [OF assms] swap_remove_index_drop [OF assms])
qed

lemma distinct_swap_remove_index:
  assumes "distinct (map f xs)" and "i < length xs"
  shows "distinct (map f (swap_remove_index i xs))"
proof -
  have "mset (map f (swap_remove_index i xs)) = mset (map f (shift_remove_index i xs))"
    by (simp add: swap_remove_index_mset assms(2) shift_remove_index_def)
  then have "distinct (map f (swap_remove_index i xs)) = distinct (map f (shift_remove_index i xs))"
    by (rule mset_eq_imp_distinct_iff)
  with distinct_shift_remove_index [OF assms(1)] show ?thesis by simp
qed

lemma senders_remove_other: "j \<noteq> i \<Longrightarrow> senders j (remove_sender i k pub) = senders j pub"
  by (auto simp: senders_def remove_sender_def split: option.splits)

lemma tracked_remove_sender:
  "dom (map_of (invoice_subs (remove_sender i k pub))) = dom (map_of (invoice_subs pub))"
  by (auto simp: remove_sender_def split: option.splits if_splits)

definition send_post ::
  "invoice_id option \<Rightarrow> invoice \<Rightarrow> nat \<Rightarrow> bool \<Rightarrow> publisher \<Rightarrow> channels \<Rightarrow> publisher \<times> channels \<Rightarrow> bool" where
  "send_post i v idx is_closed pub chans r \<longleftrightarrow>
     senders i (fst r) = take idx (senders i pub) @
       (if is_closed then []
        else takeWhile (\<lambda>p. \<not> closed (chans (snd p))) (drop idx (senders i pub)))
     \<and> snd r = deliver v (snd ` set (drop idx (senders i pub))) chans
     \<and> (\<forall>j. j \<noteq> i \<longrightarrow> senders j (fst r) = senders j pub)"

lemma send_loop_post:
  "distinct (map fst (senders i pub)) \<Longrightarrow> distinct (map snd (senders i pub)) \<Longrightarrow>
     idx \<le> length (senders i pub) \<Longrightarrow>
     send_post i v idx is_closed pub chans (send_loop i v idx is_closed pub chans)"
proof (induction i v idx is_closed pub chans rule: send_loop.induct)
  case (1 i v idx is_closed pub chans)
  let ?m = "senders i pub"
  show ?case
  proof (cases "idx < length ?m")
    case False
    then have "send_loop i v idx is_closed pub chans = (pub, chans)"
      by (subst send_loop.simps) (simp add: get_sender_by_index_def)
    then show ?thesis
      using False "1.prems" by (simp add: send_post_def)
  next
    case True
    obtain sid c where nth: "?m ! idx = (sid, c)" by force
    have get: "get_sender_by_index i idx pub = Some (sid, c)"
      using True nth by (simp add: get_sender_by_index_def)
    have drop: "drop idx ?m = (sid, c) # drop (Suc idx) ?m"
      using True nth by (metis Cons_nth_drop_Suc)
    have c: "c \<notin> snd ` set (drop (Suc idx) ?m)"
    proof -
      have "distinct (map snd (drop idx ?m))"
        using "1.prems"(2) by (simp add: distinct_drop flip: drop_map)
      then show ?thesis by (simp add: drop)
    qed
    note eq = send_loop.simps [of i v idx is_closed pub chans]
    show ?thesis
    proof (cases "is_closed \<or> closed (chans c)")
      case rm: True
      let ?pub = "remove_sender i sid pub"
      have swap: "senders i ?pub = swap_remove_index idx ?m"
        using True nth "1.prems"(1) index_of_nth [of ?m idx]
        by (auto simp: senders_remove_sender swap_remove_def)
      have "send_post i v idx True ?pub (deliver v {c} chans)
          (send_loop i v idx True ?pub (deliver v {c} chans))"
        using "1.IH"(1) [OF get] "1.prems" True rm
        by (simp add: chan_send_eq swap distinct_swap_remove_index)
      moreover have "set (drop idx (swap_remove_index idx ?m)) = set (drop (Suc idx) ?m)"
        using swap_remove_index_drop [OF True] by (metis set_mset_mset)
      ultimately show ?thesis
        using rm
        by (auto simp: eq get chan_send_eq send_post_def swap swap_remove_index_take [OF True]
            drop deliver_deliver [OF c] senders_remove_other)
    next
      case False
      then have "send_post i v (idx + 1) False pub (deliver v {c} chans)
          (send_loop i v (idx + 1) False pub (deliver v {c} chans))"
        using "1.IH"(2) [OF get] "1.prems" True by (force simp: chan_send_eq)
      moreover have "send_loop i v idx is_closed pub chans
          = send_loop i v (idx + 1) False pub (deliver v {c} chans)"
        by (subst eq) (use False in \<open>simp add: get chan_send_eq\<close>)
      ultimately show ?thesis
        using False True
        by (simp add: send_post_def drop deliver_deliver [OF c]
            take_Suc_conv_app_nth nth)
    qed
  qed
qed


section \<open>The publisher's invariant\<close>

text \<open>
  Every sender ID is used once in a map, and no channel has two senders: \<open>subscribe\<close> creates one
  channel and stores one sender for it.
\<close>

definition sender_chans :: "invoice_id option \<Rightarrow> publisher \<Rightarrow> nat set" where
  "sender_chans i pub = snd ` set (senders i pub)"

definition publisher_wf :: "publisher \<Rightarrow> bool" where
  "publisher_wf pub \<longleftrightarrow>
     (\<forall>i. distinct (map fst (senders i pub)) \<and> distinct (map snd (senders i pub)))
     \<and> (\<forall>i j. i \<noteq> j \<longrightarrow> sender_chans i pub \<inter> sender_chans j pub = {})"

lemma publisher_wf_shrink:
  assumes "publisher_wf pub"
    and "\<And>i. distinct (map fst (senders i pub')) \<and> distinct (map snd (senders i pub'))
           \<and> sender_chans i pub' \<subseteq> sender_chans i pub"
  shows "publisher_wf pub'"
  using assms unfolding publisher_wf_def by (metis (no_types, lifting) Int_mono subset_empty)

lemma senders_simps [simp]:
  "senders (Some j) (publisher_insert_invoice i pub) = (if j = i then [] else senders (Some j) pub)"
  "senders None (publisher_insert_invoice i pub) = senders None pub"
  "senders None (publisher_remove_invoice i pub) = senders None pub"
  "senders k publisher_new = []"
  by (auto simp: senders_def publisher_insert_invoice_def publisher_remove_invoice_def
      publisher_new_def split: option.splits)

lemma map_of_filter_fst: "map_of (filter (\<lambda>p. fst p \<noteq> k) m) = (map_of m)(k := None)"
  by (induction m) (auto simp: fun_eq_iff)

lemma senders_remove_invoice [simp]:
  "senders (Some j) (publisher_remove_invoice i pub) = (if j = i then [] else senders (Some j) pub)"
  by (simp add: senders_def publisher_remove_invoice_def map_of_filter_fst)

lemma senders_subscribe:
  assumes "sid \<notin> fst ` set (senders (Some i) pub)"
    and "subscribe i sid c pub chans = (r, pub', chans')"
  shows "senders j pub' = senders j pub @ (if j = Some i \<and> r \<noteq> None then [(sid, c)] else [])"
  using assms
  by (auto simp: senders_def subscribe_def Let_def im_insert_fresh split: option.splits)

lemma senders_subscribe_all:
  assumes "sid \<notin> fst ` set (senders None pub)"
    and "subscribe_all sid c pub chans = (r, pub', chans')"
  shows "senders j pub' = senders j pub @ (if j = None then [(sid, c)] else [])"
  using assms by (auto simp: senders_def subscribe_all_def im_insert_fresh split: option.splits)

lemma publisher_wf_add:
  assumes "publisher_wf pub" and "sid \<notin> fst ` set (senders i pub)"
    and "\<And>j. c \<notin> sender_chans j pub"
    and "\<And>j. senders j pub' = senders j pub @ (if j = i \<and> b then [(sid, c)] else [])"
  shows "publisher_wf pub'"
proof -
  have "sender_chans j pub' = sender_chans j pub \<union> (if j = i \<and> b then {c} else {})" for j
    using assms(4) by (auto simp: sender_chans_def)
  with assms show ?thesis
    unfolding publisher_wf_def by (auto simp: sender_chans_def)
qed

lemma send_updates_senders_chans:
  assumes "publisher_wf pub" and "send_updates v pub chans = (pub', chans')"
  shows "senders i pub' =
      (if i = None \<or> i = Some (invoice_ident v)
       then takeWhile (\<lambda>p. \<not> closed (chans (snd p))) (senders i pub) else senders i pub)" (is ?A)
    and "chans' = deliver v
      (sender_chans (Some (invoice_ident v)) pub \<union> sender_chans None pub) chans" (is ?B)
proof -
  let ?i = "Some (invoice_ident v)"
  obtain p1 c1 where l1: "send_loop ?i v 0 False pub chans = (p1, c1)" by force
  then have l2: "send_loop None v 0 False p1 c1 = (pub', chans')"
    using assms(2) by (simp add: send_updates_def)
  have wf: "distinct (map fst (senders j pub))" "distinct (map snd (senders j pub))" for j
    using assms(1) by (auto simp: publisher_wf_def)
  have post1: "send_post ?i v 0 False pub chans (p1, c1)"
    unfolding l1 [symmetric] by (rule send_loop_post [OF wf]) simp
  then have p1: "senders None p1 = senders None pub" and c1: "c1 = deliver v (sender_chans ?i pub) chans"
    by (simp_all add: send_post_def sender_chans_def)
  have "send_post None v 0 False p1 c1 (pub', chans')"
    using send_loop_post [of None p1 0 v False c1] l2 wf by (simp add: p1)
  note posts = post1 this
  show ?A using posts by (auto simp: send_post_def p1 c1)
  have "sender_chans ?i pub \<inter> sender_chans None pub = {}"
    using assms(1) by (simp add: publisher_wf_def)
  with posts show ?B
    by (auto simp: send_post_def p1 c1 deliver_def sender_chans_def fun_eq_iff)
qed

lemma publisher_wf_new: "publisher_wf publisher_new"
  by (simp add: publisher_wf_def sender_chans_def)

lemma publisher_wf_distinct:
  assumes "publisher_wf pub"
  shows "distinct (map fst (senders j pub))" and "distinct (map snd (senders j pub))"
  using assms by (auto simp: publisher_wf_def)

lemma publisher_wf_subscribe:
  assumes "publisher_wf pub" and "sid \<notin> fst ` set (senders (Some i) pub)"
    and "\<And>j. c \<notin> sender_chans j pub"
  shows "publisher_wf (fst (snd (subscribe i sid c pub chans)))"
proof -
  obtain r p s where sub: "subscribe i sid c pub chans = (r, p, s)" by (metis prod_cases3)
  show ?thesis
    using publisher_wf_add [OF assms senders_subscribe [OF assms(2) sub]] sub by simp
qed

lemma publisher_wf_subscribe_all:
  assumes "publisher_wf pub" and "sid \<notin> fst ` set (senders None pub)"
    and "\<And>j. c \<notin> sender_chans j pub"
  shows "publisher_wf (fst (snd (subscribe_all sid c pub chans)))"
proof -
  obtain r p s where sub: "subscribe_all sid c pub chans = (r, p, s)" by (metis prod_cases3)
  show ?thesis
    using publisher_wf_add [OF assms, of p True] senders_subscribe_all [OF assms(2) sub] sub by simp
qed

lemma publisher_wf_insert_invoice:
  assumes "publisher_wf pub"
  shows "publisher_wf (publisher_insert_invoice i pub)"
proof (rule publisher_wf_shrink [OF assms])
  fix j show "distinct (map fst (senders j (publisher_insert_invoice i pub)))
      \<and> distinct (map snd (senders j (publisher_insert_invoice i pub)))
      \<and> sender_chans j (publisher_insert_invoice i pub) \<subseteq> sender_chans j pub"
    using publisher_wf_distinct [OF assms] by (cases j) (auto simp: sender_chans_def)
qed

lemma publisher_wf_remove_invoice:
  assumes "publisher_wf pub"
  shows "publisher_wf (publisher_remove_invoice i pub)"
proof (rule publisher_wf_shrink [OF assms])
  fix j show "distinct (map fst (senders j (publisher_remove_invoice i pub)))
      \<and> distinct (map snd (senders j (publisher_remove_invoice i pub)))
      \<and> sender_chans j (publisher_remove_invoice i pub) \<subseteq> sender_chans j pub"
    using publisher_wf_distinct [OF assms] by (cases j) (auto simp: sender_chans_def)
qed

lemma publisher_wf_send_updates:
  assumes "publisher_wf pub"
  shows "publisher_wf (fst (send_updates v pub chans))"
proof -
  obtain p s where upd: "send_updates v pub chans = (p, s)" by force
  have "publisher_wf p"
  proof (rule publisher_wf_shrink [OF assms])
    fix j
    let ?t = "takeWhile (\<lambda>p. \<not> closed (chans (snd p))) (senders j pub)"
    obtain n where "?t = take n (senders j pub)" by (metis takeWhile_eq_take)
    then have "distinct (map fst ?t)" "distinct (map snd ?t)"
      using publisher_wf_distinct [OF assms, of j] by (simp_all add: distinct_take flip: take_map)
    then show "distinct (map fst (senders j p)) \<and> distinct (map snd (senders j p))
        \<and> sender_chans j p \<subseteq> sender_chans j pub"
      using publisher_wf_distinct [OF assms, of j]
      by (auto simp: send_updates_senders_chans(1) [OF assms upd] sender_chans_def
          dest: set_takeWhileD)
  qed
  then show ?thesis using upd by simp
qed

section \<open>Properties\<close>

text \<open>
  The publisher's invariant (sender IDs unique per invoice, no channel with two senders) holds
  of the new publisher and is kept by every operation, given that a new subscriber's random ID and
  channel are fresh.
\<close>

theorem publisher_invariant:
  assumes "publisher_wf pub"
    and "\<And>j. sid \<notin> fst ` set (senders j pub)" and "\<And>j. c \<notin> sender_chans j pub"
  shows "publisher_wf publisher_new
    \<and> publisher_wf (fst (snd (subscribe i sid c pub chans)))
    \<and> publisher_wf (fst (snd (subscribe_all sid c pub chans)))
    \<and> publisher_wf (publisher_insert_invoice i pub)
    \<and> publisher_wf (publisher_remove_invoice i pub)
    \<and> publisher_wf (fst (send_updates v pub chans))"
  using assms
  by (intro conjI publisher_wf_new publisher_wf_subscribe publisher_wf_subscribe_all
      publisher_wf_insert_invoice publisher_wf_remove_invoice publisher_wf_send_updates)

theorem publisher_invariant_witness:
  "publisher_wf (fst (snd (subscribe_all 5 1 publisher_new (\<lambda>_. \<lparr>closed = False, queue = []\<rparr>))))"
  using publisher_invariant [OF publisher_wf_new, of 5 1] by (simp add: sender_chans_def)

text \<open>
  C22. \<open>send_updates\<close> appends the update exactly once to the queue of every open subscriber of the
  invoice and of every open global subscriber, and changes no other channel; the loops end although
  they delete from the map they walk.
\<close>

theorem send_updates_delivers:
  assumes "publisher_wf pub"
  shows "queue (snd (send_updates v pub chans) c) =
      (if (c \<in> sender_chans (Some (invoice_ident v)) pub \<or> c \<in> sender_chans None pub)
          \<and> \<not> closed (chans c)
       then queue (chans c) @ [v] else queue (chans c))"
proof -
  obtain p s where upd: "send_updates v pub chans = (p, s)" by force
  show ?thesis by (simp add: upd send_updates_senders_chans(2) [OF assms upd] deliver_def)
qed

theorem send_updates_delivers_witness:
  "let v = (invoice_new ''a'' (SubIndex 0 1) 3 10 2 20 ''d'') in
     queue (snd (send_updates v \<lparr>invoice_subs = [], global_subs = [(5, 0), (6, 1)]\<rparr>
       (\<lambda>c. \<lparr>closed = (c = 0), queue = []\<rparr>)) 1) = [v]"
proof -
  have "publisher_wf \<lparr>invoice_subs = [], global_subs = [(5, 0), (6, 1)]\<rparr>"
    by (auto simp: publisher_wf_def senders_def sender_chans_def split: option.splits)
  from send_updates_delivers [OF this] show ?thesis
    by (simp add: sender_chans_def senders_def Let_def)
qed

text \<open>
  The senders that are left after \<open>send_updates\<close>: those before the first one whose receiver is
  gone.  The flag \<open>closed\<close> is not reset inside the loop, so one dropped receiver unsubscribes every
  live subscriber behind it.
\<close>

theorem send_updates_keeps_prefix:
  assumes "publisher_wf pub"
  shows "senders i (fst (send_updates v pub chans)) =
      (if i = None \<or> i = Some (invoice_ident v)
       then takeWhile (\<lambda>p. \<not> closed (chans (snd p))) (senders i pub) else senders i pub)"
proof -
  obtain p s where upd: "send_updates v pub chans = (p, s)" by force
  show ?thesis by (simp add: upd send_updates_senders_chans(1) [OF assms upd])
qed

theorem send_updates_keeps_prefix_witness:
  "let v = (invoice_new ''a'' (SubIndex 0 1) 3 10 2 20 ''d'') in
     senders None (fst (send_updates v \<lparr>invoice_subs = [], global_subs = [(5, 0), (6, 1)]\<rparr>
       (\<lambda>c. \<lparr>closed = (c = 0), queue = []\<rparr>))) = []"
proof -
  have "publisher_wf \<lparr>invoice_subs = [], global_subs = [(5, 0), (6, 1)]\<rparr>"
    by (auto simp: publisher_wf_def senders_def sender_chans_def split: option.splits)
  from send_updates_keeps_prefix [OF this, of None] show ?thesis by (simp add: senders_def Let_def)
qed

end
