(* ===== verification/Scanner.thy ===== *)
theory Scanner
  imports Invoice_Update Storage_Client Block_Cache Txpool_Cache Pubsub In_Memory
begin

text \<open>
  \<open>library/src/scanner.rs\<close>: one scan updates the two caches, looks for owned outputs in the changed
  blocks and the new pool transactions, and writes the invoices it changes.

  The \<open>monero\<close> crate's \<open>check_outputs_with\<close>, applied to the wallet's key checker, is the parameter
  \<open>check\<close>; it maps a transaction to its owned outputs.  Rayon's parallel fold over the transactions
  is the sequential one (its reduction keeps the order of the items).  The two halves of the \<open>join!\<close>
  in \<open>scan\<close> run one after the other, blocks first.
\<close>

section \<open>Data\<close>

record owned_tx_out =
  out_index :: nat
  out_key :: output_pub_key
  out_sub_index :: sub_index
  out_amount :: "u64 option"
    \<comment> \<open>\<open>None\<close> when the amount cannot be unblinded\<close>

datatype owned_amount = OwnedAmount (owned_sub_index: sub_index) (owned_amount: u64)

datatype ('e, 'r, 'm) scanner_error =
    Unblind sub_index
  | ScanStorage "'e storage_error"
  | Threading
  | OwnedOutputCheck 'm
  | OutputTarget
  | OutputIndex
  | ScanRpc 'r
  | ScanBlockCache "'r block_cache_error"
  | ScanTxpoolCache "'r txpool_cache_error"

record ('s, 'w) scanner =
  sc_store :: "'s option"
  sc_block_cache :: block_cache
  sc_txpool_cache :: txpool_cache
  sc_publisher :: publisher
  sc_channels :: channels
  sc_first_scan :: bool
  sc_world :: 'w

section \<open>Finding owned outputs\<close>

definition output_key_is_unique ::
  "('s, 'e) storage \<Rightarrow> owned_tx_out \<Rightarrow> hash \<Rightarrow> 's option
     \<Rightarrow> (bool, ('e, 'r, 'm) scanner_error) result \<times> 's option" where
  "output_key_is_unique S out txh mgr =
     (if 255 < out_index out then (Err OutputIndex, mgr)
      else
        let oid = OutputId txh (of_nat (out_index out))
        in try_st (map_err_st ScanStorage (client_get_output_key_id S (out_key out) mgr))
             (\<lambda>maybe_stored mgr'.
                case maybe_stored of
                  Some stored \<Rightarrow> (Ok (stored = oid), mgr')
                | None \<Rightarrow>
                    try_st (map_err_st ScanStorage (client_insert_output_key S (out_key out) oid mgr'))
                      (\<lambda>_ mgr''. (Ok True, mgr''))))"

text \<open>\<open>entry(tx_hash).or_insert_with(Vec::new).push(amount)\<close>\<close>

definition entry_push :: "'k \<Rightarrow> 'v \<Rightarrow> ('k, 'v list) hash_map \<Rightarrow> ('k, 'v list) hash_map" where
  "entry_push k v m = im_insert k ((case map_of m k of Some vs \<Rightarrow> vs | None \<Rightarrow> []) @ [v]) m"

fun scan_outputs ::
  "('s, 'e) storage \<Rightarrow> hash \<Rightarrow> owned_tx_out list \<Rightarrow> (hash, owned_amount list) hash_map \<Rightarrow> 's option
     \<Rightarrow> ((hash, owned_amount list) hash_map, ('e, 'r, 'm) scanner_error) result \<times> 's option" where
  "scan_outputs S txh [] acc mgr = (Ok acc, mgr)"
| "scan_outputs S txh (out # outs) acc mgr =
     try_st (output_key_is_unique S out txh mgr) (\<lambda>unique mgr1.
       if \<not> unique then scan_outputs S txh outs acc mgr1
       else
         try_st (map_err_st ScanStorage (client_contains_sub_index S (out_sub_index out) mgr1))
           (\<lambda>tracked mgr2.
              if tracked then
                (case out_amount out of
                   Some a \<Rightarrow> scan_outputs S txh outs (entry_push txh (OwnedAmount (out_sub_index out) a) acc) mgr2
                 | None \<Rightarrow> (Err (Unblind (out_sub_index out)), mgr2))
              else scan_outputs S txh outs acc mgr2))"

fun scan_owned ::
  "('s, 'e) storage \<Rightarrow> (hash \<times> owned_tx_out list) list \<Rightarrow> (hash, owned_amount list) hash_map \<Rightarrow> 's option
     \<Rightarrow> ((hash, owned_amount list) hash_map, ('e, 'r, 'm) scanner_error) result \<times> 's option" where
  "scan_owned S [] acc mgr = (Ok acc, mgr)"
| "scan_owned S ((txh, outs) # rest) acc mgr =
     try_st (scan_outputs S txh outs acc mgr) (\<lambda>acc' mgr'. scan_owned S rest acc' mgr')"

definition owned_outputs ::
  "(transaction \<Rightarrow> (owned_tx_out list, 'm) result) \<Rightarrow> transaction list
     \<Rightarrow> ((hash \<times> owned_tx_out list) list, ('e, 'r, 'm) scanner_error) result" where
  "owned_outputs check txs =
     collect_results (map (\<lambda>tx. map_ok (\<lambda>outs. (tx_hash tx, outs)) (map_err OwnedOutputCheck (check tx)))
       (filter (\<lambda>tx. unlock_time tx = 0) txs))"

definition scan_transactions ::
  "('s, 'e) storage \<Rightarrow> (transaction \<Rightarrow> (owned_tx_out list, 'm) result) \<Rightarrow> transaction list \<Rightarrow> 's option
     \<Rightarrow> ((hash, owned_amount list) hash_map, ('e, 'r, 'm) scanner_error) result \<times> 's option" where
  "scan_transactions S check txs mgr =
     try_st (owned_outputs check txs, mgr) (\<lambda>owned mgr'. scan_owned S owned [] mgr')"

section \<open>Scanning blocks and the pool\<close>

definition block_transfers :: "u64 \<Rightarrow> (hash, owned_amount list) hash_map \<Rightarrow> (sub_index \<times> transfer) list" where
  "block_transfers h amounts =
     map (\<lambda>a. (owned_sub_index a, Transfer (owned_amount a) (Some h))) (concat (map snd amounts))"

text \<open>The loop over the depths, deepest first; an index beyond the cache panics.\<close>

fun scan_depths ::
  "('s, 'e) storage \<Rightarrow> (transaction \<Rightarrow> (owned_tx_out list, 'm) result) \<Rightarrow> block_cache \<Rightarrow> nat list
     \<Rightarrow> (sub_index \<times> transfer) list \<Rightarrow> 's option
     \<Rightarrow> ((sub_index \<times> transfer) list, ('e, 'r, 'm) scanner_error) result \<times> 's option" where
  "scan_depths S check c [] ts mgr = (Ok ts, mgr)"
| "scan_depths S check c (i # is) ts mgr =
     (if i < length (bc_blocks c) then
        try_st (scan_transactions S check (block_txs (bc_blocks c ! i)) mgr) (\<lambda>amounts mgr'.
          scan_depths S check c is (ts @ block_transfers (bc_height c - of_nat i) amounts) mgr')
      else (Panic, mgr))"

definition scan_blocks ::
  "('s, 'e) storage \<Rightarrow> (transaction \<Rightarrow> (owned_tx_out list, 'm) result) \<Rightarrow> bool \<Rightarrow> block_cache \<Rightarrow> nat
     \<Rightarrow> 's option \<Rightarrow> ((sub_index \<times> transfer) list, ('e, 'r, 'm) scanner_error) result \<times> 's option" where
  "scan_blocks S check first c blocks_updated mgr =
     scan_depths S check c (rev [0..<(if first then length (bc_blocks c) else blocks_updated)]) [] mgr"

definition pool_transfers ::
  "(hash, owned_amount list) hash_map \<Rightarrow> (hash, (sub_index \<times> transfer) list) hash_map" where
  "pool_transfers amounts =
     map (\<lambda>(h, as). (h, map (\<lambda>a. (owned_sub_index a, Transfer (owned_amount a) None)) as)) amounts"

definition scan_txpool ::
  "('s, 'e) storage \<Rightarrow> (transaction \<Rightarrow> (owned_tx_out list, 'm) result) \<Rightarrow> transaction list
     \<Rightarrow> txpool_cache \<times> 's option
     \<Rightarrow> ((sub_index \<times> transfer) list, ('e, 'r, 'm) scanner_error) result \<times> (txpool_cache \<times> 's option)" where
  "scan_txpool S check new_transactions st =
     (let discovered = tp_discovered (fst st)
      in try_st (on_world (scan_transactions S check new_transactions) st) (\<lambda>amounts (c, mgr).
           let new_transfers = pool_transfers amounts;
               ts = im_extend new_transfers discovered
           in (Ok (concat (map snd ts)), (insert_transfers new_transfers c, mgr))))"

section \<open>Updating caches and invoices\<close>

definition update_caches ::
  "('w, 'r) monerod \<Rightarrow> ('s, 'w) scanner
     \<Rightarrow> (nat \<times> transaction list, ('e, 'r, 'm) scanner_error) result \<times> ('s, 'w) scanner" where
  "update_caches D self =
     (let (r, (bc, w)) = block_cache_update D (sc_block_cache self, sc_world self);
          self1 = self\<lparr>sc_block_cache := bc, sc_world := w\<rparr>
      in try_st (map_err ScanBlockCache r, self1) (\<lambda>blocks_updated self1.
           let (r', (tp, w')) = txpool_cache_update D (sc_txpool_cache self1, sc_world self1);
               self2 = self1\<lparr>sc_txpool_cache := tp, sc_world := w'\<rparr>
           in try_st (map_err ScanTxpoolCache r', self2) (\<lambda>new_transactions self2.
                (Ok (blocks_updated, new_transactions), self2))))"

definition update_invoices ::
  "('s, 'e) storage \<Rightarrow> (sub_index \<times> transfer) list \<Rightarrow> nat \<Rightarrow> u64 \<Rightarrow> 's option
     \<Rightarrow> (invoice list, ('e, 'r, 'm) scanner_error) result \<times> 's option" where
  "update_invoices S ts blocks_updated cache_height mgr =
     (let deepest_update = cache_height - of_nat blocks_updated + 1
      in map_err_st ScanStorage
           (client_try_for_each_invoice S (update_closure ts deepest_update cache_height) [] mgr))"

text \<open>Saving and publishing; an invoice that cannot be saved is logged and skipped.\<close>

fun save_invoices ::
  "('s, 'e) storage \<Rightarrow> invoice list \<Rightarrow> ('s, 'w) scanner \<Rightarrow> ('s, 'w) scanner" where
  "save_invoices S [] self = self"
| "save_invoices S (v # vs) self =
     (let (r, mgr) = client_update_invoice S v (sc_store self);
          self1 = self\<lparr>sc_store := mgr\<rparr>
      in case r of
           Ok _ \<Rightarrow>
             (let (pub, chans) = send_updates v (sc_publisher self1) (sc_channels self1)
              in save_invoices S vs (self1\<lparr>sc_publisher := pub, sc_channels := chans\<rparr>))
         | _ \<Rightarrow> save_invoices S vs self1)"

text \<open>A storage call made through the scanner's client.\<close>

definition on_store ::
  "('s option \<Rightarrow> ('a, 'e storage_error) result \<times> 's option) \<Rightarrow> ('s, 'w) scanner
     \<Rightarrow> ('a, ('e, 'r, 'm) scanner_error) result \<times> ('s, 'w) scanner" where
  "on_store f self = (let (r, mgr) = f (sc_store self) in (map_err ScanStorage r, self\<lparr>sc_store := mgr\<rparr>))"

text \<open>
  The three parts of \<open>scan\<close>: updating the caches, finding transfers in the blocks and the pool
  (ending with \<open>first_scan = false\<close>), and updating the stored invoices.
\<close>

definition find_transfers ::
  "('s, 'e) storage \<Rightarrow> (transaction \<Rightarrow> (owned_tx_out list, 'm) result) \<Rightarrow> nat \<Rightarrow> transaction list
     \<Rightarrow> ('s, 'w) scanner
     \<Rightarrow> ((sub_index \<times> transfer) list, ('e, 'r, 'm) scanner_error) result \<times> ('s, 'w) scanner" where
  "find_transfers S check blocks_updated new_transactions self =
     (let (rb, mgr1) = scan_blocks S check (sc_first_scan self) (sc_block_cache self) blocks_updated (sc_store self)
      in if rb = Panic then (Panic, self\<lparr>sc_store := mgr1\<rparr>)
         else
           let (rt, (tp, mgr2)) = scan_txpool S check new_transactions (sc_txpool_cache self, mgr1)
           in try_st (rb, self\<lparr>sc_txpool_cache := tp, sc_store := mgr2\<rparr>) (\<lambda>blocks_amounts self2.
                try_st (rt, self2) (\<lambda>txpool_amounts self2.
                  (Ok (blocks_amounts @ txpool_amounts), self2\<lparr>sc_first_scan := False\<rparr>))))"

definition apply_transfers ::
  "('s, 'e) storage \<Rightarrow> (sub_index \<times> transfer) list \<Rightarrow> nat \<Rightarrow> ('s, 'w) scanner
     \<Rightarrow> (unit, ('e, 'r, 'm) scanner_error) result \<times> ('s, 'w) scanner" where
  "apply_transfers S ts blocks_updated self =
     (let (ru, mgr) = update_invoices S ts blocks_updated (bc_height (sc_block_cache self)) (sc_store self)
      in try_st (ru, self\<lparr>sc_store := mgr\<rparr>) (\<lambda>updated_invoices self1.
           let self2 = save_invoices S updated_invoices self1
           in try_st (on_store (client_upsert_height S (bc_height (sc_block_cache self2))) self2)
                (\<lambda>_ self3. on_store (client_flush S) self3)))"

definition scan ::
  "('s, 'e) storage \<Rightarrow> ('w, 'r) monerod \<Rightarrow> (transaction \<Rightarrow> (owned_tx_out list, 'm) result) \<Rightarrow> ('s, 'w) scanner
     \<Rightarrow> (unit, ('e, 'r, 'm) scanner_error) result \<times> ('s, 'w) scanner" where
  "scan S D check self =
     try_st (update_caches D self) (\<lambda>(blocks_updated, new_transactions) self1.
       try_st (find_transfers S check blocks_updated new_transactions self1) (\<lambda>ts self2.
         apply_transfers S ts blocks_updated self2))"

section \<open>Creating a scanner\<close>

definition last_height ::
  "('s, 'e) storage \<Rightarrow> 's option \<Rightarrow> (u64 option, ('e, 'r, 'm) scanner_error) result \<times> 's option" where
  "last_height S mgr =
     try_st (map_err_st ScanStorage (client_get_height S mgr)) (\<lambda>h mgr1.
       case h of
         Some h \<Rightarrow> (Ok (Some h), mgr1)
       | None \<Rightarrow> map_err_st ScanStorage (client_lowest_invoice_height S mgr1))"

definition initial_cache_height :: "u64 option \<Rightarrow> u64 option \<Rightarrow> u64 \<Rightarrow> nat \<Rightarrow> u64" where
  "initial_cache_height last_h initial_height daemon_h block_cache_size =
     max (min (case last_h of Some h \<Rightarrow> h
               | None \<Rightarrow> (case initial_height of Some h \<Rightarrow> h | None \<Rightarrow> daemon_h)) daemon_h)
         (of_nat block_cache_size) - 1"

definition scanner_new ::
  "('s, 'e) storage \<Rightarrow> ('w, 'r) monerod \<Rightarrow> nat \<Rightarrow> u64 option \<Rightarrow> publisher \<Rightarrow> channels \<Rightarrow> 's option \<times> 'w
     \<Rightarrow> (('s, 'w) scanner, ('e, 'r, 'm) scanner_error) result \<times> publisher \<times> ('s option \<times> 'w)" where
  "scanner_new S D block_cache_size initial_height pub chans st =
     (let (rd, w1) = md_daemon_height D (snd st) in
      case rd of
        Ok daemon_h \<Rightarrow>
          (let (rl, mgr1) = last_height S (fst st) in
           case rl of
             Ok last_h \<Rightarrow>
               (let cache_height = initial_cache_height last_h initial_height daemon_h block_cache_size;
                    (rb, w2) = block_cache_init D block_cache_size cache_height daemon_h w1;
                    (rt, w3) = txpool_cache_init D w2;
                    (ri, mgr2) = client_get_invoice_ids S mgr1
                in case ri of
                     Ok ids \<Rightarrow>
                       (let pub' = foldl (\<lambda>p i. publisher_insert_invoice i p) pub ids
                        in (and_then (map_err ScanBlockCache rb) (\<lambda>bc.
                              map_ok (\<lambda>tp. \<lparr>sc_store = mgr2, sc_block_cache = bc, sc_txpool_cache = tp,
                                sc_publisher = pub', sc_channels = chans, sc_first_scan = True,
                                sc_world = w3\<rparr>) (map_err ScanTxpoolCache rt)),
                            pub', (mgr2, w3)))
                   | Err e \<Rightarrow> (Err (ScanStorage e), pub, (mgr2, w3))
                   | Panic \<Rightarrow> (Panic, pub, (mgr2, w3)))
           | Err e \<Rightarrow> (Err e, pub, (mgr1, w1))
           | Panic \<Rightarrow> (Panic, pub, (mgr1, w1)))
      | Err e \<Rightarrow> (Err (ScanRpc e), pub, (fst st, w1))
      | Panic \<Rightarrow> (Panic, pub, (fst st, w1)))"

section \<open>What scanning does to the store\<close>

text \<open>
  Looking for outputs only adds output keys: the relation between the store before and after, for
  any store that keeps the trait's contract.
\<close>

definition scan_le ::
  "('s \<Rightarrow> bool) \<Rightarrow> ('s \<Rightarrow> 'i) \<Rightarrow> ('s \<Rightarrow> output_pub_key \<Rightarrow> output_id option)
     \<Rightarrow> 's option \<Rightarrow> 's option \<Rightarrow> bool" where
  "scan_le ok invoices out_keys m m' \<longleftrightarrow>
     (\<forall>s'. m' = Some s' \<longrightarrow> (\<exists>s. m = Some s \<and>
        (ok s \<longrightarrow> ok s' \<and> out_keys s \<subseteq>\<^sub>m out_keys s' \<and> invoices s' = invoices s)))"

lemma scan_le_refl [simp]: "scan_le ok iv ks m m"
  by (simp add: scan_le_def)

lemma scan_le_trans: "scan_le ok iv ks a b \<Longrightarrow> scan_le ok iv ks b c \<Longrightarrow> scan_le ok iv ks a c"
  unfolding scan_le_def by (metis map_le_trans)

lemma scan_le_try:
  assumes "scan_le ok iv ks m (snd rs)" and "\<And>a m'. rs = (Ok a, m') \<Longrightarrow> scan_le ok iv ks m' (snd (k a m'))"
  shows "scan_le ok iv ks m (snd (try_st rs k))"
  using assms by (cases "(rs, k)" rule: try_st.cases) (auto intro: scan_le_trans)

lemma scan_le_reading [simp]: "scan_le ok iv ks m (snd (direct (reading f) m))"
  by (cases m) (auto simp: direct_def reading_def scan_le_def split: result.splits)

context full_storage
begin

abbreviation le_store :: "'s option \<Rightarrow> 's option \<Rightarrow> bool" where
  "le_store \<equiv> scan_le wf invoices out_keys"

lemma insert_key_le: "le_store m (snd (direct (key_insert S k oid) m))"
proof (cases m)
  case (Some s)
  obtain r s' where r: "key_insert S k oid s = (r, s')" by force
  have "wf s' \<and> out_keys s \<subseteq>\<^sub>m out_keys s' \<and> invoices s' = invoices s" if "wf s"
  proof -
    have "out_keys s \<subseteq>\<^sub>m out_keys s'"
    proof (cases "r = Ok ()")
      case True
      with key_insert_Ok [OF that, of k oid s'] r show ?thesis by (auto simp: map_le_def)
    next
      case False
      with key_insert_fail [OF that r] show ?thesis by simp
    qed
    with key_insert_wf [OF that, of k oid] key_insert_invoices [OF that, of k oid] r show ?thesis by simp
  qed
  then show ?thesis by (auto simp: Some direct_def r scan_le_def split: result.splits)
qed simp

lemma unique_le: "le_store m (snd (output_key_is_unique S out txh m))"
  by (auto simp: output_key_is_unique_def Let_def insert_key_le intro!: scan_le_try split: option.splits)

lemma scan_outputs_le: "le_store m (snd (scan_outputs S txh outs acc m))"
proof (induction outs arbitrary: acc m)
  case (Cons out outs)
  show ?case
    unfolding scan_outputs.simps
  proof (rule scan_le_try [OF unique_le], goal_cases)
    case (1 unique m1)
    show ?case using Cons.IH by (auto intro!: scan_le_try split: option.splits)
  qed
qed simp

lemma scan_owned_le: "le_store m (snd (scan_owned S owned acc m))"
proof (induction owned arbitrary: acc m)
  case (Cons p owned)
  then show ?case by (cases p) (auto intro!: scan_le_try scan_outputs_le)
qed simp

lemma scan_transactions_le: "le_store m (snd (scan_transactions S check txs m))"
  by (auto simp: scan_transactions_def intro!: scan_le_try scan_owned_le)

lemma scan_depths_le: "le_store m (snd (scan_depths S check c is ts m))"
  by (induction "is" arbitrary: ts m) (auto intro!: scan_le_try scan_transactions_le)

lemma scan_blocks_le: "le_store m (snd (scan_blocks S check first c k m))"
  by (simp add: scan_blocks_def scan_depths_le)

lemma scan_txpool_le:
  "le_store m (snd (snd (scan_txpool S check txs (c, m)
     :: (_, ('e, 'r, 'm) scanner_error) result \<times> _)))"
proof -
  obtain r m' where r: "(scan_transactions S check txs m
      :: (_, ('e, 'r, 'm) scanner_error) result \<times> _) = (r, m')" by force
  have "le_store m m'" by (metis r scan_transactions_le snd_conv)
  then show ?thesis
    by (cases r) (auto simp: scan_txpool_def on_world_eq [of "scan_transactions S check txs", OF r] Let_def)
qed

abbreviation keys_le :: "'s option \<Rightarrow> 's option \<Rightarrow> bool" where
  "keys_le \<equiv> scan_le wf (\<lambda>_. ()) out_keys"

lemma keys_le_store: "le_store m m' \<Longrightarrow> keys_le m m'"
  unfolding scan_le_def by metis

lemma update_keys_le: "keys_le m (snd (direct (inv_update S v) m))"
proof (cases m)
  case (Some s)
  obtain r s' where r: "inv_update S v s = (r, s')" by force
  have "wf s' \<and> out_keys s' = out_keys s" if "wf s"
    using update_wf [OF that, of v] update_keys [OF that, of v] r by simp
  then show ?thesis by (auto simp: Some direct_def r scan_le_def split: result.splits)
qed simp

lemma upsert_keys_le: "keys_le m (snd (direct (height_upsert S h) m))"
proof (cases m)
  case (Some s)
  obtain r s' where r: "height_upsert S h s = (r, s')" by force
  have "wf s' \<and> out_keys s' = out_keys s" if "wf s"
    using upsert_wf [OF that, of h] upsert_keys [OF that, of h] r by simp
  then show ?thesis by (auto simp: Some direct_def r scan_le_def split: result.splits)
qed simp

lemma save_keys_le: "keys_le (sc_store self) (sc_store (save_invoices S vs self))"
proof (induction vs arbitrary: self)
  case (Cons v vs)
  obtain r m where r: "direct (inv_update S v) (sc_store self) = (r, m)" by force
  have "keys_le (sc_store self) m" using update_keys_le [of "sc_store self" v] r by simp
  then show ?case
    using scan_le_trans Cons.IH [of "self\<lparr>sc_store := m\<rparr>"]
      Cons.IH [of "self\<lparr>sc_store := m, sc_publisher := p, sc_channels := c\<rparr>" for p c]
    by (auto simp: r Let_def split: result.splits prod.splits intro: scan_le_trans)
qed simp

lemma on_store_keys_le:
  assumes "\<And>m. keys_le m (snd (f m))"
  shows "keys_le (sc_store self) (sc_store (snd (on_store f self)))"
  using assms [of "sc_store self"] by (auto simp: on_store_def split: prod.splits)

lemma update_caches_store [simp]: "sc_store (snd (update_caches D self)) = sc_store self"
proof -
  let ?P = "\<lambda>s. sc_store s = sc_store self"
  show ?thesis
    unfolding update_caches_def Let_def
    by (auto split: prod.splits intro!: try_st_snd [where P = ?P])
qed

lemma update_invoices_store: "snd (update_invoices S ts k H m) = snd (direct (reading (\<lambda>s.
    let (r, acc) = try_for_each S (update_closure ts (H - of_nat k + 1) H) s [] in map_ok (\<lambda>_. acc) r)) m)"
  by (simp add: update_invoices_def Let_def case_prod_beta reading_def [abs_def])

lemma find_transfers_le:
  "le_store (sc_store self) (sc_store (snd (find_transfers S check k txs self
     :: (_, ('e, 'r, 'm) scanner_error) result \<times> _)))"
proof -
  obtain rb m1 where rb: "(scan_blocks S check (sc_first_scan self) (sc_block_cache self) k (sc_store self)
      :: (_, ('e, 'r, 'm) scanner_error) result \<times> _) = (rb, m1)" by force
  obtain rt tp m2 where rt: "(scan_txpool S check txs (sc_txpool_cache self, m1)
      :: (_, ('e, 'r, 'm) scanner_error) result \<times> _) = (rt, (tp, m2))" by (metis prod_cases3)
  have 1: "le_store (sc_store self) m1" by (metis rb scan_blocks_le snd_conv)
  moreover have "le_store m1 m2" by (metis rt scan_txpool_le snd_conv)
  ultimately have 2: "le_store (sc_store self) m2" by (rule scan_le_trans)
  show ?thesis by (cases rb; cases rt) (simp_all add: find_transfers_def rb rt 1 2)
qed

lemma apply_transfers_keys_le:
  "keys_le (sc_store self) (sc_store (snd (apply_transfers S ts k self
     :: (_, ('e, 'r, 'm) scanner_error) result \<times> _)))"
proof -
  let ?P = "\<lambda>s. keys_le (sc_store self) (sc_store s)"
  obtain ru m where ru: "(update_invoices S ts k (bc_height (sc_block_cache self)) (sc_store self)
      :: (_, ('e, 'r, 'm) scanner_error) result \<times> _) = (ru, m)" by force
  have m: "keys_le (sc_store self) m"
    using update_invoices_store [of ts k "bc_height (sc_block_cache self)" "sc_store self"]
    by (metis ru scan_le_reading snd_conv)
  have save: "?P (save_invoices S vs (self\<lparr>sc_store := m\<rparr>))" for vs
    using scan_le_trans [OF m, of "sc_store (save_invoices S vs (self\<lparr>sc_store := m\<rparr>))"]
      save_keys_le [of "self\<lparr>sc_store := m\<rparr>" vs] by simp
  have store: "?P (snd (on_store f s :: (_, ('e, 'r, 'm) scanner_error) result \<times> _))"
    if "?P s" and "\<And>m. keys_le m (snd (f m))"
    for s and f :: "'s option \<Rightarrow> ('x, 'e storage_error) result \<times> 's option"
    using scan_le_trans [OF that(1) on_store_keys_le [of f s, OF that(2)]] .
  show ?thesis
  proof (cases ru)
    case (Ok vs)
    have "?P (snd (try_st (on_store (client_upsert_height S h) (save_invoices S vs (self\<lparr>sc_store := m\<rparr>))
        :: (_, ('e, 'r, 'm) scanner_error) result \<times> _) (\<lambda>_ self3. on_store (client_flush S) self3)))" for h
      by (rule try_st_snd [where P = ?P]) (auto intro!: store save upsert_keys_le)
    then show ?thesis by (simp add: apply_transfers_def ru Ok Let_def)
  qed (simp_all add: apply_transfers_def ru m)
qed

lemma scan_keys_le:
  "keys_le (sc_store self) (sc_store (snd (scan S D check self
     :: (_, ('e, 'r, 'm) scanner_error) result \<times> _)))"
proof -
  let ?P = "\<lambda>s. keys_le (sc_store self) (sc_store s)"
  show ?thesis
    unfolding scan_def
  proof (rule try_st_snd [where P = ?P], simp, goal_cases)
    case (1 kn self1)
    obtain k txs where kn: "kn = (k, txs)" by force
    have "?P (snd (try_st (find_transfers S check k txs self1
        :: (_, ('e, 'r, 'm) scanner_error) result \<times> _) (\<lambda>ts self2. apply_transfers S ts k self2)))"
    proof (rule try_st_snd [where P = ?P], goal_cases)
      case 1
      show ?case by (rule scan_le_trans [OF \<open>?P self1\<close> keys_le_store [OF find_transfers_le]])
    next
      case (2 ts self2)
      then show ?case by (intro scan_le_trans [OF _ apply_transfers_keys_le])
    qed
    then show ?case by (simp add: kn)
  qed
qed

end

end
