(* ===== verification/Scanner_Correct.thy ===== *)
theory Scanner_Correct
  imports Scanner
begin

text \<open>
  What a scan achieves: the effect on the stored invoices, the order of the transfers it finds, the
  protection against reused output keys, and two situations in which payments are miscounted.
\<close>

section \<open>Saving the updated invoices\<close>

lemma save_invoices_frame [simp]:
  "sc_block_cache (save_invoices S vs self) = sc_block_cache self"
  "sc_txpool_cache (save_invoices S vs self) = sc_txpool_cache self"
  "sc_first_scan (save_invoices S vs self) = sc_first_scan self"
  "sc_world (save_invoices S vs self) = sc_world self"
  by (induction vs arbitrary: self) (simp_all add: Let_def split: prod.splits result.splits)

lemma on_store_frame [simp]:
  "sc_block_cache (snd (on_store f self)) = sc_block_cache self"
  "sc_first_scan (snd (on_store f self)) = sc_first_scan self"
  by (simp_all add: on_store_def split: prod.splits)

lemma find_transfers_frame:
  "sc_block_cache (snd (find_transfers S check k txs self)) = sc_block_cache self"
proof -
  let ?P = "\<lambda>s. sc_block_cache s = sc_block_cache self"
  show ?thesis
    unfolding find_transfers_def Let_def
    by (auto split: prod.splits intro!: try_st_snd [where P = ?P])
qed

lemma apply_transfers_frame:
  "sc_block_cache (snd (apply_transfers S ts k self)) = sc_block_cache self"
proof -
  let ?P = "\<lambda>s. sc_block_cache s = sc_block_cache self"
  show ?thesis
    unfolding apply_transfers_def Let_def
    by (auto split: prod.splits intro!: try_st_snd [where P = ?P] simp del: client_calls)
qed

definition updated_invoices ::
  "(sub_index \<times> transfer) list \<Rightarrow> u64 \<Rightarrow> u64 \<Rightarrow> invoice list \<Rightarrow> invoice list" where
  "updated_invoices ts d H olds = List.map_filter (update_one ts d H) olds"

lemma foldl_update_closure:
  "foldl (\<lambda>a x. snd (update_closure ts d H (Ok x :: (invoice, 'e) result) a)) acc olds
     = acc @ updated_invoices ts d H olds"
  by (induction olds arbitrary: acc)
    (auto simp: update_closure_def updated_invoices_def map_filter_simps split: option.splits)

lemma update_invoices_rows:
  fixes S :: "('s, 'e) storage"
  assumes "inv_rows S s = Ok (map Ok olds)"
  shows "update_invoices S ts k H (Some s) = (Ok (updated_invoices ts (H - of_nat k + 1) H olds), Some s)"
proof -
  let ?f = "update_closure ts (H - of_nat k + 1) H"
  have "try_for_each S ?f s [] = (Ok (), foldl (\<lambda>a x. snd (?f (Ok x :: (invoice, 'e) result) a)) [] olds)"
    unfolding try_for_each_def assms result.case
    by (rule try_rows_Ok_append) (simp add: update_closure_def split: option.splits)
  then show ?thesis
    by (simp add: update_invoices_def Let_def direct_def foldl_update_closure)
qed

lemma ident_update_one: "update_one ts d H old = Some v \<Longrightarrow> invoice_ident v = invoice_ident old"
  using ident_refresh [of ts d H old] by (simp add: refresh_def)

context reliable_storage
begin

lemma save_invoices_map:
  assumes "wf s" and "sc_store self = Some s"
    and "\<And>v w. v \<in> set vs \<Longrightarrow> w \<in> set vs \<Longrightarrow> invoice_ident v = invoice_ident w \<Longrightarrow> v = w"
    and "\<And>v. v \<in> set vs \<Longrightarrow> invoices s (invoice_ident v) \<noteq> None"
  shows "\<exists>s'. sc_store (save_invoices S vs self) = Some s' \<and> wf s'
    \<and> (\<forall>v \<in> set vs. invoices s' (invoice_ident v) = Some v)
    \<and> (\<forall>i. i \<notin> invoice_ident ` set vs \<longrightarrow> invoices s' i = invoices s i)"
  using assms
proof (induction vs arbitrary: self s)
  case (Cons v vs)
  obtain old s1 where u: "inv_update S v s = (Ok old, s1)" using update_returns [OF Cons.prems(1)] by blast
  have wf1: "wf s1" using update_wf [OF Cons.prems(1), of v] u by simp
  have inv1: "invoices s1 = (invoices s)(invoice_ident v \<mapsto> v)"
    using update_Ok [OF Cons.prems(1) u] Cons.prems(4) [of v] by auto
  obtain p c where sent: "send_updates v (sc_publisher self) (sc_channels self) = (p, c)" by force
  let ?self = "self\<lparr>sc_store := Some s1, sc_publisher := p, sc_channels := c\<rparr>"
  have step: "save_invoices S (v # vs) self = save_invoices S vs ?self"
    using Cons.prems(2) by (simp add: direct_def u sent)
  have "\<exists>s'. sc_store (save_invoices S vs ?self) = Some s' \<and> wf s'
    \<and> (\<forall>w \<in> set vs. invoices s' (invoice_ident w) = Some w)
    \<and> (\<forall>i. i \<notin> invoice_ident ` set vs \<longrightarrow> invoices s' i = invoices s1 i)"
    by (rule Cons.IH [OF wf1]) (use Cons.prems(3,4) inv1 in auto)
  then obtain s' where s': "sc_store (save_invoices S vs ?self) = Some s'" "wf s'"
    "\<forall>w \<in> set vs. invoices s' (invoice_ident w) = Some w"
    "\<forall>i. i \<notin> invoice_ident ` set vs \<longrightarrow> invoices s' i = invoices s1 i" by blast
  have "invoices s' (invoice_ident v) = Some v"
  proof (cases "invoice_ident v \<in> invoice_ident ` set vs")
    case True
    then obtain w where "w \<in> set vs" "invoice_ident w = invoice_ident v" by force
    then show ?thesis using s'(3) Cons.prems(3) [of w v] by auto
  qed (use s'(4) inv1 in simp)
  with s' show ?case unfolding step using inv1 by (intro exI [of _ s']) auto
qed auto

lemma apply_transfers_effect:
  assumes wf: "wf s" and store: "sc_store self = Some s"
    and run: "apply_transfers S ts k self = (Ok () :: (_, ('e, 'r, 'm) scanner_error) result, self')"
    and H: "H = bc_height (sc_block_cache self)"
  shows "\<exists>s'. sc_store self' = Some s' \<and> wf s' \<and> stored_height s' = Some H \<and>
    invoices s' = (\<lambda>i. map_option (refresh ts (H - of_nat k + 1) H) (invoices s i))"
proof -
  let ?u = "update_one ts (H - of_nat k + 1) H"
  obtain olds where rows: "inv_rows S s = Ok (map Ok olds)" using rows_return [OF wf] by blast
  let ?vs = "updated_invoices ts (H - of_nat k + 1) H olds"
  have old: "v \<in> set olds \<longleftrightarrow> invoices s (invoice_ident v) = Some v" for v
    using rows_sound [OF wf rows, of v] rows_complete [OF wf rows, of "invoice_ident v" v] by auto
  have mem: "v \<in> set ?vs \<longleftrightarrow> (\<exists>old \<in> set olds. ?u old = Some v)" for v
    by (force simp: updated_invoices_def map_filter_def)
  have "\<exists>s1. sc_store (save_invoices S ?vs self) = Some s1 \<and> wf s1
    \<and> (\<forall>v \<in> set ?vs. invoices s1 (invoice_ident v) = Some v)
    \<and> (\<forall>i. i \<notin> invoice_ident ` set ?vs \<longrightarrow> invoices s1 i = invoices s i)"
  proof (rule save_invoices_map [OF wf store])
    fix v w assume "v \<in> set ?vs" "w \<in> set ?vs" and eq: "invoice_ident v = invoice_ident w"
    then obtain a b where ab: "a \<in> set olds" "?u a = Some v" "b \<in> set olds" "?u b = Some w"
      by (auto simp: mem)
    with eq have "invoice_ident a = invoice_ident b" by (metis ident_update_one)
    with ab old have "a = b" by (metis option.inject)
    with ab show "v = w" by simp
  next
    fix v assume "v \<in> set ?vs"
    then show "invoices s (invoice_ident v) \<noteq> None"
      by (auto simp: mem old ident_update_one)
  qed
  then obtain s1 where s1: "sc_store (save_invoices S ?vs self) = Some s1" "wf s1"
    and hit: "\<And>v. v \<in> set ?vs \<Longrightarrow> invoices s1 (invoice_ident v) = Some v"
    and miss: "\<And>i. i \<notin> invoice_ident ` set ?vs \<Longrightarrow> invoices s1 i = invoices s i" by blast
  have after: "invoices s1 i = map_option (refresh ts (H - of_nat k + 1) H) (invoices s i)" for i
  proof (cases "i \<in> invoice_ident ` set ?vs")
    case True
    then obtain v where v: "v \<in> set ?vs" "i = invoice_ident v" by blast
    then obtain old where ov: "old \<in> set olds" "?u old = Some v" by (auto simp: mem)
    with v have "invoices s i = Some old" using old ident_update_one by metis
    with v ov hit show ?thesis by (simp add: refresh_def)
  next
    case False
    have "?u v = None" if "invoices s i = Some v" for v
    proof (rule ccontr)
      assume "?u v \<noteq> None"
      then obtain w where w: "?u v = Some w" by blast
      have i: "invoice_ident v = i" using ident [OF wf that] .
      with that old have "v \<in> set olds" by simp
      with w have "w \<in> set ?vs" by (auto simp: mem)
      with False ident_update_one [OF w] i show False by (metis imageI)
    qed
    with miss [OF False] show ?thesis by (cases "invoices s i") (auto simp: refresh_def)
  qed
  let ?self1 = "save_invoices S ?vs self"
  have self: "self\<lparr>sc_store := Some s\<rparr> = self" using store by (cases self) simp
  have "try_st (on_store (client_upsert_height S H) ?self1) (\<lambda>_ self3. on_store (client_flush S) self3)
      = (Ok () :: (_, ('e, 'r, 'm) scanner_error) result, self')"
    using run by (simp add: apply_transfers_def store update_invoices_rows [OF rows] self H Let_def)
  then obtain old self2 where
      up: "on_store (client_upsert_height S H) ?self1 = (Ok old :: (_, ('e, 'r, 'm) scanner_error) result, self2)"
    and fl: "on_store (client_flush S) self2 = (Ok () :: (_, ('e, 'r, 'm) scanner_error) result, self')"
    by (auto simp: try_st_eq_Ok)
  then obtain s2 where s2: "height_upsert S H s1 = (Ok old, s2)" and self2: "sc_store self2 = Some s2"
    using s1(1) by (auto simp: on_store_def direct_Ok split: prod.splits)
  have "sc_store self' = Some s2"
    using fl self2 by (auto simp: on_store_def direct_Ok reading_def split: prod.splits)
  moreover have "wf s2" "stored_height s2 = Some H" "invoices s2 = invoices s1"
    using upsert_wf [OF s1(2), of H] upsert_Ok [OF s1(2) s2] upsert_invoices [OF s1(2), of H] s2 by simp_all
  ultimately show ?thesis using after by auto
qed

text \<open>The three parts of a successful scan, and the store the last one starts from.\<close>

lemma scan_parts:
  fixes self :: "('s, 'w) scanner" and D :: "('w, 'r) monerod"
    and check :: "transaction \<Rightarrow> (owned_tx_out list, 'm) result"
  assumes wf: "wf s" and store: "sc_store self = Some s" and run: "scan S D check self = (Ok (), self')"
  obtains k txs self1 ts self2 s2 where
    "update_caches D self = (Ok (k, txs) :: (_, ('e, 'r, 'm) scanner_error) result, self1)"
    and "find_transfers S check k txs self1 = (Ok ts :: (_, ('e, 'r, 'm) scanner_error) result, self2)"
    and "apply_transfers S ts k self2 = (Ok () :: (_, ('e, 'r, 'm) scanner_error) result, self')"
    and "sc_store self2 = Some s2" and "wf s2" and "invoices s2 = invoices s"
proof -
  from run obtain k txs self1 ts self2 where
      uc: "update_caches D self = (Ok (k, txs) :: (_, ('e, 'r, 'm) scanner_error) result, self1)"
      and ft: "find_transfers S check k txs self1 = (Ok ts :: (_, ('e, 'r, 'm) scanner_error) result, self2)"
      and at: "apply_transfers S ts k self2 = (Ok () :: (_, ('e, 'r, 'm) scanner_error) result, self')"
    by (auto simp: scan_def try_st_eq_Ok)
  have st1: "sc_store self1 = Some s" by (metis snd_conv store uc update_caches_store)
  have "le_store (sc_store self1) (sc_store self2)" by (metis find_transfers_le ft snd_conv)
  moreover have "sc_store self2 \<noteq> None"
  proof
    assume "sc_store self2 = None"
    with at show False by (simp add: apply_transfers_def update_invoices_def Let_def)
  qed
  ultimately obtain s2 where "sc_store self2 = Some s2" "wf s2" "invoices s2 = invoices s"
    using wf st1 by (auto simp: scan_le_def)
  with uc ft at show thesis by (rule that)
qed

lemma scan_effect:
  fixes self :: "('s, 'w) scanner" and D :: "('w, 'r) monerod"
    and check :: "transaction \<Rightarrow> (owned_tx_out list, 'm) result"
  assumes wf: "wf s" and store: "sc_store self = Some s" and run: "scan S D check self = (Ok (), self')"
  obtains k txs self1 ts self2 s' H where
    "update_caches D self = (Ok (k, txs) :: (_, ('e, 'r, 'm) scanner_error) result, self1)"
    and "find_transfers S check k txs self1 = (Ok ts :: (_, ('e, 'r, 'm) scanner_error) result, self2)"
    and "H = bc_height (sc_block_cache self')" and "sc_block_cache self1 = sc_block_cache self'"
    and "sc_store self' = Some s'" and "wf s'" and "stored_height s' = Some H"
    and "invoices s' = (\<lambda>i. map_option (refresh ts (H - of_nat k + 1) H) (invoices s i))"
proof -
  obtain k txs self1 ts self2 s2 where
      uc: "update_caches D self = (Ok (k, txs) :: (_, ('e, 'r, 'm) scanner_error) result, self1)"
      and ft: "find_transfers S check k txs self1 = (Ok ts :: (_, ('e, 'r, 'm) scanner_error) result, self2)"
      and at: "apply_transfers S ts k self2 = (Ok () :: (_, ('e, 'r, 'm) scanner_error) result, self')"
      and s2: "sc_store self2 = Some s2" "wf s2" "invoices s2 = invoices s"
    by (rule scan_parts [OF wf store run])
  have bc: "sc_block_cache self2 = sc_block_cache self1" "sc_block_cache self' = sc_block_cache self2"
    by (metis find_transfers_frame ft snd_conv, metis apply_transfers_frame at snd_conv)
  obtain s' where "sc_store self' = Some s' \<and> wf s' \<and>
      stored_height s' = Some (bc_height (sc_block_cache self2)) \<and>
      invoices s' = (\<lambda>i. map_option (refresh ts (bc_height (sc_block_cache self2) - of_nat k + 1)
        (bc_height (sc_block_cache self2))) (invoices s2 i))"
    using apply_transfers_effect [OF s2(2,1) at refl] by blast
  then show thesis using that [OF uc ft refl _ _ _ _ _] bc s2(3) by simp
qed

end

section \<open>The transfers a scan finds\<close>

lemma block_transfers_height: "p \<in> set (block_transfers h amounts) \<Longrightarrow> height (snd p) = Some h"
  by (auto simp: block_transfers_def)

lemma height_ordered_same: "(\<And>t. t \<in> set ts \<Longrightarrow> height t = Some h) \<Longrightarrow> height_ordered ts"
  by (induction ts) (auto simp: height_ordered_def cmp_by_height_def cmp_def)

lemma sub_le_sub:
  assumes "j \<le> i" and "i \<le> unat (H :: u64)"
  shows "H - of_nat i \<le> H - of_nat j" and "unat (H - of_nat i) = unat H - i"
proof -
  have sub: "unat (H - of_nat m) = unat H - m" if "m \<le> unat H" for m
  proof -
    have m: "unat (of_nat m :: u64) = m"
      using that unat_u64_less [of H] by (intro unat_of_nat_u64) simp
    then have "(of_nat m :: u64) \<le> H" using that by (simp add: word_le_nat_alt)
    then show ?thesis by (simp add: unat_sub m)
  qed
  show "unat (H - of_nat i) = unat H - i" using sub assms by simp
  show "H - of_nat i \<le> H - of_nat j"
    using sub [of i] sub [of j] assms by (simp add: word_le_nat_alt)
qed

lemma scan_depths_found:
  fixes S :: "('s, 'e) storage" and check :: "transaction \<Rightarrow> (owned_tx_out list, 'm) result"
  assumes "scan_depths S check c is ts m = (Ok ts' :: (_, ('e, 'r, 'm) scanner_error) result, m')"
    and "sorted_wrt (>) is" and "\<And>i. i \<in> set is \<Longrightarrow> i \<le> unat (bc_height c)"
  shows "\<exists>new. ts' = ts @ new \<and> height_ordered (map snd new)
    \<and> (\<forall>p \<in> set new. \<exists>i \<in> set is. height (snd p) = Some (bc_height c - of_nat i))
    \<and> (\<forall>i \<in> set is. i < length (bc_blocks c))"
  using assms
proof (induction "is" arbitrary: ts m)
  case (Cons i "is")
  let ?H = "bc_height c"
  from Cons.prems(1) have i: "i < length (bc_blocks c)" by (simp split: if_splits)
  from Cons.prems(1) i obtain amounts m1 where
    rest: "scan_depths S check c is (ts @ block_transfers (?H - of_nat i) amounts) m1
      = (Ok ts' :: (_, ('e, 'r, 'm) scanner_error) result, m')"
    by (auto simp: try_st_eq_Ok)
  let ?b = "block_transfers (?H - of_nat i) amounts"
  have "\<exists>new. ts' = (ts @ ?b) @ new \<and> height_ordered (map snd new)
    \<and> (\<forall>p \<in> set new. \<exists>j \<in> set is. height (snd p) = Some (?H - of_nat j))
    \<and> (\<forall>j \<in> set is. j < length (bc_blocks c))"
    by (rule Cons.IH [OF rest]) (use Cons.prems(2,3) in auto)
  then obtain new where new: "ts' = (ts @ ?b) @ new" "height_ordered (map snd new)"
      "\<forall>p \<in> set new. \<exists>j \<in> set is. height (snd p) = Some (?H - of_nat j)"
      "\<forall>j \<in> set is. j < length (bc_blocks c)"
    by (elim exE conjE) (rule that)
  have "cmp_by_height (snd x) (snd y) \<noteq> Greater" if xy: "x \<in> set ?b" "y \<in> set new" for x y
  proof -
    obtain j where j: "j \<in> set is" "height (snd y) = Some (?H - of_nat j)"
      using bspec [OF new(3) xy(2)] by (elim bexE)
    then have "?H - of_nat i \<le> ?H - of_nat j"
      using Cons.prems(2,3) by (intro sub_le_sub(1)) auto
    then show ?thesis using block_transfers_height [OF xy(1)] j by (simp add: cmp_by_height_def)
  qed
  moreover have "height_ordered (map snd ?b)"
    by (rule height_ordered_same) (auto dest: block_transfers_height)
  ultimately have "height_ordered (map snd (?b @ new))"
    using new(2) by (auto simp: height_ordered_append)
  with new i show ?case
    using block_transfers_height [of _ "?H - of_nat i" amounts] by (intro exI [of _ "?b @ new"]) auto
qed (simp add: height_ordered_def)

lemma scan_depths_in_range:
  fixes S :: "('s, 'e) storage" and check :: "transaction \<Rightarrow> (owned_tx_out list, 'm) result"
  assumes "scan_depths S check c is ts m = (Ok ts' :: (_, ('e, 'r, 'm) scanner_error) result, m')"
  shows "\<forall>i \<in> set is. i < length (bc_blocks c)"
  using assms by (induction "is" arbitrary: ts m) (auto simp: try_st_eq_Ok split: if_splits)

text \<open>Transfers from the pool have no height.\<close>

definition pool_only :: "(hash, (sub_index \<times> transfer) list) hash_map \<Rightarrow> bool" where
  "pool_only m \<longleftrightarrow> (\<forall>e \<in> set m. \<forall>p \<in> set (snd e). height (snd p) = None)"

lemma pool_only_transfers [simp]: "pool_only (pool_transfers amounts)"
  by (auto simp: pool_only_def pool_transfers_def)

lemma pool_only_Cons [simp]: "pool_only (e # m) \<longleftrightarrow> (\<forall>p \<in> set (snd e). height (snd p) = None) \<and> pool_only m"
  by (simp add: pool_only_def)

lemma pool_only_insert: "pool_only m \<Longrightarrow> \<forall>p \<in> set v. height (snd p) = None \<Longrightarrow> pool_only (im_insert k v m)"
  by (induction m) (auto simp: pool_only_def [of "[]"])

lemma pool_only_extend: "pool_only m \<Longrightarrow> pool_only m' \<Longrightarrow> pool_only (im_extend m m')"
  by (induction m' arbitrary: m) (simp_all add: pool_only_insert)

lemma scan_txpool_found:
  assumes "scan_txpool S check txs (c, m) = (Ok ts, (c', m'))" and "pool_only (tp_discovered c)"
  shows "(\<forall>p \<in> set ts. height (snd p) = None) \<and> pool_only (tp_discovered c')"
proof -
  obtain amounts where ts: "ts = concat (map snd (im_extend (pool_transfers amounts) (tp_discovered c)))"
    and c': "c' = insert_transfers (pool_transfers amounts) c"
    using assms(1) by (auto simp: scan_txpool_def Let_def try_st_eq_Ok on_world_Ok)
  have "pool_only (im_extend (pool_transfers amounts) (tp_discovered c))"
    "pool_only (im_extend (tp_discovered c) (pool_transfers amounts))"
    using assms(2) by (simp_all add: pool_only_extend)
  then show ?thesis by (auto simp: ts c' insert_transfers_def pool_only_def)
qed

lemma pool_only_update_caches:
  "pool_only (tp_discovered (sc_txpool_cache self)) \<Longrightarrow>
     pool_only (tp_discovered (sc_txpool_cache (snd (update_caches D self))))"
proof -
  let ?P = "\<lambda>s. pool_only (tp_discovered (sc_txpool_cache s))"
  assume "?P self"
  moreover have "pool_only (tp_discovered c')"
    if "txpool_cache_update D (c, w) = (r, (c', w'))" "pool_only (tp_discovered c)" for c w r c' w'
    using update_discovered_subset [of D "(c, w)"] that by (auto simp: pool_only_def)
  ultimately show ?thesis
    unfolding update_caches_def Let_def
    by (auto split: prod.splits intro!: try_st_snd [where P = ?P])
qed

lemma update_caches_first [simp]: "sc_first_scan (snd (update_caches D self)) = sc_first_scan self"
proof -
  obtain r bc w where b: "block_cache_update D (sc_block_cache self, sc_world self) = (r, (bc, w))"
    by (metis prod_cases3)
  obtain r' tp w' where "txpool_cache_update D (sc_txpool_cache self, w) = (r', (tp, w'))"
    by (metis prod_cases3)
  with b show ?thesis by (cases r; cases r') (simp_all add: update_caches_def)
qed

lemma total_refresh:
  "total (transfers (refresh ts d H v)) = total (retain_transfers d (transfers v)) + total (matching v ts)"
proof -
  have "total (transfers (refresh ts d H v)) = total (retain_transfers d (transfers v) @ matching v ts)"
    by (rule total_mset) (use refresh_frame [of ts d H v] in simp)
  then show ?thesis by simp
qed

lemma find_transfers_found:
  fixes S :: "('s, 'e) storage" and check :: "transaction \<Rightarrow> (owned_tx_out list, 'm) result"
  assumes run: "find_transfers S check k txs self = (Ok ts :: (_, ('e, 'r, 'm) scanner_error) result, self')"
    and "\<not> sc_first_scan self" and "pool_only (tp_discovered (sc_txpool_cache self))"
    and "length (bc_blocks (sc_block_cache self)) \<le> unat (bc_height (sc_block_cache self))"
  shows "scan_result (bc_height (sc_block_cache self) - of_nat k + 1) ts"
    and "k \<le> length (bc_blocks (sc_block_cache self))"
proof -
  let ?c = "sc_block_cache self" let ?H = "bc_height ?c"
  obtain rb m1 where b: "(scan_depths S check ?c (rev [0..<k]) [] (sc_store self)
      :: (_, ('e, 'r, 'm) scanner_error) result \<times> _) = (rb, m1)" by force
  obtain rt tp m2 where p: "(scan_txpool S check txs (sc_txpool_cache self, m1)
      :: (_, ('e, 'r, 'm) scanner_error) result \<times> _) = (rt, (tp, m2))" by (metis prod_cases3)
  obtain bts pts where rb: "rb = Ok bts" and rt: "rt = Ok pts" and ts: "ts = bts @ pts"
    using run assms(2) by (cases rb; cases rt) (simp_all add: find_transfers_def scan_blocks_def b p)
  have rev: "sorted_wrt (>) (rev [0..<k])" by (simp add: sorted_wrt_rev)
  have "\<forall>i \<in> set (rev [0..<k]). i < length (bc_blocks ?c)"
    using scan_depths_in_range [OF b [unfolded rb]] .
  then show kH: "k \<le> length (bc_blocks ?c)" by (cases k) auto
  have pool: "\<forall>q \<in> set pts. height (snd q) = None"
    using scan_txpool_found [OF p [unfolded rt]] assms(3) by simp
  have "\<exists>new. bts = [] @ new \<and> height_ordered (map snd new)
    \<and> (\<forall>q \<in> set new. \<exists>i \<in> set (rev [0..<k]). height (snd q) = Some (?H - of_nat i))
    \<and> (\<forall>i \<in> set (rev [0..<k]). i < length (bc_blocks ?c))"
    by (rule scan_depths_found [OF b [unfolded rb] rev]) (use kH assms(4) in auto)
  then obtain new where new: "bts = new" "height_ordered (map snd new)"
      "\<forall>q \<in> set new. \<exists>i \<in> set (rev [0..<k]). height (snd q) = Some (?H - of_nat i)"
    by (elim exE conjE) (rule that, simp_all)
  have ord: "height_ordered (map snd bts)" using new by simp
  have hs: "\<exists>i < k. height (snd q) = Some (?H - of_nat i)" if "q \<in> set bts" for q
    using bspec [OF new(3), of q] that new(1) by auto
  have "?H - of_nat k + 1 \<le> ?H - of_nat i" if "i < k" for i
  proof -
    have "?H - of_nat k + 1 = ?H - of_nat (k - 1)" using that by (simp add: of_nat_diff)
    also have "\<dots> \<le> ?H - of_nat i" using that kH assms(4) by (intro sub_le_sub(1)) auto
    finally show ?thesis .
  qed
  with hs have "\<not> below (?H - of_nat k + 1) (snd q)" if "q \<in> set bts" for q
    using that by (fastforce simp: cmp_by_height_Less_Some)
  moreover have "\<not> below d (snd q)" if "q \<in> set pts" for q d
    using pool that by (simp add: cmp_by_height_Less_Some)
  moreover have "height_ordered (map snd pts)"
    using pool by (induction pts) (auto simp: height_ordered_def cmp_by_height_def)
  moreover have "cmp_by_height (snd x) (snd y) \<noteq> Greater" if "x \<in> set bts" "y \<in> set pts" for x y
    using hs [OF that(1)] pool that(2) by (auto simp: cmp_by_height_def)
  ultimately show "scan_result (?H - of_nat k + 1) ts"
    using ord by (auto simp: scan_result_def ts height_ordered_append)
qed

section \<open>Output keys\<close>

context full_storage
begin

lemma unique_bound:
  assumes "wf s" and "m = Some s \<or> m = None" and "out_keys s (out_key out) = Some oid"
    and "OutputId txh (of_nat (out_index out)) \<noteq> oid"
  shows "fst (output_key_is_unique S out txh m) \<noteq> Ok True"
proof (cases m)
  case (Some s')
  with assms(2) have "s' = s" by simp
  moreover have "x = Some oid" if "key_get S (out_key out) s = Ok x" for x
    using key_get_Ok [OF assms(1) that] assms(3) by simp
  ultimately show ?thesis using Some assms(4)
    by (cases "key_get S (out_key out) s")
      (auto simp: output_key_is_unique_def direct_def reading_def Let_def)
qed (simp add: output_key_is_unique_def)

end

text \<open>Any number of scans, one after the other.\<close>

inductive scans ::
  "('s, 'e) storage \<Rightarrow> ('w, 'r) monerod \<Rightarrow> (transaction \<Rightarrow> (owned_tx_out list, 'm) result)
     \<Rightarrow> ('s, 'w) scanner \<Rightarrow> ('s, 'w) scanner \<Rightarrow> bool"
  for S :: "('s, 'e) storage" and D :: "('w, 'r) monerod"
    and check :: "transaction \<Rightarrow> (owned_tx_out list, 'm) result" where
  scans_refl: "scans S D check self self"
| scans_step: "scans S D check self self1 \<Longrightarrow> scan S D check self1 = (r :: (unit, ('e, 'r, 'm) scanner_error) result, self2)
     \<Longrightarrow> scans S D check self self2"

context full_storage
begin

lemma scans_keys_le: "scans S D check self self' \<Longrightarrow> keys_le (sc_store self) (sc_store self')"
proof (induction rule: scans.induct)
  case (scans_step self self1 r self2)
  have "keys_le (sc_store self1) (sc_store self2)" by (metis scan_keys_le scans_step.hyps(2) snd_conv)
  with scans_step.IH show ?case by (rule scan_le_trans)
qed simp

lemma scans_key_bound:
  assumes "scans S D check self self'" and "sc_store self = Some s" and "wf s" and "out_keys s key = Some oid"
  shows "sc_store self' = None \<or> (\<exists>s'. sc_store self' = Some s' \<and> wf s' \<and> out_keys s' key = Some oid)"
proof (cases "sc_store self'")
  case (Some s')
  with scans_keys_le [OF assms(1)] assms(2,3) have "wf s'" "out_keys s \<subseteq>\<^sub>m out_keys s'"
    by (auto simp: scan_le_def)
  with assms(4) have "wf s'" "out_keys s' key = Some oid" by (auto simp: map_le_def dom_def)
  with Some show ?thesis by simp
qed simp

lemma key_never_credited_again:
  assumes "scans S D check self self'" and "sc_store self = Some s" and "wf s"
    and "out_keys s (out_key out) = Some oid" and "OutputId txh (of_nat (out_index out)) \<noteq> oid"
  shows "fst (output_key_is_unique S out txh (sc_store self')) \<noteq> Ok True"
  using scans_key_bound [OF assms(1-4)] unique_bound [OF _ _ _ assms(5)]
  by (metis (no_types, lifting) assms(3,4))

end

section \<open>Examples\<close>

text \<open>
  A small chain for the examples: the block of height \<open>h\<close> has hash \<open>h\<close>; one transaction, in the block
  of height \<open>p\<close>, pays 4 to subaddress (0,1).  The world is whether the next request for the pool fails.
\<close>

definition ex_tx :: transaction where
  "ex_tx = \<lparr>tx_hash = 99, unlock_time = 0, tx_rest = []\<rparr>"

definition ex_node :: "u64 \<Rightarrow> u64 \<Rightarrow> (bool, unit) monerod" where
  "ex_node tip p = \<lparr>
     md_block = (\<lambda>h w. (Ok (ucast h, \<lparr>prev_id = ucast h - 1, tx_hashes = (if h = p then [99] else [])\<rparr>), w)),
     md_block_transactions = (\<lambda>b w. (Ok (if tx_hashes b = [] then [] else [ex_tx]), w)),
     md_txpool = (\<lambda>w. (Ok [], w)),
     md_txpool_hashes = (\<lambda>w. if w then (Err (), False) else (Ok [], w)),
     md_transactions_by_hashes = (\<lambda>_ w. (Ok [], w)), md_daemon_height = (\<lambda>w. (Ok (tip + 1), w))\<rparr>"

definition ex_check :: "transaction \<Rightarrow> (owned_tx_out list, unit) result" where
  "ex_check tx = Ok [\<lparr>out_index = 0, out_key = 77, out_sub_index = SubIndex 0 1, out_amount = Some 4\<rparr>]"

definition ex_store :: "invoice \<Rightarrow> in_memory_store" where
  "ex_store v = \<lparr>im_invoices = [(invoice_ident v, v)], im_output_keys = [], im_height = Some 5\<rparr>"

definition paid_in :: "(in_memory_store, 'w) scanner \<Rightarrow> u64 option" where
  "paid_in sc = (case sc_store sc of
     Some s \<Rightarrow> map_option amount_paid (map_of (im_invoices s) (InvoiceId (SubIndex 0 1) 3)) | None \<Rightarrow> None)"

type_synonym ex_result = "(unit, (in_memory_storage_error, unit, unit) scanner_error) result"

definition ex_scan :: "u64 \<Rightarrow> u64 \<Rightarrow> (in_memory_store, bool) scanner \<Rightarrow> ex_result \<times> (in_memory_store, bool) scanner" where
  "ex_scan tip p = scan in_memory (ex_node tip p) ex_check"

definition ex_start :: "u64 \<Rightarrow> u64 \<Rightarrow> in_memory_store \<Rightarrow> ex_result \<times> (in_memory_store, bool) scanner option" where
  "ex_start tip p s =
     (case fst (scanner_new in_memory (ex_node tip p) 3 None publisher_new (\<lambda>_. \<lparr>closed = False, queue = []\<rparr>)
         (Some s, False) :: (_, (_, _, unit) scanner_error) result \<times> _) of
        Ok sc \<Rightarrow> (let (r, sc') = ex_scan tip p sc in (r, Some sc'))
      | Err e \<Rightarrow> (Err e, None) | Panic \<Rightarrow> (Panic, None))"

definition ex_blk :: "u64 \<Rightarrow> block" where
  "ex_blk h = \<lparr>block_hash = ucast h, block_height = h,
     inner = \<lparr>prev_id = ucast h - 1, tx_hashes = []\<rparr>, block_txs = []\<rparr>"

definition ex_scanner :: "bool \<Rightarrow> (in_memory_store, bool) scanner" where
  "ex_scanner w = \<lparr>sc_store = Some (ex_store (invoice_new ''a'' (SubIndex 0 1) 3 10 2 20 ''d'')),
     sc_block_cache = \<lparr>bc_height = 5, bc_daemon_height = 6, bc_blocks = [ex_blk 5, ex_blk 4]\<rparr>,
     sc_txpool_cache = \<lparr>tp_transactions = [], tp_discovered = []\<rparr>,
     sc_publisher = publisher_new, sc_channels = (\<lambda>_. \<lparr>closed = False, queue = []\<rparr>),
     sc_first_scan = False, sc_world = w\<rparr>"

text \<open>The scan that finds the payment in block 6.\<close>

definition ex_after :: "(in_memory_store, bool) scanner" where
  "ex_after = snd (ex_scan 6 6 (ex_scanner False))"

definition ex_after_store :: in_memory_store where
  "ex_after_store = the (sc_store ex_after)"

lemma ex_run: "scan in_memory (ex_node 6 6) ex_check (ex_scanner False) = (Ok () :: ex_result, ex_after)"
proof -
  have "fst (ex_scan 6 6 (ex_scanner False)) = Ok ()" by code_simp
  then show ?thesis unfolding ex_after_def ex_scan_def [symmetric] by (metis prod.collapse)
qed

lemma ex_after_facts:
  "sc_store ex_after = Some ex_after_store" "bc_height (sc_block_cache ex_after) = 6"
  "length (bc_blocks (sc_block_cache ex_after)) = 2"
  "map (\<lambda>p. total (transfers (snd p))) (im_invoices ex_after_store) = [4]"
  by (code_simp, code_simp, code_simp, code_simp)

lemma ex_store_wf: "im_wf (ex_store v)"
  by (simp add: im_wf_def ex_store_def bt_ok_def)

lemma ex_scanner_store:
  "sc_store (ex_scanner w) = Some (ex_store (invoice_new ''a'' (SubIndex 0 1) 3 10 2 20 ''d''))"
  by (simp add: ex_scanner_def)

section \<open>Properties\<close>



text \<open>
  C4. The effect of a successful scan on the store: every stored invoice is replaced by its refreshed
  version for the transfers found and the number of blocks updated, no invoice appears or disappears,
  and the stored height is that of the block cache.
\<close>

theorem scan_refreshes_every_invoice:
  fixes D :: "('w, 'r) monerod" and check :: "transaction \<Rightarrow> (owned_tx_out list, 'm) result"
  assumes "im_wf s" and "sc_store self = Some s"
    and "scan in_memory D check self
      = (Ok () :: (_, (in_memory_storage_error, 'r, 'm) scanner_error) result, self')"
  shows "\<exists>k txs self1 ts self2 s' H.
    update_caches D self = (Ok (k, txs) :: (_, (in_memory_storage_error, 'r, 'm) scanner_error) result, self1)
    \<and> find_transfers in_memory check k txs self1
        = (Ok ts :: (_, (in_memory_storage_error, 'r, 'm) scanner_error) result, self2)
    \<and> H = bc_height (sc_block_cache self') \<and> sc_store self' = Some s' \<and> im_wf s' \<and> im_height s' = Some H
    \<and> im_invoice_map s' = (\<lambda>i. map_option (refresh ts (H - of_nat k + 1) H) (im_invoice_map s i))"
  by (rule imr.scan_effect [OF assms]) blast

theorem scan_refreshes_every_invoice_witness:
  "\<exists>s'. sc_store ex_after = Some s' \<and> im_height s' = Some 6"
  using scan_refreshes_every_invoice [OF ex_store_wf ex_scanner_store ex_run] ex_after_facts(2) by metis

text \<open>
  C3. A scan keeps the books of all invoices: if every stored invoice's amount and paid height agree
  with its transfers, then after any successful scan but the first they do again.
\<close>

theorem scan_keeps_all_books:
  fixes D :: "('w, 'r) monerod" and check :: "transaction \<Rightarrow> (owned_tx_out list, 'm) result"
  assumes "im_wf s" and "sc_store self = Some s"
    and "scan in_memory D check self
      = (Ok () :: (_, (in_memory_storage_error, 'r, 'm) scanner_error) result, self')"
    and "\<not> sc_first_scan self" and "pool_only (tp_discovered (sc_txpool_cache self))"
    and "length (bc_blocks (sc_block_cache self')) \<le> unat (bc_height (sc_block_cache self'))"
    and "\<forall>i v. im_invoice_map s i = Some v \<longrightarrow> books_ok v"
    and "sc_store self' = Some s'"
    and "\<forall>i v. im_invoice_map s' i = Some v \<longrightarrow> total (transfers v) < 2 ^ 64"
  shows "\<forall>i v. im_invoice_map s' i = Some v \<longrightarrow> books_ok v"
proof -
  obtain k txs self1 ts self2 s1 H where
    uc: "update_caches D self = (Ok (k, txs) :: (_, (in_memory_storage_error, 'r, 'm) scanner_error) result, self1)"
    and ft: "find_transfers in_memory check k txs self1
      = (Ok ts :: (_, (in_memory_storage_error, 'r, 'm) scanner_error) result, self2)"
    and H: "H = bc_height (sc_block_cache self')" and bc: "sc_block_cache self1 = sc_block_cache self'"
    and s1: "sc_store self' = Some s1" and "im_wf s1" "im_height s1 = Some H"
    and inv: "im_invoice_map s1 = (\<lambda>i. map_option (refresh ts (H - of_nat k + 1) H) (im_invoice_map s i))"
    by (rule imr.scan_effect [OF assms(1-3)])
  have "\<not> sc_first_scan self1" by (metis assms(4) snd_conv uc update_caches_first)
  moreover have "pool_only (tp_discovered (sc_txpool_cache self1))"
    by (metis assms(5) pool_only_update_caches snd_conv uc)
  ultimately have res: "scan_result (H - of_nat k + 1) ts"
    using find_transfers_found(1) [OF ft] assms(6) by (simp add: bc H)
  show ?thesis
  proof (intro allI impI)
    fix i v' assume v': "im_invoice_map s' i = Some v'"
    then obtain v where v: "im_invoice_map s i = Some v" and eq: "v' = refresh ts (H - of_nat k + 1) H v"
      using inv s1 assms(8) by auto
    have "total (retain_transfers (H - of_nat k + 1) (transfers v)) + total (matching v ts) < 2 ^ 64"
      using assms(9) v' by (simp add: eq flip: total_refresh [of ts _ H])
    with v res assms(7) show "books_ok v'" unfolding eq by (intro refresh_books) auto
  qed
qed

theorem scan_keeps_all_books_witness:
  "\<exists>v. im_invoice_map ex_after_store (InvoiceId (SubIndex 0 1) 3) = Some v \<and> books_ok v"
proof -
  have tot: "total (transfers v) = 4" if "im_invoice_map ex_after_store i = Some v" for i v
    using ex_after_facts(4) map_of_SomeD [of "im_invoices ex_after_store" i v] that
    by (auto simp: im_invoice_map_def map_eq_Cons_conv)
  have before: "\<forall>i v. im_invoice_map (ex_store (invoice_new ''a'' (SubIndex 0 1) 3 10 2 20 ''d'')) i = Some v
      \<longrightarrow> books_ok v"
    by (auto simp: im_invoice_map_def ex_store_def invoice_new_def books_ok_def height_ordered_def)
  have all: "\<forall>i v. im_invoice_map ex_after_store i = Some v \<longrightarrow> books_ok v"
    by (rule scan_keeps_all_books [OF ex_store_wf ex_scanner_store ex_run _ _ _ before])
      (use tot in \<open>simp_all add: ex_after_facts ex_scanner_def pool_only_def\<close>)
  have "im_invoice_map ex_after_store (InvoiceId (SubIndex 0 1) 3) \<noteq> None"
    by code_simp
  with all show ?thesis by blast
qed


text \<open>
  A failed pool request makes the scanner skip a block.  Block 6 pays the invoice; the scan that
  fetches it ends with an error because the pool cannot be read, and the next scan succeeds without
  having looked at block 6: the block cache had already moved on.
\<close>

theorem failed_pool_request_skips_block:
  "let (r1, sc1) = ex_scan 6 6 (ex_scanner True); (r2, sc2) = ex_scan 6 6 sc1
   in r1 = Err (ScanTxpoolCache (TxpoolCacheRpc ())) \<and> r2 = Ok () \<and> paid_in sc2 = Some 0
      \<and> map block_txs (bc_blocks (sc_block_cache sc2)) = [[ex_tx], []]"
  by code_simp

end
