(* ===== verification/Subaddress_Cache.thy ===== *)
theory Subaddress_Cache
  imports Storage_Client In_Memory
begin

text \<open>
  \<open>library/src/caching/subaddress_cache.rs\<close>: the pool of unused subaddresses new invoices draw from.

  The \<open>monero\<close> crate's \<open>get_subaddress\<close> with the wallet's view pair, formatted, is the parameter
  \<open>addr\<close>; the random generator (crate rand) is the parameter \<open>gen_range\<close>, which maps the length
  \<open>n\<close> of the range \<open>0..n\<close> and the generator's state to a number and the next state.  \<open>gen_range\<close>
  panics on an empty range.  The counter \<open>highest_minor_index\<close>, an atomic shared with the scanner,
  is a field of the cache.
\<close>

section \<open>Generating subaddresses\<close>

definition MIN_AVAILABLE_SUBADDRESSES :: u32 where
  "MIN_AVAILABLE_SUBADDRESSES = 100"

text \<open>The \<open>while\<close> loop of \<open>generate_range\<close>; it ends because the minor index grows until it saturates.\<close>

function generate_loop ::
  "(sub_index \<Rightarrow> string) \<Rightarrow> sub_index \<Rightarrow> sub_index \<Rightarrow> (sub_index \<times> string) list" where
  "generate_loop addr current to =
     (if current \<le> to then
        (current, addr current) #
        (case checked_add (minor current) 1 of
           Some m \<Rightarrow> generate_loop addr (SubIndex (major current) m) to
         | None \<Rightarrow> [])
      else [])"
  by pat_completeness auto
termination
proof (relation "measure (\<lambda>(addr, current, to). 4294967296 - unat (minor current))", goal_cases)
  case (2 addr current to m)
  then show ?case
    using unat_u32_less [of "minor current"] by (simp add: checked_add_1_Some unat_plus_1)
qed simp

declare generate_loop.simps [simp del]

definition generate_range ::
  "(sub_index \<Rightarrow> string) \<Rightarrow> sub_index \<Rightarrow> sub_index \<Rightarrow> (sub_index \<times> string) list" where
  "generate_range addr from to = (if to < from then [] else generate_loop addr from to)"

section \<open>The cache\<close>

record 'r subaddress_cache =
  major_index :: u32
  highest_minor_index :: u32
  available_subaddresses :: "(sub_index, string) index_map"
  rng :: 'r

text \<open>The loop of \<open>extend_by\<close>; \<open>n\<close> rounds are left, \<open>n_added\<close> is the number of addresses appended.\<close>

fun extend_loop ::
  "(sub_index \<Rightarrow> string) \<Rightarrow> nat \<Rightarrow> u32 \<Rightarrow> 'r subaddress_cache \<Rightarrow> u32 \<times> 'r subaddress_cache" where
  "extend_loop addr 0 n_added self = (n_added, self)"
| "extend_loop addr (Suc n) n_added self =
     (if highest_minor_index self = - 1 then (n_added, self)
      else
        let idx = SubIndex (major_index self) (highest_minor_index self + 1)
        in extend_loop addr n (n_added + 1)
             (self\<lparr>available_subaddresses := im_insert idx (addr idx) (available_subaddresses self),
                   highest_minor_index := minor idx\<rparr>))"

definition extend_by ::
  "(sub_index \<Rightarrow> string) \<Rightarrow> u32 \<Rightarrow> 'r subaddress_cache \<Rightarrow> u32 \<times> 'r subaddress_cache" where
  "extend_by addr n self = extend_loop addr (unat n) 0 self"

definition cache_insert ::
  "sub_index \<Rightarrow> string \<Rightarrow> 'r subaddress_cache \<Rightarrow> string option \<times> 'r subaddress_cache" where
  "cache_insert idx a self =
     (map_of (available_subaddresses self) idx,
      self\<lparr>available_subaddresses := im_insert idx a (available_subaddresses self)\<rparr>)"

definition cache_len :: "'r subaddress_cache \<Rightarrow> nat" where
  "cache_len self = length (available_subaddresses self)"

text \<open>
  \<open>remove_random\<close> calls itself when the drawn index is out of range; \<open>None\<close> is that recursion not
  ending.
\<close>

partial_function (option) remove_random ::
  "(sub_index \<Rightarrow> string) \<Rightarrow> (nat \<Rightarrow> 'r \<Rightarrow> nat \<times> 'r) \<Rightarrow> 'r subaddress_cache
     \<Rightarrow> ((sub_index \<times> string, unit) result \<times> 'r subaddress_cache) option" where
  "remove_random addr gen_range self =
     (if available_subaddresses self = [] then Some (Panic, self)
      else
        let (map_index, rng') = gen_range (length (available_subaddresses self)) (rng self);
            self' = self\<lparr>rng := rng'\<rparr>
        in if map_index < length (available_subaddresses self') then
             let entry = available_subaddresses self' ! map_index;
                 self'' = self'\<lparr>available_subaddresses :=
                   shift_remove_index map_index (available_subaddresses self')\<rparr>
             in Some (Ok entry,
                  if cache_len self'' \<le> unat MIN_AVAILABLE_SUBADDRESSES
                  then snd (extend_by addr MIN_AVAILABLE_SUBADDRESSES self'') else self'')
           else remove_random addr gen_range self')"

text \<open>\<open>init\<close>: the closure collects the subaddress indices in use into an \<open>IndexSet\<close>.\<close>

definition index_set_insert :: "'a \<Rightarrow> 'a list \<Rightarrow> 'a list" where
  "index_set_insert x xs = (if x \<in> set xs then xs else xs @ [x])"

definition used_closure ::
  "(invoice, 'e) result \<Rightarrow> sub_index list \<Rightarrow> (unit, 'e) result \<times> sub_index list" where
  "used_closure invoice_or_err used =
     (case invoice_or_err of
        Ok v \<Rightarrow> (Ok (), index_set_insert (index v) used)
      | Err e \<Rightarrow> (Err e, used)
      | Panic \<Rightarrow> (Panic, used))"

definition max_sub_index :: "sub_index list \<Rightarrow> sub_index option" where
  "max_sub_index xs = (case xs of [] \<Rightarrow> None | y # ys \<Rightarrow> Some (foldl max y ys))"

definition cache_from_used ::
  "(sub_index \<Rightarrow> string) \<Rightarrow> u32 \<Rightarrow> 'r \<Rightarrow> sub_index list \<Rightarrow> 'r subaddress_cache" where
  "cache_from_used addr maj rng0 used =
     (let max_used = (case max_sub_index used of Some i \<Rightarrow> minor i | None \<Rightarrow> 0);
          highest = max (MIN_AVAILABLE_SUBADDRESSES - 1) max_used;
          available = im_extend [] (generate_range addr (SubIndex maj 0) (SubIndex maj highest))
      in \<lparr>major_index = maj, highest_minor_index = highest,
          available_subaddresses = filter (\<lambda>p. fst p \<notin> set used) available, rng = rng0\<rparr>)"

definition subaddress_cache_init ::
  "('s, 'e) storage \<Rightarrow> (sub_index \<Rightarrow> string) \<Rightarrow> 'r \<Rightarrow> (u64 \<Rightarrow> 'r) \<Rightarrow> u32 \<Rightarrow> u64 option \<Rightarrow> 's option
     \<Rightarrow> ('r subaddress_cache, 'e storage_error) result \<times> 's option" where
  "subaddress_cache_init S addr from_entropy seed_from_u64 maj seed mgr =
     try_st (client_try_for_each_invoice S used_closure [] mgr)
       (\<lambda>used mgr'.
          (Ok (cache_from_used addr maj
                 (case seed of Some x \<Rightarrow> seed_from_u64 x | None \<Rightarrow> from_entropy) used),
           mgr'))"

section \<open>What generation produces\<close>

definition sub_range :: "(sub_index \<Rightarrow> string) \<Rightarrow> u32 \<Rightarrow> nat \<Rightarrow> nat \<Rightarrow> (sub_index \<times> string) list" where
  "sub_range addr maj a b =
     map (\<lambda>n. let i = SubIndex maj (of_nat n) in (i, addr i)) [a..<b]"

lemma sub_range_Nil [simp]: "b \<le> a \<Longrightarrow> sub_range addr maj a b = []"
  by (simp add: sub_range_def)

lemma sub_range_Cons:
  "unat m < b \<Longrightarrow>
     sub_range addr maj (unat m) b = (SubIndex maj m, addr (SubIndex maj m)) # sub_range addr maj (Suc (unat m)) b"
  by (simp add: sub_range_def upt_conv_Cons Let_def)

lemma length_sub_range [simp]: "length (sub_range addr maj a b) = b - a"
  by (simp add: sub_range_def)

lemma set_sub_range:
  "b \<le> 4294967296 \<Longrightarrow> (i, s) \<in> set (sub_range addr maj a b) \<longleftrightarrow>
     major i = maj \<and> a \<le> unat (minor i) \<and> unat (minor i) < b \<and> s = addr i"
proof
  assume b: "b \<le> 4294967296" and "(i, s) \<in> set (sub_range addr maj a b)"
  then obtain n where n: "a \<le> n" "n < b" "i = SubIndex maj (of_nat n)" "s = addr i"
    by (auto simp: sub_range_def Let_def)
  with b have "unat (of_nat n :: u32) = n" by (simp add: unat_of_nat_u32)
  with n show "major i = maj \<and> a \<le> unat (minor i) \<and> unat (minor i) < b \<and> s = addr i" by simp
next
  assume "major i = maj \<and> a \<le> unat (minor i) \<and> unat (minor i) < b \<and> s = addr i"
  then show "(i, s) \<in> set (sub_range addr maj a b)"
    by (cases i) (force simp: sub_range_def Let_def intro!: image_eqI [where x = "unat (minor i)"])
qed

lemma fst_sub_range:
  "b \<le> 4294967296 \<Longrightarrow> fst ` set (sub_range addr maj a b) =
     {i. major i = maj \<and> a \<le> unat (minor i) \<and> unat (minor i) < b}"
  by (rule set_eqI) (simp add: image_iff Bex_def split_paired_Ex set_sub_range)

lemma distinct_sub_range: "b \<le> 4294967296 \<Longrightarrow> distinct (map fst (sub_range addr maj a b))"
proof -
  assume b: "b \<le> 4294967296"
  have "inj_on (\<lambda>n. SubIndex maj (of_nat n)) {a..<b}"
  proof (rule inj_onI)
    fix x y assume "x \<in> {a..<b}" "y \<in> {a..<b}" "SubIndex maj (of_nat x) = SubIndex maj (of_nat y)"
    with b show "x = y"
      by (metis atLeastLessThan_iff less_le_trans sub_index.inject unat_of_nat_u32)
  qed
  then show ?thesis by (simp add: sub_range_def Let_def distinct_map comp_def)
qed

definition range_end :: "sub_index \<Rightarrow> sub_index \<Rightarrow> nat" where
  "range_end from to =
     (if to < from then 0 else if major from = major to then Suc (unat (minor to)) else 4294967296)"

lemma generate_loop_eq:
  "generate_loop addr current to =
     sub_range addr (major current) (unat (minor current)) (range_end current to)"
proof (induction addr current to rule: generate_loop.induct)
  case (1 addr current to)
  let ?next = "SubIndex (major current) (minor current + 1)"
  show ?case
  proof (cases "current \<le> to")
    case False
    then show ?thesis by (simp add: generate_loop.simps [of addr current] range_end_def)
  next
    case le: True
    then have nl: "\<not> to < current" by simp
    have b: "unat (minor current) < range_end current to"
      using le unat_u32_less [of "minor current"]
      by (auto simp: range_end_def nl sub_index_le_iff word_le_nat_alt)
    show ?thesis
    proof (cases "minor current = - 1")
      case True
      then have "range_end current to \<le> Suc (unat (minor current))"
        by (simp add: range_end_def unat_u32_max unat_u32_less flip: less_Suc_eq_le)
      moreover have "generate_loop addr current to = [(current, addr current)]"
        by (subst generate_loop.simps) (simp add: le True checked_add_def)
      ultimately show ?thesis
        using b sub_range_Cons [of "minor current" "range_end current to" addr "major current"] by simp
    next
      case False
      have "range_end ?next to = range_end current to \<or> range_end current to \<le> Suc (unat (minor current))
          \<and> range_end ?next to \<le> Suc (unat (minor current))"
        using le False
        by (auto simp: range_end_def sub_index_le_iff word_le_nat_alt unat_plus_1 not_less
            simp flip: not_le)
      moreover have next_Some: "checked_add (minor current) 1 = Some (minor current + 1)"
        using False by (simp add: checked_add_1_Some)
      moreover have "generate_loop addr current to = (current, addr current) # generate_loop addr ?next to"
        by (subst generate_loop.simps) (simp add: le next_Some)
      ultimately show ?thesis
        using 1 [OF le next_Some] False b
          sub_range_Cons [of "minor current" "range_end current to" addr "major current"]
        by (auto simp: unat_plus_1)
    qed
  qed
qed


lemma generate_range_eq:
  "generate_range addr from to =
     sub_range addr (major from) (unat (minor from)) (range_end from to)"
  by (simp add: generate_range_def generate_loop_eq range_end_def)

section \<open>The cache's invariant\<close>

text \<open>
  The pool holds each subaddress once, all of one major index and of minor index at most
  \<open>highest_minor_index\<close>, each with its own address.
\<close>

definition sc_wf :: "(sub_index \<Rightarrow> string) \<Rightarrow> 'r subaddress_cache \<Rightarrow> bool" where
  "sc_wf addr c \<longleftrightarrow> distinct (map fst (available_subaddresses c)) \<and>
     (\<forall>(i, a) \<in> set (available_subaddresses c).
        major i = major_index c \<and> minor i \<le> highest_minor_index c \<and> a = addr i)"

abbreviation available :: "'r subaddress_cache \<Rightarrow> sub_index set" where
  "available c \<equiv> fst ` set (available_subaddresses c)"

definition room :: "nat \<Rightarrow> 'r subaddress_cache \<Rightarrow> nat" where
  "room n c = min n (4294967295 - unat (highest_minor_index c))"

lemma sc_wf_fresh:
  "sc_wf addr c \<Longrightarrow> highest_minor_index c < m \<Longrightarrow> SubIndex (major_index c) m \<notin> available c"
  by (force simp: sc_wf_def)

lemma extend_loop_eq:
  assumes "sc_wf addr c"
  shows "extend_loop addr n k c =
    (k + of_nat (room n c),
     c\<lparr>available_subaddresses := available_subaddresses c @
          sub_range addr (major_index c) (Suc (unat (highest_minor_index c)))
            (Suc (unat (highest_minor_index c)) + room n c),
        highest_minor_index := highest_minor_index c + of_nat (room n c)\<rparr>)"
  using assms
proof (induction n arbitrary: k c)
  case 0
  then show ?case by (simp add: room_def)
next
  case (Suc n)
  let ?h = "highest_minor_index c"
  show ?case
  proof (cases "?h = - 1")
    case True
    then show ?thesis by (simp add: room_def unat_u32_max)
  next
    case False
    let ?i = "SubIndex (major_index c) (?h + 1)"
    let ?c = "c\<lparr>available_subaddresses := available_subaddresses c @ [(?i, addr ?i)],
                highest_minor_index := ?h + 1\<rparr>"
    have h: "unat (?h + 1) = Suc (unat ?h)" using False by (rule unat_plus_1)
    then have lt: "?h < ?h + 1" by (simp add: word_less_nat_alt)
    then have fresh: "?i \<notin> available c" using Suc.prems sc_wf_fresh by blast
    have wf: "sc_wf addr ?c"
      using Suc.prems fresh lt by (fastforce simp: sc_wf_def)
    have "unat ?h < 4294967295"
      using False unat_u32_less [of "?h + 1"] h by simp
    then have room: "room (Suc n) c = Suc (room n ?c)" by (simp add: room_def h min_def) linarith
    have cons: "sub_range addr (major_index c) (Suc (unat ?h)) (Suc (unat ?h) + Suc m)
        = (?i, addr ?i) # sub_range addr (major_index c) (Suc (Suc (unat ?h))) (Suc (unat ?h) + Suc m)"
      for m using sub_range_Cons [of "?h + 1" "Suc (unat ?h) + Suc m" addr "major_index c"]
      by (simp add: h)
    have "extend_loop addr (Suc n) k c = extend_loop addr n (k + 1) ?c"
      using False fresh by (simp add: Let_def im_insert_fresh)
    also have "\<dots> = (k + 1 + of_nat (room n ?c),
       ?c\<lparr>available_subaddresses := available_subaddresses ?c @
            sub_range addr (major_index c) (Suc (Suc (unat ?h))) (Suc (Suc (unat ?h)) + room n ?c),
          highest_minor_index := ?h + 1 + of_nat (room n ?c)\<rparr>)"
      by (subst Suc.IH [OF wf]) (simp add: h)
    also have "\<dots> = (k + of_nat (room (Suc n) c),
       c\<lparr>available_subaddresses := available_subaddresses c @
            sub_range addr (major_index c) (Suc (unat ?h)) (Suc (unat ?h) + room (Suc n) c),
         highest_minor_index := ?h + of_nat (room (Suc n) c)\<rparr>)"
      unfolding room cons by (simp add: add.assoc)
    finally show ?thesis .
  qed
qed

lemma extend_by_eq:
  assumes "sc_wf addr c"
  shows "extend_by addr n c =
    (of_nat (room (unat n) c),
     c\<lparr>available_subaddresses := available_subaddresses c @
          sub_range addr (major_index c) (Suc (unat (highest_minor_index c)))
            (Suc (unat (highest_minor_index c)) + room (unat n) c),
        highest_minor_index := highest_minor_index c + of_nat (room (unat n) c)\<rparr>)"
  by (simp add: extend_by_def extend_loop_eq [OF assms])

lemma unat_highest_room:
  "unat (highest_minor_index c + of_nat (room n c)) = unat (highest_minor_index c) + room n c"
proof -
  have "unat (highest_minor_index c) + room n c < 4294967296"
    using unat_u32_less [of "highest_minor_index c"] by (simp add: room_def)
  then have "unat (of_nat (unat (highest_minor_index c) + room n c) :: u32)
      = unat (highest_minor_index c) + room n c"
    by (rule unat_of_nat_u32)
  then show ?thesis by simp
qed

lemma extend_by_cache:
  assumes wf: "sc_wf addr c" and ext: "extend_by addr n c = (k, c')"
  shows "sc_wf addr c'"
    and "available c' = available c \<union>
      {i. major i = major_index c \<and> highest_minor_index c < minor i \<and> minor i \<le> highest_minor_index c'}"
    and "cache_len c' = cache_len c + room (unat n) c"
    and "unat (highest_minor_index c') = unat (highest_minor_index c) + room (unat n) c"
    and "major_index c' = major_index c"
proof -
  let ?h = "unat (highest_minor_index c)" and ?r = "room (unat n) c"
  have le: "Suc (?h + ?r) \<le> 4294967296"
    using unat_u32_less [of "highest_minor_index c"] by (simp add: room_def)
  have c'_def: "c' = snd (extend_by addr n c)" using ext by simp
  have c': "c' = c\<lparr>available_subaddresses := available_subaddresses c @
          sub_range addr (major_index c) (Suc ?h) (Suc (?h + ?r)),
        highest_minor_index := highest_minor_index c + of_nat ?r\<rparr>"
    by (simp add: extend_by_eq [OF wf] c'_def)
  show h': "unat (highest_minor_index c') = ?h + ?r" by (simp add: c' unat_highest_room)
  have new: "fst ` set (sub_range addr (major_index c) (Suc ?h) (Suc (?h + ?r))) =
      {i. major i = major_index c \<and> highest_minor_index c < minor i \<and> minor i \<le> highest_minor_index c'}"
    by (auto simp: fst_sub_range [OF le] h' word_less_nat_alt word_le_nat_alt)
  then show "available c' = available c \<union>
      {i. major i = major_index c \<and> highest_minor_index c < minor i \<and> minor i \<le> highest_minor_index c'}"
    by (simp add: c' image_Un)
  have old: "minor i \<le> highest_minor_index c" if "i \<in> available c" for i
    using wf that by (auto simp: sc_wf_def)
  have grow: "highest_minor_index c \<le> highest_minor_index c'" by (simp add: word_le_nat_alt h')
  have "distinct (map fst (available_subaddresses c'))"
    using wf distinct_sub_range [OF le, of addr "major_index c" "Suc ?h"] new old
    by (fastforce simp: c' sc_wf_def)
  moreover have "major i = major_index c' \<and> minor i \<le> highest_minor_index c' \<and> a = addr i"
    if "(i, a) \<in> set (available_subaddresses c')" for i a
    using that wf grow
    by (auto simp: c' sc_wf_def set_sub_range [OF le] word_le_nat_alt unat_highest_room)
  ultimately show "sc_wf addr c'" by (auto simp: sc_wf_def)
  show "cache_len c' = cache_len c + ?r" by (simp add: c' cache_len_def)
  show "major_index c' = major_index c" by (simp add: c')
qed

lemma remove_random_unfold:
  assumes "available_subaddresses c \<noteq> []"
    and "gen_range (length (available_subaddresses c)) (rng c) = (m, r)"
    and "m < length (available_subaddresses c)"
  shows "remove_random addr gen_range c = Some (Ok (available_subaddresses c ! m),
    let c' = c\<lparr>rng := r, available_subaddresses := shift_remove_index m (available_subaddresses c)\<rparr>
    in if cache_len c' \<le> 100 then snd (extend_by addr 100 c') else c')"
  using assms by (subst remove_random.simps) (simp add: Let_def MIN_AVAILABLE_SUBADDRESSES_def)

lemma sc_wf_shift_remove:
  fixes c :: "'r subaddress_cache"
  assumes wf: "sc_wf addr c" and m: "m < length (available_subaddresses c)"
    and c': "c' = c\<lparr>rng := r, available_subaddresses := shift_remove_index m (available_subaddresses c)\<rparr>"
  shows "sc_wf addr c'" and "available c' = available c - {fst (available_subaddresses c ! m)}"
proof -
  have d: "distinct (map fst (available_subaddresses c))" using wf by (simp add: sc_wf_def)
  have s: "set (available_subaddresses c') = set (available_subaddresses c) - {available_subaddresses c ! m}"
    using shift_remove_index_set [OF d m] by (simp add: c')
  show "sc_wf addr c'"
    using wf s distinct_shift_remove_index [OF d, of m] by (auto simp: sc_wf_def c')
  have "inj_on fst (set (available_subaddresses c))" using d by (simp add: distinct_map)
  then show "available c' = available c - {fst (available_subaddresses c ! m)}"
    unfolding s using nth_mem [OF m] by (subst inj_on_image_set_diff) auto
qed

lemma extend_by_100:
  assumes "sc_wf addr c" and "extend_by addr 100 c = (k, c')"
  shows "100 \<le> cache_len c' \<or> highest_minor_index c' = - 1"
proof (cases "room 100 c = 100")
  case True
  with extend_by_cache(3) [OF assms] show ?thesis by simp
next
  case False
  then have "room 100 c = 4294967295 - unat (highest_minor_index c)" by (simp add: room_def)
  then have "unat (highest_minor_index c') = unat (- 1 :: u32)"
    using extend_by_cache(4) [OF assms] unat_u32_less [of "highest_minor_index c"]
    by (simp add: unat_u32_max)
  then show ?thesis by (metis unsigned_word_eqI)
qed

lemma remove_random_post:
  assumes wf: "sc_wf addr c" and ne: "available_subaddresses c \<noteq> []"
    and gen: "\<And>n r. 0 < n \<Longrightarrow> fst (gen_range n r) < n"
  obtains i c' where "remove_random addr gen_range c = Some (Ok (i, addr i), c')"
    and "i \<in> available c" and "sc_wf addr c'"
    and "available c' = (available c - {i}) \<union>
      {j. major j = major_index c \<and> highest_minor_index c < minor j \<and> minor j \<le> highest_minor_index c'}"
    and "100 \<le> cache_len c' \<or> highest_minor_index c' = - 1"
    and "major_index c' = major_index c" and "highest_minor_index c \<le> highest_minor_index c'"
proof -
  obtain m r where g: "gen_range (length (available_subaddresses c)) (rng c) = (m, r)" by force
  with gen ne have m: "m < length (available_subaddresses c)" by (metis fst_conv length_greater_0_conv)
  let ?e = "available_subaddresses c ! m"
  define c1 where "c1 = c\<lparr>rng := r, available_subaddresses := shift_remove_index m (available_subaddresses c)\<rparr>"
  obtain k c2 where ext: "extend_by addr 100 c1 = (k, c2)" by force
  define c' where "c' = (if cache_len c1 \<le> 100 then c2 else c1)"
  have mem: "?e \<in> set (available_subaddresses c)" using m by simp
  with wf have "snd ?e = addr (fst ?e)" by (cases ?e) (auto simp: sc_wf_def)
  then have e: "?e = (fst ?e, addr (fst ?e))" by (metis prod.collapse)
  note c1 = sc_wf_shift_remove [OF wf m c1_def]
  have h1: "highest_minor_index c1 = highest_minor_index c" "major_index c1 = major_index c"
    by (simp_all add: c1_def)
  note x = extend_by_cache [OF c1(1) ext]
  show thesis
  proof
    show "remove_random addr gen_range c = Some (Ok (fst ?e, addr (fst ?e)), c')"
      using remove_random_unfold [of c gen_range m r addr, OF ne g m] e ext
      by (simp add: c'_def Let_def flip: c1_def)
    show "fst ?e \<in> available c" using mem by simp
    show "sc_wf addr c'" using c1(1) x(1) by (simp add: c'_def)
    show "available c' = (available c - {fst ?e}) \<union>
      {j. major j = major_index c \<and> highest_minor_index c < minor j \<and> minor j \<le> highest_minor_index c'}"
      using c1(2) x(2) by (auto simp: c'_def h1)
    show "100 \<le> cache_len c' \<or> highest_minor_index c' = - 1"
      using extend_by_100 [OF c1(1) ext] by (auto simp: c'_def)
    show "major_index c' = major_index c" using x(5) h1 by (simp add: c'_def)
    show "highest_minor_index c \<le> highest_minor_index c'"
      using x(4) h1 by (simp add: c'_def word_le_nat_alt)
  qed
qed

section \<open>Initialisation\<close>

lemma set_used:
  "set (foldl (\<lambda>a x. snd (used_closure (Ok x :: (invoice, 'e) result) a)) acc vs) = set acc \<union> index ` set vs"
  by (induction vs arbitrary: acc) (auto simp: used_closure_def index_set_insert_def)

lemma cache_from_used_available:
  "available (cache_from_used addr maj r used) =
     {i. major i = maj \<and> minor i \<le> highest_minor_index (cache_from_used addr maj r used)} - set used"
  (is ?avail)
  and cache_from_used_wf: "sc_wf addr (cache_from_used addr maj r used)" (is ?wf)
  and major_cache_from_used: "major_index (cache_from_used addr maj r used) = maj"
proof -
  let ?c = "cache_from_used addr maj r used"
  let ?h = "highest_minor_index ?c"
  let ?g = "sub_range addr maj 0 (Suc (unat ?h))"
  have b: "Suc (unat ?h) \<le> 4294967296" using unat_u32_less [of ?h] by simp
  have e: "range_end (SubIndex maj 0) (SubIndex maj ?h) = Suc (unat ?h)"
    by (simp add: range_end_def less_eq_sub_index_iff flip: not_le)
  have "generate_range addr (SubIndex maj 0) (SubIndex maj ?h) = ?g"
    by (simp add: generate_range_eq e)
  then have "im_extend [] (generate_range addr (SubIndex maj 0) (SubIndex maj ?h)) = ?g"
    using im_extend_fresh [of ?g "[]"] distinct_sub_range [OF b, of addr maj 0] by simp
  then have av: "available_subaddresses ?c = filter (\<lambda>p. fst p \<notin> set used) ?g"
    by (simp add: cache_from_used_def Let_def)
  show m: "major_index ?c = maj" by (simp add: cache_from_used_def Let_def)
  have "available ?c = fst ` set ?g - set used" by (auto simp: av)
  then show ?avail unfolding fst_sub_range [OF b] by (auto simp: word_le_nat_alt)
  show ?wf
    using distinct_sub_range [OF b, of addr maj 0]
    by (auto simp: sc_wf_def m av set_sub_range [OF b] word_le_nat_alt
        map_fst_filter_fst [of "\<lambda>i. i \<notin> set used"])
qed

lemma foldl_max_sub_index: "j \<in> set (i # is) \<Longrightarrow> j \<le> foldl max i (is :: sub_index list)"
proof (induction "is" arbitrary: i j)
  case (Cons k ks)
  then show ?case
    by (metis foldl_Cons list.set_intros(1) max.bounded_iff set_ConsD set_subset_Cons subsetD)
qed simp

lemma cache_from_used_highest:
  assumes "\<And>i. i \<in> set used \<Longrightarrow> major i = maj" and "j \<in> set used"
  shows "minor j \<le> highest_minor_index (cache_from_used addr maj r used)"
proof -
  obtain i "is" where u: "used = i # is" using assms(2) by (cases used) auto
  then have le: "j \<le> foldl max i is" using assms(2) foldl_max_sub_index by simp
  have "foldl max i is \<in> set used"
    unfolding u by (induction "is" arbitrary: i) (auto simp: max_def split: if_splits)
  with assms have "major (foldl max i is) = major j" by simp
  with le have "minor j \<le> minor (foldl max i is)" by (auto simp: sub_index_le_iff)
  then show ?thesis by (simp add: cache_from_used_def u max_sub_index_def Let_def le_max_iff_disj)
qed

lemma highest_cache_from_used: "99 \<le> highest_minor_index (cache_from_used addr maj r used)"
  by (simp add: cache_from_used_def Let_def MIN_AVAILABLE_SUBADDRESSES_def)

lemma subaddress_cache_init_Ok:
  fixes S :: "('s, 'e) storage"
  assumes rows: "inv_rows S s = Ok (map Ok vs)"
  shows "\<exists>used. set used = index ` set vs \<and>
    subaddress_cache_init S addr ent from_seed maj seed (Some s) =
      (Ok (cache_from_used addr maj (case seed of Some x \<Rightarrow> from_seed x | None \<Rightarrow> ent) used), Some s)"
proof -
  let ?used = "foldl (\<lambda>a x. snd (used_closure (Ok x :: (invoice, 'e) result) a)) [] vs"
  have "try_for_each S used_closure s [] = (Ok (), ?used)"
    unfolding try_for_each_def rows result.case
    by (rule try_rows_Ok_append) (simp add: used_closure_def)
  then have "subaddress_cache_init S addr ent from_seed maj seed (Some s) =
      (Ok (cache_from_used addr maj (case seed of Some x \<Rightarrow> from_seed x | None \<Rightarrow> ent) ?used), Some s)"
    by (simp add: subaddress_cache_init_def direct_def)
  moreover have "set ?used = index ` set vs" by (simp add: set_used)
  ultimately show ?thesis by blast
qed

lemma subaddress_cache_init_post:
  assumes "inv_rows S s = Ok (map Ok vs)"
  obtains c where "subaddress_cache_init S addr ent from_seed maj seed (Some s) = (Ok c, Some s)"
    and "sc_wf addr c" and "major_index c = maj" and "99 \<le> highest_minor_index c"
    and "available c = {i. major i = maj \<and> minor i \<le> highest_minor_index c} - index ` set vs"
    and "(\<forall>v \<in> set vs. major (index v) = maj) \<longrightarrow> (\<forall>v \<in> set vs. minor (index v) \<le> highest_minor_index c)"
proof -
  obtain used where used: "set used = index ` set vs"
    and eq: "subaddress_cache_init S addr ent from_seed maj seed (Some s) =
      (Ok (cache_from_used addr maj (case seed of Some x \<Rightarrow> from_seed x | None \<Rightarrow> ent) used), Some s)"
    using subaddress_cache_init_Ok [OF assms, of addr ent from_seed maj seed] by blast
  define c where "c = cache_from_used addr maj (case seed of Some x \<Rightarrow> from_seed x | None \<Rightarrow> ent) used"
  have "(\<forall>v \<in> set vs. major (index v) = maj) \<longrightarrow>
      (\<forall>v \<in> set vs. minor (index v) \<le> highest_minor_index c)"
  proof (intro impI ballI)
    fix v assume all: "\<forall>v \<in> set vs. major (index v) = maj" and v: "v \<in> set vs"
    from v have "index v \<in> set used" by (simp add: used)
    moreover from all have "major i = maj" if "i \<in> set used" for i using that by (auto simp: used)
    ultimately show "minor (index v) \<le> highest_minor_index c"
      unfolding c_def by (rule cache_from_used_highest [rotated])
  qed
  moreover have "available c = {i. major i = maj \<and> minor i \<le> highest_minor_index c} - index ` set vs"
    unfolding c_def cache_from_used_available used ..
  moreover have "sc_wf addr c" "major_index c = maj" "99 \<le> highest_minor_index c"
    unfolding c_def by (rule cache_from_used_wf major_cache_from_used highest_cache_from_used)+
  moreover have "subaddress_cache_init S addr ent from_seed maj seed (Some s) = (Ok c, Some s)"
    unfolding c_def by (rule eq)
  ultimately show thesis by (intro that)
qed

section \<open>Properties\<close>

text \<open>
  \<open>generate_range\<close> produces, in order and once each, the subaddresses from the minor index of
  \<open>from\<close> up to the minor index of \<open>to\<close> when both have the same major index, up to \<open>u32::MAX\<close> when \<open>to\<close>
  has a larger one, and nothing when \<open>to < from\<close>; it never leaves the major index of \<open>from\<close>.
\<close>

theorem generate_range_spec:
  "generate_range addr from to =
     map (\<lambda>n. (SubIndex (major from) (of_nat n), addr (SubIndex (major from) (of_nat n))))
       [unat (minor from)..<
         (if to < from then 0 else if major from = major to then unat (minor to) + 1 else 2 ^ 32)]"
  by (simp add: generate_range_eq sub_range_def range_end_def Let_def)

text \<open>
  C20. Drawing a subaddress from a non-empty well-formed pool returns (the recursion ends) an index
  that was available together with its own address, takes it out of the pool, adds only indices
  never in the pool before, keeps the pool well formed, and leaves at least 100 subaddresses unless
  the minor indices are used up.
\<close>

theorem remove_random_spec:
  assumes "sc_wf addr c" and "available_subaddresses c \<noteq> []"
    and "\<And>n r. 0 < n \<Longrightarrow> fst (gen_range n r) < n"
  shows "\<exists>i c'. remove_random addr gen_range c = Some (Ok (i, addr i), c')
    \<and> i \<in> available c \<and> i \<notin> available c' \<and> sc_wf addr c'
    \<and> available c' = (available c - {i}) \<union>
        {j. major j = major_index c \<and> highest_minor_index c < minor j \<and> minor j \<le> highest_minor_index c'}
    \<and> (100 \<le> cache_len c' \<or> highest_minor_index c' = - 1)"
proof -
  from assms obtain i c' where r: "remove_random addr gen_range c = Some (Ok (i, addr i), c')"
    and i: "i \<in> available c" and wf: "sc_wf addr c'"
    and av: "available c' = (available c - {i}) \<union>
        {j. major j = major_index c \<and> highest_minor_index c < minor j \<and> minor j \<le> highest_minor_index c'}"
    and len: "100 \<le> cache_len c' \<or> highest_minor_index c' = - 1"
    and "major_index c' = major_index c" and "highest_minor_index c \<le> highest_minor_index c'"
    by (rule remove_random_post)
  have "minor i \<le> highest_minor_index c" using assms(1) i by (auto simp: sc_wf_def)
  then have "i \<notin> available c'" unfolding av by auto
  with r i wf av len show ?thesis by blast
qed

theorem remove_random_spec_witness:
  "let c = \<lparr>major_index = 0, highest_minor_index = 7, available_subaddresses = [(SubIndex 0 7, ''x'')], rng = ()\<rparr>
   in \<exists>i c'. remove_random (\<lambda>_. ''x'') (\<lambda>n r. (n - 1, r)) c = Some (Ok (i, ''x''), c')
        \<and> i = SubIndex 0 7"
  using remove_random_spec [of "\<lambda>_. ''x''" "\<lparr>major_index = 0, highest_minor_index = 7,
      available_subaddresses = [(SubIndex 0 7, ''x'')], rng = ()\<rparr>" "\<lambda>n r. (n - 1, r)"]
  by (auto simp: sc_wf_def Let_def)

text \<open>
  Initialised from a readable store, the pool is well formed and holds exactly the subaddresses
  of the account up to \<open>highest_minor_index\<close> that no stored invoice uses; if every stored invoice
  belongs to the account, no stored index lies beyond \<open>highest_minor_index\<close>, so none can be generated
  again later.
\<close>

theorem subaddress_cache_init_spec:
  assumes "inv_rows S s = Ok (map Ok vs)"
  shows "\<exists>c. subaddress_cache_init S addr ent from_seed maj seed (Some s) = (Ok c, Some s)
    \<and> sc_wf addr c \<and> major_index c = maj \<and> 99 \<le> highest_minor_index c
    \<and> available c = {i. major i = maj \<and> minor i \<le> highest_minor_index c} - index ` set vs
    \<and> ((\<forall>v \<in> set vs. major (index v) = maj) \<longrightarrow>
         (\<forall>v \<in> set vs. minor (index v) \<le> highest_minor_index c))"
  by (rule subaddress_cache_init_post [OF assms, of addr ent from_seed maj seed]) (intro exI conjI)

theorem subaddress_cache_init_spec_witness:
  "inv_rows in_memory im_new = Ok (map Ok []) \<and>
   (\<exists>c. subaddress_cache_init in_memory (\<lambda>_. ''x'') () (\<lambda>_. ()) 0 None (Some im_new) = (Ok c, Some im_new)
      \<and> SubIndex 0 99 \<in> available c)"
proof -
  have rows: "inv_rows in_memory im_new = Ok (map Ok [])"
    by (simp add: in_memory_def im_rows_def im_new_def)
  obtain c where
      c: "subaddress_cache_init in_memory (\<lambda>_. ''x'') () (\<lambda>_. ()) 0 None (Some im_new) = (Ok c, Some im_new)"
      and h: "99 \<le> highest_minor_index c"
      and av: "available c = {i. major i = 0 \<and> minor i \<le> highest_minor_index c}"
    using subaddress_cache_init_spec [OF rows, of "\<lambda>_. ''x''" "()" "\<lambda>_. ()" 0 None]
    by (elim exE conjE) (rule that, simp_all)
  have "SubIndex 0 99 \<in> available c" unfolding av using h by simp
  with rows c show ?thesis by blast
qed

text \<open>
  \<open>init\<close> takes the minor index of the largest used \<open>SubIndex\<close>, whose major index may be another
  account's: with an invoice on account 1 stored, an index of account 0 that is in use is generated
  again when the pool is extended.
\<close>

theorem subaddress_cache_init_other_account:
  "let used = [SubIndex 1 5, SubIndex 0 100]; c = cache_from_used addr 0 r used
   in highest_minor_index c = 99 \<and> SubIndex 0 100 \<in> available (snd (extend_by addr 100 c))"
proof -
  let ?c = "cache_from_used addr 0 r [SubIndex 1 5, SubIndex 0 100]"
  have h: "highest_minor_index ?c = 99"
    by (simp add: cache_from_used_def max_sub_index_def max_def less_eq_sub_index_iff
        MIN_AVAILABLE_SUBADDRESSES_def Let_def)
  obtain k c' where ext: "extend_by addr 100 ?c = (k, c')" by force
  note x = extend_by_cache [OF cache_from_used_wf ext]
  have "unat (highest_minor_index c') = 199" using x(4) by (simp add: h room_def)
  then have "100 \<le> highest_minor_index c'" by (simp add: word_le_nat_alt)
  then have "SubIndex 0 100 \<in> available c'"
    unfolding x(2) by (simp add: h major_cache_from_used)
  with h ext show ?thesis by (simp add: Let_def)
qed

end
