(* ===== verification/Gateway.thy ===== *)
theory Gateway
  imports Scanner_Correct Subaddress_Cache
begin

text \<open>
  \<open>library/src/payment_gateway.rs\<close>: the object applications hold.  First the operations on invoices,
  then the builder, then starting and stopping the scanning task.

  The gateway's own state and what it shares with the scanner (store, publisher, cached heights) are
  fields of one record.  Parsing of keys, addresses and URIs (crates monero and hyper) and the
  derivation of subaddresses are parameters.
\<close>

section \<open>Errors\<close>

datatype ('e, 'r, 'm) accept_xmr_error =
    Rpc 'r
  | Storage "'e storage_error"
  | Parse string string string
  | Scanner "('e, 'r, 'm) scanner_error"
  | AlreadyRunning
  | StopSignal string

section \<open>Invoices\<close>

record ('s, 'g, 'w) gateway =
  gw_store :: "'s option"
  gw_subaddresses :: "'g subaddress_cache"
  gw_publisher :: publisher
  gw_channels :: channels
  gw_cached_daemon_height :: u64
  gw_block_cache_height :: u64
  gw_initial_height :: "u64 option"
  gw_scan_interval :: nat
  gw_world :: 'w

text \<open>
  \<open>new_invoice\<close>.  The outer \<open>None\<close> is \<open>remove_random\<close> not returning.  The subaddress leaves the pool
  before the calls that can fail.
\<close>

definition new_invoice ::
  "('s, 'e) storage \<Rightarrow> ('w, 'r) monerod \<Rightarrow> (sub_index \<Rightarrow> string) \<Rightarrow> (nat \<Rightarrow> 'g \<Rightarrow> nat \<times> 'g)
     \<Rightarrow> u64 \<Rightarrow> u64 \<Rightarrow> u64 \<Rightarrow> string \<Rightarrow> ('s, 'g, 'w) gateway
     \<Rightarrow> ((invoice_id, ('e, 'r, 'm) accept_xmr_error) result \<times> ('s, 'g, 'w) gateway) option" where
  "new_invoice S D addr gen_range piconeros confs expires desc self =
     (case remove_random addr gen_range (gw_subaddresses self) of
        None \<Rightarrow> None
      | Some (r, pool) \<Rightarrow>
          (let self1 = self\<lparr>gw_subaddresses := pool\<rparr>
           in case r of
                Ok (idx, subaddress) \<Rightarrow>
                  (let (rh, w) = (if gw_cached_daemon_height self1 \<noteq> 0
                         then (Ok (gw_cached_daemon_height self1), gw_world self1)
                         else md_daemon_height D (gw_world self1));
                       self2 = self1\<lparr>gw_world := w\<rparr>
                   in Some (try_st (map_err Rpc rh, self2) (\<lambda>creation self2.
                        let v = invoice_new subaddress idx creation piconeros confs expires desc;
                            (ri, mgr) = client_insert_invoice S v (gw_store self2);
                            self3 = self2\<lparr>gw_store := mgr\<rparr>
                        in try_st (map_err Storage ri, self3) (\<lambda>_ self3.
                             (Ok (invoice_ident v),
                              self3\<lparr>gw_publisher := publisher_insert_invoice (invoice_ident v) (gw_publisher self3)\<rparr>)))))
              | _ \<Rightarrow> Some (Panic, self1)))"

definition remove_invoice ::
  "('s, 'e) storage \<Rightarrow> invoice_id \<Rightarrow> ('s, 'g, 'w) gateway
     \<Rightarrow> (invoice option, ('e, 'r, 'm) accept_xmr_error) result \<times> ('s, 'g, 'w) gateway" where
  "remove_invoice S i self =
     (let (r, mgr) = client_remove_invoice S i (gw_store self);
          self1 = self\<lparr>gw_store := mgr\<rparr>
      in try_st (map_err Storage r, self1) (\<lambda>removed self1.
           case removed of
             Some old \<Rightarrow>
               (Ok (Some old),
                self1\<lparr>gw_subaddresses := snd (cache_insert (sub_index i) (address old) (gw_subaddresses self1)),
                      gw_publisher := publisher_remove_invoice i (gw_publisher self1)\<rparr>)
           | None \<Rightarrow> (Ok None, self1)))"

definition gw_subscribe ::
  "invoice_id \<Rightarrow> sender_id \<Rightarrow> nat \<Rightarrow> ('s, 'g, 'w) gateway \<Rightarrow> nat option \<times> ('s, 'g, 'w) gateway" where
  "gw_subscribe i sid c self =
     (let (r, pub, chans) = subscribe i sid c (gw_publisher self) (gw_channels self)
      in (r, self\<lparr>gw_publisher := pub, gw_channels := chans\<rparr>))"

definition gw_subscribe_all ::
  "sender_id \<Rightarrow> nat \<Rightarrow> ('s, 'g, 'w) gateway \<Rightarrow> nat \<times> ('s, 'g, 'w) gateway" where
  "gw_subscribe_all sid c self =
     (let (r, pub, chans) = subscribe_all sid c (gw_publisher self) (gw_channels self)
      in (r, self\<lparr>gw_publisher := pub, gw_channels := chans\<rparr>))"

definition gw_daemon_height ::
  "('w, 'r) monerod \<Rightarrow> ('s, 'g, 'w) gateway
     \<Rightarrow> (u64, ('e, 'r, 'm) accept_xmr_error) result \<times> ('s, 'g, 'w) gateway" where
  "gw_daemon_height D self =
     (let (r, w) = md_daemon_height D (gw_world self) in (map_err Rpc r, self\<lparr>gw_world := w\<rparr>))"

definition gw_get_invoice ::
  "('s, 'e) storage \<Rightarrow> invoice_id \<Rightarrow> ('s, 'g, 'w) gateway
     \<Rightarrow> (invoice option, ('e, 'r, 'm) accept_xmr_error) result \<times> ('s, 'g, 'w) gateway" where
  "gw_get_invoice S i self =
     (let (r, mgr) = client_get_invoice S i (gw_store self) in (map_err Storage r, self\<lparr>gw_store := mgr\<rparr>))"

definition gw_get_invoice_ids ::
  "('s, 'e) storage \<Rightarrow> ('s, 'g, 'w) gateway
     \<Rightarrow> (invoice_id list, ('e, 'r, 'm) accept_xmr_error) result \<times> ('s, 'g, 'w) gateway" where
  "gw_get_invoice_ids S self =
     (let (r, mgr) = client_get_invoice_ids S (gw_store self) in (map_err Storage r, self\<lparr>gw_store := mgr\<rparr>))"

section \<open>The builder\<close>

record 's builder =
  daemon_url :: string
  daemon_username :: "string option"
  daemon_password :: "string option"
  rpc_timeout :: nat
  rpc_connection_timeout :: nat
  private_view_key :: string
  primary_address :: string
  scan_interval :: nat
  builder_store :: 's
  builder_major_index :: u32
  initial_height :: "u64 option"
  seed :: "u64 option"

text \<open>Durations are in milliseconds.\<close>

definition DEFAULT_DAEMON :: string where
  "DEFAULT_DAEMON = ''http://node.moneroworld.com:18089''"

definition DEFAULT_BLOCK_CACHE_SIZE :: nat where
  "DEFAULT_BLOCK_CACHE_SIZE = 10"

definition builder_new :: "string \<Rightarrow> string \<Rightarrow> 's \<Rightarrow> 's builder" where
  "builder_new view_key primary store =
     \<lparr>daemon_url = DEFAULT_DAEMON, daemon_username = None, daemon_password = None,
      rpc_timeout = 10000, rpc_connection_timeout = 5000, private_view_key = view_key,
      primary_address = primary, scan_interval = 1000, builder_store = store,
      builder_major_index = 0, initial_height = None, seed = None\<rparr>"

definition set_daemon_url :: "string \<Rightarrow> 's builder \<Rightarrow> 's builder" where
  "set_daemon_url url self = self\<lparr>daemon_url := url\<rparr>"

definition set_daemon_login :: "string \<Rightarrow> string \<Rightarrow> 's builder \<Rightarrow> 's builder" where
  "set_daemon_login username password self =
     self\<lparr>daemon_username := Some username, daemon_password := Some password\<rparr>"

definition set_rpc_timeout :: "nat \<Rightarrow> 's builder \<Rightarrow> 's builder" where
  "set_rpc_timeout timeout self = self\<lparr>rpc_timeout := timeout\<rparr>"

definition set_rpc_connection_timeout :: "nat \<Rightarrow> 's builder \<Rightarrow> 's builder" where
  "set_rpc_connection_timeout timeout self = self\<lparr>rpc_connection_timeout := timeout\<rparr>"

definition set_scan_interval :: "nat \<Rightarrow> 's builder \<Rightarrow> 's builder" where
  "set_scan_interval interval self = self\<lparr>scan_interval := interval\<rparr>"

definition set_seed :: "u64 \<Rightarrow> 's builder \<Rightarrow> 's builder" where
  "set_seed s self = self\<lparr>seed := Some s\<rparr>"

definition set_account_index :: "u32 \<Rightarrow> 's builder \<Rightarrow> 's builder" where
  "set_account_index idx self = self\<lparr>builder_major_index := idx\<rparr>"

definition set_initial_height :: "u64 \<Rightarrow> 's builder \<Rightarrow> 's builder" where
  "set_initial_height h self = self\<lparr>initial_height := Some h\<rparr>"

text \<open>
  \<open>build_inner\<close>: \<open>parse_key\<close> and \<open>parse_address\<close> read the two halves of the view pair, from which
  \<open>get_subaddress\<close> derives the addresses.
\<close>

definition build_inner ::
  "('s, 'e) storage \<Rightarrow> (string \<Rightarrow> ('vk, string) result) \<Rightarrow> (string \<Rightarrow> ('sp, string) result)
     \<Rightarrow> ('vk \<Rightarrow> 'sp \<Rightarrow> sub_index \<Rightarrow> string) \<Rightarrow> 'g \<Rightarrow> (u64 \<Rightarrow> 'g) \<Rightarrow> 's builder \<Rightarrow> 'w
     \<Rightarrow> (('s, 'g, 'w) gateway, ('e, 'r, 'm) accept_xmr_error) result" where
  "build_inner S parse_key parse_address get_subaddress from_entropy seed_from_u64 self w =
     and_then (map_err (Parse ''PrivateKey'' ''[REDACTED]'') (parse_key (private_view_key self))) (\<lambda>view.
     and_then (map_err (Parse ''Address'' (primary_address self)) (parse_address (primary_address self))) (\<lambda>spend.
       let (r, mgr) = subaddress_cache_init S (get_subaddress view spend) from_entropy seed_from_u64
                        (builder_major_index self) (seed self) (Some (builder_store self))
       in map_ok (\<lambda>pool.
            \<lparr>gw_store = mgr, gw_subaddresses = pool, gw_publisher = publisher_new,
             gw_channels = (\<lambda>_. \<lparr>closed = False, queue = []\<rparr>), gw_cached_daemon_height = 0,
             gw_block_cache_height = 0, gw_initial_height = initial_height self,
             gw_scan_interval = scan_interval self, gw_world = w\<rparr>) (map_err Storage r)))"

definition build ::
  "('s, 'e) storage \<Rightarrow> (string \<Rightarrow> ('uri, string) result) \<Rightarrow> (string \<Rightarrow> ('vk, string) result)
     \<Rightarrow> (string \<Rightarrow> ('sp, string) result) \<Rightarrow> ('vk \<Rightarrow> 'sp \<Rightarrow> sub_index \<Rightarrow> string) \<Rightarrow> 'g \<Rightarrow> (u64 \<Rightarrow> 'g)
     \<Rightarrow> 's builder \<Rightarrow> 'w \<Rightarrow> (('s, 'g, 'w) gateway, ('e, 'r, 'm) accept_xmr_error) result" where
  "build S parse_uri parse_key parse_address get_subaddress from_entropy seed_from_u64 self w =
     and_then (map_err (Parse ''Uri'' (daemon_url self)) (parse_uri (daemon_url self))) (\<lambda>_.
       build_inner S parse_key parse_address get_subaddress from_entropy seed_from_u64 self w)"

section \<open>No two invoices share a subaddress\<close>

text \<open>
  The invariant between the pool and the store: available subaddresses are not in use, tracked
  invoices have different subaddresses, and those of the gateway's account lie within the indices
  generated so far and carry their own address.
\<close>

definition pool_ok ::
  "(sub_index \<Rightarrow> string) \<Rightarrow> (invoice_id \<Rightarrow> invoice option) \<Rightarrow> 'g subaddress_cache \<Rightarrow> bool" where
  "pool_ok addr invs pool \<longleftrightarrow> sc_wf addr pool
     \<and> (\<forall>i \<in> dom invs. sub_index i \<notin> available pool \<and> major (sub_index i) = major_index pool
          \<and> minor (sub_index i) \<le> highest_minor_index pool)
     \<and> (\<forall>i v. invs i = Some v \<longrightarrow> address v = addr (sub_index i))
     \<and> (\<forall>i \<in> dom invs. \<forall>j \<in> dom invs. sub_index i = sub_index j \<longrightarrow> i = j)"

lemma pool_ok_used:
  assumes "pool_ok addr invs pool" and "i \<in> dom invs"
  shows "sub_index i \<notin> available pool" and "major (sub_index i) = major_index pool"
    and "minor (sub_index i) \<le> highest_minor_index pool"
  using assms by (simp_all add: pool_ok_def)

lemma pool_ok_inj:
  assumes "pool_ok addr invs pool" and "i \<in> dom invs" and "j \<in> dom invs" and "sub_index i = sub_index j"
  shows "i = j"
  using assms by (simp add: pool_ok_def)

text \<open>What \<open>gen_range(0..n)\<close> of the crate rand returns.\<close>

definition draws_in_range :: "(nat \<Rightarrow> 'g \<Rightarrow> nat \<times> 'g) \<Rightarrow> bool" where
  "draws_in_range gen_range \<longleftrightarrow> (\<forall>n r. 0 < n \<longrightarrow> fst (gen_range n r) < n)"

lemma pool_ok_draw:
  assumes ok: "pool_ok addr invs pool" and ne: "available_subaddresses pool \<noteq> []"
    and gen: "draws_in_range gen_range"
  obtains idx pool' where "remove_random addr gen_range pool = Some (Ok (idx, addr idx), pool')"
    and "pool_ok addr invs pool'"
    and "idx \<notin> available pool'"
    and "\<forall>i v. sub_index i = idx \<longrightarrow> address v = addr idx \<longrightarrow> pool_ok addr (invs(i \<mapsto> v)) pool'"
    and "\<forall>i. sub_index i = idx \<longrightarrow> i \<notin> dom invs" and "idx \<in> available pool"
proof -
  have wf: "sc_wf addr pool" using ok by (simp add: pool_ok_def)
  have gen': "\<And>n r. 0 < n \<Longrightarrow> fst (gen_range n r) < n" using gen by (simp add: draws_in_range_def)
  from wf ne gen' obtain idx pool' where r: "remove_random addr gen_range pool = Some (Ok (idx, addr idx), pool')"
    and idx: "idx \<in> available pool" and wf': "sc_wf addr pool'"
    and av: "available pool' = (available pool - {idx}) \<union>
      {j. major j = major_index pool \<and> highest_minor_index pool < minor j \<and> minor j \<le> highest_minor_index pool'}"
    and "100 \<le> cache_len pool' \<or> highest_minor_index pool' = - 1"
    and mj: "major_index pool' = major_index pool" and grow: "highest_minor_index pool \<le> highest_minor_index pool'"
    by (rule remove_random_post)
  have idx_in: "major idx = major_index pool" "minor idx \<le> highest_minor_index pool"
    using wf idx by (auto simp: sc_wf_def)
  have used: "sub_index i \<notin> available pool'" if "i \<in> dom invs" for i
    using pool_ok_used [OF ok that] unfolding av by auto
  have free: "sub_index i = idx \<Longrightarrow> i \<notin> dom invs" for i using ok idx by (auto simp: pool_ok_def)
  have keep: "pool_ok addr invs pool'"
    unfolding pool_ok_def
  proof (intro conjI ballI)
    fix i assume i: "i \<in> dom invs"
    show "minor (sub_index i) \<le> highest_minor_index pool'"
      using pool_ok_used(3) [OF ok i] grow by (rule order_trans)
    show "sub_index i \<notin> available pool'" by (rule used [OF i])
    show "major (sub_index i) = major_index pool'" using pool_ok_used(2) [OF ok i] mj by simp
  qed (use ok wf' in \<open>simp_all add: pool_ok_def\<close>)
  moreover have out: "idx \<notin> available pool'" unfolding av using idx_in(2) by auto
  moreover have "pool_ok addr (invs(i \<mapsto> v)) pool'" if i: "sub_index i = idx" "address v = addr idx" for i v
    unfolding pool_ok_def
  proof (intro conjI ballI allI impI)
    fix j assume "j \<in> dom (invs(i \<mapsto> v))"
    then have "j = i \<or> j \<in> dom invs" by auto
    then show "sub_index j \<notin> available pool'" "major (sub_index j) = major_index pool'"
      "minor (sub_index j) \<le> highest_minor_index pool'"
      using out i idx_in mj grow pool_ok_used [OF keep] by (blast, metis, force)
  next
    fix j y assume "(invs(i \<mapsto> v)) j = Some y"
    then show "address y = addr (sub_index j)" using keep i by (auto simp: pool_ok_def split: if_splits)
  next
    fix j k assume "j \<in> dom (invs(i \<mapsto> v))" "k \<in> dom (invs(i \<mapsto> v))" and eq: "sub_index j = sub_index k"
    then have "j = i \<or> j \<in> dom invs" "k = i \<or> k \<in> dom invs" by auto
    then show "j = k" using eq i free pool_ok_inj [OF ok] by metis
  qed (rule wf')
  ultimately show thesis using r free idx by (intro that allI impI)
qed

lemma pool_ok_return:
  assumes ok: "pool_ok addr invs pool" and i: "invs i = Some old"
  shows "pool_ok addr (invs(i := None)) (snd (cache_insert (sub_index i) (address old) pool))"
proof -
  have d: "distinct (map fst (available_subaddresses pool))" using ok by (simp add: pool_ok_def sc_wf_def)
  let ?pool = "snd (cache_insert (sub_index i) (address old) pool)"
  have set: "set (available_subaddresses ?pool) = insert (sub_index i, address old)
      {p \<in> set (available_subaddresses pool). fst p \<noteq> sub_index i}"
    by (simp add: cache_insert_def set_im_insert [OF d])
  have "address old = addr (sub_index i)" "major (sub_index i) = major_index pool"
    "minor (sub_index i) \<le> highest_minor_index pool"
    using ok i by (auto simp: pool_ok_def)
  then have "sc_wf addr ?pool"
    using ok d unfolding sc_wf_def set by (auto simp: pool_ok_def sc_wf_def cache_insert_def)
  moreover have "available ?pool = insert (sub_index i) (available pool)" by (auto simp: set image_iff)
  moreover have "sub_index j \<noteq> sub_index i" if "j \<in> dom invs" "j \<noteq> i" for j
    using pool_ok_inj [OF ok that(1), of i] i that by auto
  ultimately show ?thesis
    using ok by (auto simp: pool_ok_def cache_insert_def)
qed

definition gw_ok ::
  "('s \<Rightarrow> bool) \<Rightarrow> ('s \<Rightarrow> invoice_id \<Rightarrow> invoice option) \<Rightarrow> (sub_index \<Rightarrow> string)
     \<Rightarrow> ('s, 'g, 'w) gateway \<Rightarrow> bool" where
  "gw_ok sok invs addr g \<longleftrightarrow>
     (\<forall>s. gw_store g = Some s \<longrightarrow> sok s \<and> pool_ok addr (invs s) (gw_subaddresses g))"

lemma pool_ok_cong:
  assumes "\<And>i. map_option address (a i) = map_option address (b i)"
  shows "pool_ok addr a pool \<longleftrightarrow> pool_ok addr b pool"
proof -
  have "dom a = dom b" by (metis (no_types, lifting) assms domIff map_option_is_None subsetI subset_antisym)
  moreover have "(\<forall>v. a i = Some v \<longrightarrow> address v = x) \<longleftrightarrow> (\<forall>v. b i = Some v \<longrightarrow> address v = x)" for i x
    using assms [of i] by (cases "a i"; cases "b i") auto
  ultimately show ?thesis unfolding pool_ok_def by simp
qed

text \<open>The height a new invoice gets: the cached one, or the daemon's when nothing is cached yet.\<close>

definition creation_height_of ::
  "('w, 'r) monerod \<Rightarrow> ('s, 'g, 'w) gateway \<Rightarrow> (u64, 'r) result \<times> 'w" where
  "creation_height_of D g =
     (if gw_cached_daemon_height g \<noteq> 0 then (Ok (gw_cached_daemon_height g), gw_world g)
      else md_daemon_height D (gw_world g))"

lemma new_invoice_after_draw:
  assumes "remove_random addr gen_range (gw_subaddresses g) = Some (Ok (idx, a), pool)"
    and "creation_height_of D g = (rh, w)"
  shows "new_invoice S D addr gen_range amt confs expires desc g =
    (let g1 = g\<lparr>gw_subaddresses := pool, gw_world := w\<rparr>
     in case rh of
          Ok c \<Rightarrow>
            (let v = invoice_new a idx c amt confs expires desc;
                 (ri, mgr) = direct (inv_insert S v) (gw_store g)
             in case ri of
                  Ok _ \<Rightarrow> Some (Ok (invoice_ident v), g1\<lparr>gw_store := mgr,
                    gw_publisher := publisher_insert_invoice (invoice_ident v) (gw_publisher g)\<rparr>)
                | Err e \<Rightarrow> Some (Err (Storage e), g1\<lparr>gw_store := mgr\<rparr>)
                | Panic \<Rightarrow> Some (Panic, g1\<lparr>gw_store := mgr\<rparr>))
        | Err e \<Rightarrow> Some (Err (Rpc e), g1)
        | Panic \<Rightarrow> Some (Panic, g1))"
  using assms
  by (auto simp: new_invoice_def creation_height_of_def Let_def split: result.splits if_splits prod.splits)

lemma new_invoice_no_store:
  assumes "gw_store g = None" and "new_invoice S D addr gen_range amt confs expires desc g = Some (r, g')"
  shows "gw_store g' = None"
proof -
  obtain rr pool where rr: "remove_random addr gen_range (gw_subaddresses g) = Some (rr, pool)"
    using assms(2) by (auto simp: new_invoice_def split: option.splits)
  obtain rh w where h: "creation_height_of D g = (rh, w)" by force
  show ?thesis
  proof (cases rr)
    case (Ok p)
    obtain idx a where "p = (idx, a)" by force
    with rr Ok have d: "remove_random addr gen_range (gw_subaddresses g) = Some (Ok (idx, a), pool)" by simp
    show ?thesis using assms unfolding new_invoice_after_draw [OF d h]
      by (auto simp: Let_def split: result.splits)
  qed (use assms rr in \<open>auto simp: new_invoice_def Let_def\<close>)
qed

context invoice_storage
begin

lemma new_invoice_ok:
  assumes ok: "gw_ok wf invoices addr g" and gen: "draws_in_range gen_range"
    and run: "new_invoice S D addr gen_range amt confs expires desc g = Some (r, g')"
  shows "gw_ok wf invoices addr g'"
proof (cases "gw_store g")
  case None
  then show ?thesis
    using run new_invoice_no_store by (metis gw_ok_def option.distinct(1))
next
  case (Some s)
  with ok have wf: "wf s" and pool: "pool_ok addr (invoices s) (gw_subaddresses g)" by (simp_all add: gw_ok_def)
  show ?thesis
  proof (cases "available_subaddresses (gw_subaddresses g) = []")
    case True
    then have "remove_random addr gen_range (gw_subaddresses g) = Some (Panic, gw_subaddresses g)"
      by (subst remove_random.simps) simp
    then show ?thesis using run ok by (simp add: new_invoice_def gw_ok_def)
  next
    case False
    obtain idx pool' where d: "remove_random addr gen_range (gw_subaddresses g) = Some (Ok (idx, addr idx), pool')"
      and keep: "pool_ok addr (invoices s) pool'" and "idx \<notin> available pool'"
      and add: "\<forall>i v. sub_index i = idx \<longrightarrow> address v = addr idx \<longrightarrow> pool_ok addr ((invoices s)(i \<mapsto> v)) pool'"
      and "\<forall>i. sub_index i = idx \<longrightarrow> i \<notin> dom (invoices s)" and "idx \<in> available (gw_subaddresses g)"
      by (rule pool_ok_draw [OF pool False gen])
    obtain rh w where h: "creation_height_of D g = (rh, w)" by force
    show ?thesis
    proof (cases rh)
      case (Ok c)
      let ?v = "invoice_new (addr idx) idx c amt confs expires desc"
      obtain ri s' where ri: "inv_insert S ?v s = (ri, s')" by force
      have "wf s'" using insert_wf [OF wf, of ?v] ri by simp
      moreover have "pool_ok addr (invoices s') pool'"
      proof (cases "ri = Ok ()")
        case True
        then show ?thesis using insert_Ok [OF wf, of ?v s'] ri by (simp add: add invoice_new_def invoice_ident_def)
      qed (use insert_fail [OF wf ri] keep in simp)
      ultimately show ?thesis
        using run unfolding new_invoice_after_draw [OF d h]
        by (auto simp: Ok Some direct_def ri gw_ok_def Let_def split: result.splits)
    qed (use run keep wf Some in \<open>auto simp: new_invoice_after_draw [OF d h] gw_ok_def Let_def\<close>)
  qed
qed

lemma remove_invoice_ok:
  assumes ok: "gw_ok wf invoices addr g" and run: "remove_invoice S i g = (r, g')"
  shows "gw_ok wf invoices addr g'"
proof (cases "gw_store g")
  case None
  then show ?thesis using run by (auto simp: remove_invoice_def gw_ok_def)
next
  case (Some s)
  with ok have wf: "wf s" and pool: "pool_ok addr (invoices s) (gw_subaddresses g)" by (simp_all add: gw_ok_def)
  obtain rr s' where rr: "inv_remove S i s = (rr, s')" by force
  have wf': "wf s'" using remove_wf [OF wf, of i] rr by simp
  show ?thesis
  proof (cases rr)
    case (Ok removed)
    with remove_Ok [OF wf, of i removed s'] rr have "removed = invoices s i" "invoices s' = (invoices s)(i := None)"
      by simp_all
    then show ?thesis
      using run wf' pool pool_ok_return [OF pool, of i]
      by (cases "invoices s i") (auto simp: remove_invoice_def gw_ok_def Some direct_def rr Ok Let_def fun_upd_idem)
  qed (use run wf' pool remove_fail [OF wf rr] in \<open>auto simp: remove_invoice_def gw_ok_def Some direct_def rr Let_def\<close>)
qed

end

text \<open>A scan, whatever its result, keeps which invoices are stored and their addresses.\<close>

lemma update_closure_rows:
  assumes "try_rows (update_closure ts d H) rows acc = (Ok (), acc')" and "v \<in> set acc'"
  shows "v \<in> set acc \<or> (\<exists>old. Ok old \<in> set rows \<and> update_one ts d H old = Some v)"
  using assms
proof (induction rows arbitrary: acc)
  case (Cons row rows)
  then show ?case
    by (cases row) (force simp: update_closure_def split: option.splits)+
qed simp

lemma address_update_one: "update_one ts d H old = Some v \<Longrightarrow> address v = address old"
  using refresh_frame [of ts d H old] by (simp add: refresh_def)

context full_storage
begin

abbreviation addr_le :: "'s option \<Rightarrow> 's option \<Rightarrow> bool" where
  "addr_le \<equiv> scan_le wf (\<lambda>s i. map_option address (invoices s i)) (\<lambda>_ _. None)"

lemma addr_le_store: "le_store m m' \<Longrightarrow> addr_le m m'"
  unfolding scan_le_def by (metis map_le_refl)

lemma save_addr_le:
  fixes self :: "('s, 'w) scanner"
  assumes "\<And>s. sc_store self = Some s \<Longrightarrow> wf s"
    and "\<And>s v. sc_store self = Some s \<Longrightarrow> v \<in> set vs \<Longrightarrow>
      map_option address (invoices s (invoice_ident v)) = Some (address v)"
  shows "addr_le (sc_store self) (sc_store (save_invoices S vs self))"
  using assms
proof (induction vs arbitrary: self)
  case (Cons v vs)
  obtain r m where r: "direct (inv_update S v) (sc_store self) = (r, m)" by force
  have le: "addr_le (sc_store self) m"
  proof (cases "sc_store self")
    case (Some s)
    obtain ru s' where ru: "inv_update S v s = (ru, s')" by force
    have "wf s' \<and> map_option address (invoices s' i) = map_option address (invoices s i)" if "wf s" for i
      using update_wf [OF that, of v] update_Ok [OF that, of v _ s'] update_fail [OF that ru]
        Cons.prems(2) [OF Some, of v] ru by (cases ru) auto
    then show ?thesis using r by (auto simp: Some direct_def ru scan_le_def split: result.splits)
  qed (use r in simp)
  have rest: "addr_le m (sc_store (save_invoices S vs self'))" if "sc_store self' = m" for self' :: "('s, 'w) scanner"
  proof -
    have "wf s' \<and> (\<forall>w \<in> set vs. map_option address (invoices s' (invoice_ident w)) = Some (address w))"
      if m: "m = Some s'" for s'
    proof -
      from le m obtain s where s: "sc_store self = Some s" and
          "wf s \<longrightarrow> wf s' \<and> (\<lambda>i. map_option address (invoices s' i)) = (\<lambda>i. map_option address (invoices s i))"
        by (auto simp: scan_le_def)
      with Cons.prems show ?thesis by (metis list.set_intros(2))
    qed
    with Cons.IH [of self'] that show ?thesis by auto
  qed
  show ?case
    using scan_le_trans [OF le rest] by (auto simp: r Let_def split: result.splits prod.splits)
qed simp

lemma update_invoices_stored:
  assumes "update_invoices S ts k H (Some s) = (Ok vs, m)" and "wf s" and "v \<in> set vs"
  shows "map_option address (invoices s (invoice_ident v)) = Some (address v)"
proof -
  let ?d = "H - of_nat k + 1"
  obtain rows where rows: "inv_rows S s = Ok rows"
    using assms(1) by (auto simp: update_invoices_def Let_def try_for_each_def direct_def split: result.splits)
  obtain r acc where run: "try_rows (update_closure ts ?d H) rows [] = (r, acc)" by force
  have "r = Ok () \<and> acc = vs"
    using assms(1) by (cases r) (auto simp: update_invoices_def Let_def try_for_each_def rows run direct_def)
  with run update_closure_rows [of ts ?d H rows "[]" vs v] assms(3)
  obtain old where old: "Ok old \<in> set rows" "update_one ts ?d H old = Some v" by auto
  have "invoices s (invoice_ident old) = Some old" by (rule rows_sound [OF assms(2) rows old(1)])
  then show ?thesis by (simp add: ident_update_one [OF old(2)] address_update_one [OF old(2)])
qed

lemma upsert_addr_le: "addr_le m (snd (direct (height_upsert S h) m))"
  using upsert_wf [of _ h] upsert_invoices [of _ h]
  by (cases m) (auto simp: direct_def scan_le_def split: result.splits prod.splits, (metis snd_conv)+)

lemma apply_transfers_addr_le:
  "addr_le (sc_store self) (sc_store (snd (apply_transfers S ts k self
     :: (_, ('e, 'r, 'm) scanner_error) result \<times> _)))"
proof -
  let ?P = "\<lambda>s. addr_le (sc_store self) (sc_store s)"
  obtain ru m where ru: "(update_invoices S ts k (bc_height (sc_block_cache self)) (sc_store self)
      :: (_, ('e, 'r, 'm) scanner_error) result \<times> _) = (ru, m)" by force
  have m: "addr_le (sc_store self) m"
    using update_invoices_store [of ts k "bc_height (sc_block_cache self)" "sc_store self"]
    by (metis ru scan_le_reading snd_conv)
  show ?thesis
  proof (cases ru)
    case (Ok vs)
    then obtain s where s: "sc_store self = Some s"
      using ru by (cases "sc_store self") (auto simp: update_invoices_def Let_def)
    have "m = Some s"
      using ru Ok s by (auto simp: update_invoices_def Let_def direct_def split: result.splits prod.splits)
    then have "self\<lparr>sc_store := m\<rparr> = self" using s by simp
    moreover have save: "?P (save_invoices S vs self)"
    proof (cases "wf s")
      case True
      with update_invoices_stored [OF ru [unfolded s Ok]] show ?thesis by (intro save_addr_le) (auto simp: s)
    next
      case False
      with save_keys_le [of self vs] show ?thesis by (auto simp: s scan_le_def)
    qed
    moreover have store: "?P (snd (on_store f s :: (_, ('e, 'r, 'm) scanner_error) result \<times> _))"
      if "?P s" and "\<And>m. addr_le m (snd (f m))"
      for s and f :: "'s option \<Rightarrow> ('x, 'e storage_error) result \<times> 's option"
      using scan_le_trans [OF that(1) that(2)] by (auto simp: on_store_def split: prod.splits)
    have "?P (snd (try_st (on_store (client_upsert_height S h) (save_invoices S vs self)
        :: (_, ('e, 'r, 'm) scanner_error) result \<times> _) (\<lambda>_ self3. on_store (client_flush S) self3)))" for h
      by (rule try_st_snd [where P = ?P]) (auto intro!: store save upsert_addr_le)
    ultimately show ?thesis by (simp add: apply_transfers_def ru Ok Let_def)
  qed (simp_all add: apply_transfers_def ru m)
qed

lemma scan_addr_le:
  "addr_le (sc_store self) (sc_store (snd (scan S D check self
     :: (_, ('e, 'r, 'm) scanner_error) result \<times> _)))"
proof -
  let ?P = "\<lambda>s. addr_le (sc_store self) (sc_store s)"
  show ?thesis
    unfolding scan_def
  proof (rule try_st_snd [where P = ?P], simp, goal_cases)
    case (1 kn self1)
    have "?P (snd (try_st (find_transfers S check (fst kn) (snd kn) self1
        :: (_, ('e, 'r, 'm) scanner_error) result \<times> _) (\<lambda>ts self2. apply_transfers S ts (fst kn) self2)))"
    proof (rule try_st_snd [where P = ?P], goal_cases)
      case 1
      show ?case by (rule scan_le_trans [OF \<open>?P self1\<close> addr_le_store [OF find_transfers_le]])
    next
      case (2 ts self2)
      then show ?case by (intro scan_le_trans [OF _ apply_transfers_addr_le])
    qed
    then show ?case by (cases kn) simp
  qed
qed

end

text \<open>
  Everything that changes the pool or the stored invoices after \<open>build\<close>: new and removed invoices and
  scans, in any order and with any result.  A scan runs on the gateway's own store; the heights it
  publishes to the gateway are not constrained.
\<close>

inductive gw_step ::
  "('s, 'e) storage \<Rightarrow> ('w, 'r) monerod \<Rightarrow> (sub_index \<Rightarrow> string) \<Rightarrow> (nat \<Rightarrow> 'g \<Rightarrow> nat \<times> 'g)
     \<Rightarrow> (transaction \<Rightarrow> (owned_tx_out list, 'm) result)
     \<Rightarrow> ('s, 'g, 'w) gateway \<Rightarrow> ('s, 'g, 'w) gateway \<Rightarrow> bool"
  for S D addr gen_range check where
  step_new: "new_invoice S D addr gen_range amt confs expires desc g
      = Some (r :: (_, ('e, 'r, 'm) accept_xmr_error) result, g')
    \<Longrightarrow> gw_step S D addr gen_range check g g'"
| step_remove: "remove_invoice S i g = (r :: (_, ('e, 'r, 'm) accept_xmr_error) result, g')
    \<Longrightarrow> gw_step S D addr gen_range check g g'"
| step_scan: "sc_store sc = gw_store g
    \<Longrightarrow> scan S D check sc = (r :: (_, ('e, 'r, 'm) scanner_error) result, sc')
    \<Longrightarrow> gw_step S D addr gen_range check g
          (g\<lparr>gw_store := sc_store sc', gw_publisher := sc_publisher sc', gw_channels := sc_channels sc',
             gw_cached_daemon_height := dh, gw_block_cache_height := bh, gw_world := sc_world sc'\<rparr>)"

context full_storage
begin

lemma gw_step_ok:
  assumes "gw_step S D addr gen_range check g g'" and "gw_ok wf invoices addr g" and "draws_in_range gen_range"
  shows "gw_ok wf invoices addr g'"
  using assms
proof (induction rule: gw_step.induct)
  case (step_new amt confs expires desc g r g')
  then show ?case by (intro new_invoice_ok [OF _ _ step_new.hyps])
next
  case (step_remove i g r g')
  then show ?case by (intro remove_invoice_ok [OF _ step_remove.hyps])
next
  case (step_scan sc g r sc' dh bh)
  have le: "addr_le (gw_store g) (sc_store sc')" by (metis scan_addr_le snd_conv step_scan.hyps)
  have "wf s' \<and> pool_ok addr (invoices s') (gw_subaddresses g)" if s': "sc_store sc' = Some s'" for s'
  proof -
    from le s' obtain s where s: "gw_store g = Some s" and
        keep: "wf s \<longrightarrow> wf s' \<and> (\<lambda>i. map_option address (invoices s' i)) = (\<lambda>i. map_option address (invoices s i))"
      by (auto simp: scan_le_def)
    from step_scan.prems(1) s have "wf s" "pool_ok addr (invoices s) (gw_subaddresses g)" by (simp_all add: gw_ok_def)
    moreover from this keep have "map_option address (invoices s' i) = map_option address (invoices s i)" for i
      by meson
    ultimately show ?thesis
      using keep pool_ok_cong [of "invoices s'" "invoices s" addr "gw_subaddresses g"] by simp
  qed
  then show ?case by (simp add: gw_ok_def)
qed

lemma gw_steps_ok:
  assumes "(gw_step S D addr gen_range check)\<^sup>*\<^sup>* g g'" and "gw_ok wf invoices addr g"
    and "draws_in_range gen_range"
  shows "gw_ok wf invoices addr g'"
  using assms by (induction rule: rtranclp_induct) (auto intro: gw_step_ok)

end

lemma build_inner_ok:
  assumes wf: "im_wf (builder_store b)"
    and own: "\<forall>i v. im_invoice_map (builder_store b) i = Some v \<longrightarrow>
      major (sub_index i) = builder_major_index b \<and> address v = get_subaddress view spend (sub_index i)"
    and inj: "\<forall>i j. i \<in> dom (im_invoice_map (builder_store b)) \<longrightarrow> j \<in> dom (im_invoice_map (builder_store b))
      \<longrightarrow> sub_index i = sub_index j \<longrightarrow> i = j"
    and keys: "parse_key (private_view_key b) = Ok view" "parse_address (primary_address b) = Ok spend"
    and g: "build_inner in_memory parse_key parse_address get_subaddress ent fs b w = Ok g"
  shows "gw_ok im_wf im_invoice_map (get_subaddress view spend) g"
proof -
  let ?s = "builder_store b" and ?addr = "get_subaddress view spend"
  obtain vs where rows: "inv_rows in_memory ?s = Ok (map Ok vs)" using imr.rows_return [OF wf] by blast
  have dom: "(\<exists>v \<in> set vs. index v = sub_index i) \<and> sub_index i \<in> index ` set vs" if i: "i \<in> dom (im_invoice_map ?s)" for i
  proof -
    obtain v where v: "im_invoice_map ?s i = Some v" using i by blast
    have "Ok v \<in> set (map (Ok :: _ \<Rightarrow> (_, in_memory_storage_error) result) vs)" by (rule im.rows_complete [OF wf rows v]) auto
    moreover have "index v = sub_index i" using im.ident [OF wf v] by (auto simp: invoice_ident_def)
    ultimately show ?thesis by force
  qed
  have all: "\<forall>v \<in> set vs. major (index v) = builder_major_index b"
  proof
    fix v assume "v \<in> set vs"
    then have "im_invoice_map ?s (invoice_ident v) = Some v" by (intro im.rows_sound [OF wf rows]) auto
    with own show "major (index v) = builder_major_index b" by (force simp: invoice_ident_def)
  qed
  obtain c where c: "subaddress_cache_init in_memory ?addr ent fs (builder_major_index b) (seed b) (Some ?s) = (Ok c, Some ?s)"
    and cwf: "sc_wf ?addr c" and maj: "major_index c = builder_major_index b" and "99 \<le> highest_minor_index c"
    and av: "available c = {i. major i = builder_major_index b \<and> minor i \<le> highest_minor_index c} - index ` set vs"
    and hi: "(\<forall>v \<in> set vs. major (index v) = builder_major_index b) \<longrightarrow> (\<forall>v \<in> set vs. minor (index v) \<le> highest_minor_index c)"
    by (rule subaddress_cache_init_post [OF rows])
  have g': "gw_store g = Some ?s" "gw_subaddresses g = c"
    using g by (auto simp: build_inner_def keys c)
  have "pool_ok ?addr (im_invoice_map ?s) c"
    unfolding pool_ok_def
  proof (intro conjI ballI allI impI)
    fix i assume i: "i \<in> dom (im_invoice_map ?s)"
    show "sub_index i \<notin> available c" using dom [OF i] by (simp add: av)
    show "major (sub_index i) = major_index c" using own i maj by auto
    show "minor (sub_index i) \<le> highest_minor_index c" using dom [OF i] hi all by metis
  qed (use cwf own inj in auto)
  with g' wf show ?thesis by (simp add: gw_ok_def)
qed

definition gw_invoices :: "(in_memory_store, 'g, 'w) gateway \<Rightarrow> invoice_id \<Rightarrow> invoice option" where
  "gw_invoices g = (case gw_store g of Some s \<Rightarrow> im_invoice_map s | None \<Rightarrow> Map.empty)"

lemma new_invoice_in_memory:
  fixes D :: "('w, 'r) monerod"
  assumes ok: "gw_ok im_wf im_invoice_map addr g" and s: "gw_store g = Some s"
    and ne: "available_subaddresses (gw_subaddresses g) \<noteq> []" and gen: "draws_in_range gen_range"
    and h: "creation_height_of D g = (rh, w)"
  obtains r g' idx where "new_invoice in_memory D addr gen_range amt confs expires desc g
      = Some (r :: (_, (in_memory_storage_error, 'r, 'm) accept_xmr_error) result, g')"
    and "idx \<in> available (gw_subaddresses g)" and "\<forall>i. sub_index i = idx \<longrightarrow> gw_invoices g i = None"
    and "idx \<notin> available (gw_subaddresses g')" and "gw_ok im_wf im_invoice_map addr g'"
    and "case rh of
         Ok c \<Rightarrow> (let v = invoice_new (addr idx) idx c amt confs expires desc
                  in r = Ok (invoice_ident v) \<and> gw_invoices g' = (gw_invoices g)(invoice_ident v \<mapsto> v))
       | Err e \<Rightarrow> r = Err (Rpc e) \<and> gw_invoices g' = gw_invoices g
       | Panic \<Rightarrow> r = Panic \<and> gw_invoices g' = gw_invoices g"
proof -
  have wf: "im_wf s" and pool: "pool_ok addr (im_invoice_map s) (gw_subaddresses g)"
    using ok s by (simp_all add: gw_ok_def)
  obtain idx pool' where d: "remove_random addr gen_range (gw_subaddresses g) = Some (Ok (idx, addr idx), pool')"
    and "pool_ok addr (im_invoice_map s) pool'" and out: "idx \<notin> available pool'"
    and "\<forall>i v. sub_index i = idx \<longrightarrow> address v = addr idx \<longrightarrow> pool_ok addr ((im_invoice_map s)(i \<mapsto> v)) pool'"
    and fresh: "\<forall>i. sub_index i = idx \<longrightarrow> i \<notin> dom (im_invoice_map s)" and avail: "idx \<in> available (gw_subaddresses g)"
    by (rule pool_ok_draw [OF pool ne gen])
  obtain r g' where run: "new_invoice in_memory D addr gen_range amt confs expires desc g
      = Some (r :: (_, (in_memory_storage_error, 'r, 'm) accept_xmr_error) result, g')"
      and pl: "gw_subaddresses g' = pool'"
      and res: "case rh of
         Ok c \<Rightarrow> (let v = invoice_new (addr idx) idx c amt confs expires desc
                  in r = Ok (invoice_ident v) \<and> gw_invoices g' = (gw_invoices g)(invoice_ident v \<mapsto> v))
       | Err e \<Rightarrow> r = Err (Rpc e) \<and> gw_invoices g' = gw_invoices g
       | Panic \<Rightarrow> r = Panic \<and> gw_invoices g' = gw_invoices g"
  proof (cases rh)
    case (Ok c)
    let ?v = "invoice_new (addr idx) idx c amt confs expires desc"
    let ?s = "s\<lparr>im_invoices := bt_insert (invoice_ident ?v) ?v (im_invoices s)\<rparr>"
    have "im_invoice_map s (invoice_ident ?v) = None" using fresh by (simp add: invoice_new_def invoice_ident_def domIff)
    then have "inv_insert in_memory ?v s = (Ok (), ?s)"
      by (simp add: im_method_defs im_invoice_map_def split: option.splits)
    moreover from this have "im_invoice_map ?s = (im_invoice_map s)(invoice_ident ?v \<mapsto> ?v)"
      using im.insert_Ok [OF wf] by blast
    ultimately show thesis
      using that [of "Ok (invoice_ident ?v)"] s
      by (simp add: new_invoice_after_draw [OF d h] Ok direct_def Let_def gw_invoices_def)
  next
    case (Err e)
    then show thesis
      using that [of "Err (Rpc e)"] by (simp add: new_invoice_after_draw [OF d h] gw_invoices_def Let_def)
  next
    case Panic
    then show thesis
      using that [of Panic] by (simp add: new_invoice_after_draw [OF d h] gw_invoices_def Let_def)
  qed
  have "gw_ok im_wf im_invoice_map addr g'" by (rule im.new_invoice_ok [OF ok gen run])
  then show thesis
    using out avail fresh s run res pl by (intro that [of r g' idx]) (auto simp: gw_invoices_def domIff)
qed

section \<open>Properties\<close>

text \<open>
  No two tracked invoices ever share a subaddress.  Start from a gateway built over a store whose
  invoices belong to its account and have different subaddresses (an empty store, or one the gateway
  wrote), then create invoices, remove invoices and scan in any order and with any results: tracked
  invoices have different subaddress indices, each has the address derived from its index, and none
  of these subaddresses is available for a new invoice.
\<close>

theorem no_two_invoices_share_subaddress:
  fixes D :: "('w, 'r) monerod" and check :: "transaction \<Rightarrow> (owned_tx_out list, 'm) result"
  assumes "im_wf (builder_store b)"
    and "\<forall>i v. im_invoice_map (builder_store b) i = Some v \<longrightarrow>
      major (sub_index i) = builder_major_index b \<and> address v = get_subaddress view spend (sub_index i)"
    and "\<forall>i j. i \<in> dom (im_invoice_map (builder_store b)) \<longrightarrow> j \<in> dom (im_invoice_map (builder_store b))
      \<longrightarrow> sub_index i = sub_index j \<longrightarrow> i = j"
    and "parse_key (private_view_key b) = Ok view" "parse_address (primary_address b) = Ok spend"
    and "build_inner in_memory parse_key parse_address get_subaddress ent fs b w
      = (Ok g0 :: (_, (in_memory_storage_error, 'r, 'm) accept_xmr_error) result)"
    and "draws_in_range gen_range"
    and "(gw_step in_memory D (get_subaddress view spend) gen_range check)\<^sup>*\<^sup>* g0 g"
    and "gw_invoices g i = Some v" and "gw_invoices g j = Some v'"
  shows "(sub_index i = sub_index j \<longrightarrow> i = j) \<and> address v = get_subaddress view spend (sub_index i)
    \<and> sub_index i \<notin> available (gw_subaddresses g)"
proof -
  have "gw_ok im_wf im_invoice_map (get_subaddress view spend) g"
    by (rule im.gw_steps_ok [OF assms(8) build_inner_ok [OF assms(1-6)] assms(7)])
  with assms(9,10) show ?thesis
    by (auto simp: gw_ok_def gw_invoices_def pool_ok_def Ball_def domIff split: option.splits)
qed

definition ex_builder :: "in_memory_store builder" where
  "ex_builder = builder_new ''k'' ''p'' im_new"

definition ex_gateway :: "u64 \<Rightarrow> (in_memory_store, unit, bool) gateway" where
  "ex_gateway h = \<lparr>gw_store = Some im_new, gw_subaddresses = cache_from_used (\<lambda>_. ''x'') 0 () [],
     gw_publisher = publisher_new, gw_channels = (\<lambda>_. \<lparr>closed = False, queue = []\<rparr>),
     gw_cached_daemon_height = h, gw_block_cache_height = 0, gw_initial_height = None,
     gw_scan_interval = 1000, gw_world = True\<rparr>"

type_synonym ex_error = "(in_memory_storage_error, unit, unit) accept_xmr_error"

lemma ex_build:
  "build_inner in_memory Ok Ok (\<lambda>_ _ _. ''x'') () (\<lambda>_. ()) ex_builder True = (Ok (ex_gateway 0) :: (_, ex_error) result)"
  by (simp add: build_inner_def ex_builder_def builder_new_def ex_gateway_def subaddress_cache_init_def
      im_new_def im_rows_def in_memory_def try_for_each_def direct_def)

lemma ex_gateway_ok: "gw_ok im_wf im_invoice_map (\<lambda>_. ''x'') (ex_gateway h)"
  using im_wf_new by (simp add: gw_ok_def ex_gateway_def pool_ok_def cache_from_used_wf im_new_def im_invoice_map_def)

lemma ex_gateway_pool: "available_subaddresses (gw_subaddresses (ex_gateway h)) \<noteq> []"
proof -
  have "SubIndex 0 0 \<in> available (gw_subaddresses (ex_gateway h))"
    by (simp add: ex_gateway_def cache_from_used_available)
  then show ?thesis by auto
qed

lemma ex_draws: "draws_in_range (\<lambda>n r. (n - 1, r))"
  by (simp add: draws_in_range_def)

theorem no_two_invoices_share_subaddress_witness:
  "\<exists>g i v. (gw_step in_memory (ex_node 6 6) (\<lambda>_. ''x'') (\<lambda>n r. (n - 1, r)) ex_check)\<^sup>*\<^sup>* (ex_gateway 0) g
     \<and> gw_invoices g i = Some v \<and> sub_index i \<notin> available (gw_subaddresses g)"
proof -
  have s: "gw_store (ex_gateway 0) = Some im_new" by (simp add: ex_gateway_def)
  have h: "creation_height_of (ex_node 6 6) (ex_gateway 0) = (Ok 7, True)"
    by (simp add: creation_height_of_def ex_gateway_def ex_node_def)
  obtain g i v where g: "new_invoice in_memory (ex_node 6 6) (\<lambda>_. ''x'') (\<lambda>n r. (n - 1, r)) 5 2 20 ''d'' (ex_gateway 0)
        = Some (Ok i :: (_, ex_error) result, g)" and v: "gw_invoices g i = Some v"
    by (rule new_invoice_in_memory [OF ex_gateway_ok s ex_gateway_pool ex_draws h, of 5 2 20 "''d''"])
      (auto simp: Let_def intro!: that)
  have run: "(gw_step in_memory (ex_node 6 6) (\<lambda>_. ''x'') (\<lambda>n r. (n - 1, r)) ex_check)\<^sup>*\<^sup>* (ex_gateway 0) g"
    using step_new [OF g] by (rule r_into_rtranclp)
  have "im_wf (builder_store ex_builder)" by (simp add: ex_builder_def builder_new_def im_wf_new)
  note * = no_two_invoices_share_subaddress [OF this _ _ _ _ ex_build ex_draws run v v]
  have "sub_index i \<notin> available (gw_subaddresses g)"
    using * by (simp add: ex_builder_def builder_new_def im_new_def im_invoice_map_def)
  with run v show ?thesis by blast
qed

text \<open>
  C12. \<open>new_invoice\<close> on every branch.  It draws a subaddress that was available and that no tracked
  invoice uses; it takes the cached daemon height, or asks the daemon while none is cached; it then
  tracks exactly one more invoice, under the ID it returns.  When the daemon cannot be asked the error
  is returned and nothing is tracked, but the subaddress has left the pool all the same.
\<close>

theorem new_invoice_spec:
  fixes D :: "('w, 'r) monerod"
  assumes ok: "gw_ok im_wf im_invoice_map addr g" and s: "gw_store g = Some s"
    and ne: "available_subaddresses (gw_subaddresses g) \<noteq> []" and gen: "draws_in_range gen_range"
    and h: "creation_height_of D g = (rh, w)"
  shows "\<exists>idx r g'. new_invoice in_memory D addr gen_range amt confs expires desc g
      = Some (r :: (_, (in_memory_storage_error, 'r, 'm) accept_xmr_error) result, g')
    \<and> idx \<in> available (gw_subaddresses g) \<and> (\<forall>i. sub_index i = idx \<longrightarrow> gw_invoices g i = None)
    \<and> idx \<notin> available (gw_subaddresses g') \<and> gw_ok im_wf im_invoice_map addr g'
    \<and> (case rh of
         Ok c \<Rightarrow> (let v = invoice_new (addr idx) idx c amt confs expires desc
                  in r = Ok (invoice_ident v) \<and> gw_invoices g' = (gw_invoices g)(invoice_ident v \<mapsto> v))
       | Err e \<Rightarrow> r = Err (Rpc e) \<and> gw_invoices g' = gw_invoices g
       | Panic \<Rightarrow> r = Panic \<and> gw_invoices g' = gw_invoices g)"
  by (rule new_invoice_in_memory [OF assms]) (intro exI conjI)

theorem new_invoice_spec_witness:
  "\<exists>idx i g'. new_invoice in_memory (ex_node 6 6) (\<lambda>_. ''x'') (\<lambda>n r. (n - 1, r)) 5 2 20 ''d'' (ex_gateway 9)
       = Some (Ok i :: (_, ex_error) result, g')
     \<and> gw_invoices g' i = Some (invoice_new ''x'' idx 9 5 2 20 ''d'')"
proof -
  have s: "gw_store (ex_gateway 9) = Some im_new" by (simp add: ex_gateway_def)
  have h: "creation_height_of (ex_node 6 6) (ex_gateway 9) = (Ok 9, True)"
    by (simp add: creation_height_of_def ex_gateway_def)
  show ?thesis
    using new_invoice_spec [OF ex_gateway_ok s ex_gateway_pool ex_draws h, of 5 2 20 "''d''"]
    by (force simp: Let_def)
qed

lemma remove_invoice_in_memory:
  fixes g :: "(in_memory_store, 'g, 'w) gateway"
  assumes ok: "gw_ok im_wf im_invoice_map addr g" and s: "gw_store g = Some s"
  shows "\<exists>g'. remove_invoice in_memory i g
      = (Ok (gw_invoices g i) :: (_, (in_memory_storage_error, 'r, 'm) accept_xmr_error) result, g')
    \<and> gw_invoices g' = (gw_invoices g)(i := None) \<and> gw_ok im_wf im_invoice_map addr g'
    \<and> available (gw_subaddresses g') = (if gw_invoices g i = None then available (gw_subaddresses g)
         else insert (sub_index i) (available (gw_subaddresses g)))
    \<and> gw_publisher g' = (if gw_invoices g i = None then gw_publisher g
         else publisher_remove_invoice i (gw_publisher g)) \<and> (\<exists>s'. gw_store g' = Some s')"
proof -
  have wf: "im_wf s" and pool: "pool_ok addr (im_invoice_map s) (gw_subaddresses g)"
    using ok s by (simp_all add: gw_ok_def)
  obtain old s' where r: "inv_remove in_memory i s = (Ok old, s')" by (auto simp: im_method_defs)
  have old: "old = im_invoice_map s i" "im_invoice_map s' = (im_invoice_map s)(i := None)"
    using im.remove_Ok [OF wf r] by simp_all
  have d: "distinct (map fst (available_subaddresses (gw_subaddresses g)))"
    using pool by (simp add: pool_ok_def sc_wf_def)
  let ?g = "(g\<lparr>gw_store := Some s'\<rparr>)\<lparr>gw_subaddresses := (case old of None \<Rightarrow> gw_subaddresses g
        | Some v \<Rightarrow> snd (cache_insert (sub_index i) (address v) (gw_subaddresses g))),
      gw_publisher := (case old of None \<Rightarrow> gw_publisher g | Some v \<Rightarrow> publisher_remove_invoice i (gw_publisher g))\<rparr>"
  have run: "remove_invoice in_memory i g
      = (Ok old :: (_, (in_memory_storage_error, 'r, 'm) accept_xmr_error) result, ?g)"
    by (cases old) (simp_all add: remove_invoice_def s direct_def r del: in_memory_sel)
  have "available (snd (cache_insert (sub_index i) a pool)) = insert (sub_index i) (available pool)"
    if "distinct (map fst (available_subaddresses pool))" for a and pool :: "'g subaddress_cache"
    by (auto simp: cache_insert_def set_im_insert [OF that] image_iff)
  then show ?thesis
    using run old d im.remove_invoice_ok [OF ok run]
    by (intro exI [of _ ?g] conjI) (auto simp: gw_invoices_def s split: option.splits)
qed

text \<open>
  C13. \<open>remove_invoice\<close> returns the tracked invoice, or \<open>None\<close> when there is none and then changes
  nothing.  Otherwise exactly that invoice is forgotten, its subaddress is available again, and its
  subscribers are dropped.
\<close>

theorem remove_invoice_spec:
  fixes g :: "(in_memory_store, 'g, 'w) gateway"
  assumes ok: "gw_ok im_wf im_invoice_map addr g" and s: "gw_store g = Some s"
  shows "\<exists>g'. remove_invoice in_memory i g
      = (Ok (gw_invoices g i) :: (_, (in_memory_storage_error, 'r, 'm) accept_xmr_error) result, g')
    \<and> gw_invoices g' = (gw_invoices g)(i := None) \<and> gw_ok im_wf im_invoice_map addr g'
    \<and> available (gw_subaddresses g') = (if gw_invoices g i = None then available (gw_subaddresses g)
         else insert (sub_index i) (available (gw_subaddresses g)))
    \<and> gw_publisher g' = (if gw_invoices g i = None then gw_publisher g
         else publisher_remove_invoice i (gw_publisher g))"
  using remove_invoice_in_memory [OF assms, where 'r = 'r and 'm = 'm] by blast

theorem remove_invoice_spec_witness:
  "\<exists>g'. remove_invoice in_memory (InvoiceId (SubIndex 0 3) 7) (ex_gateway 0) = (Ok None :: (_, ex_error) result, g')
     \<and> available (gw_subaddresses g') = available (gw_subaddresses (ex_gateway 0))"
proof -
  have s: "gw_store (ex_gateway 0) = Some im_new" by (simp add: ex_gateway_def)
  have "gw_invoices (ex_gateway 0) i = None" for i
    by (simp add: gw_invoices_def ex_gateway_def im_invoice_map_def im_new_def)
  then show ?thesis
    using remove_invoice_spec [OF ex_gateway_ok s, of "InvoiceId (SubIndex 0 3) 7"] by auto
qed

end
