(* ===== verification/Config.thy ===== *)
theory Config
  imports Gateway
begin

text \<open>
  The server's configuration, \<open>server/src/config\<close>, and what \<open>server/src/lib.rs\<close> makes of it.

  Parameters: the environment (\<open>std::env::var\<close>), the YAML reader and writer, the parser of private
  keys and the printers of addresses and URIs.  A configuration file is absent, unreadable, or text.
  A failed \<open>assert!\<close> or \<open>expect\<close> is \<open>Panic\<close>.
\<close>

section \<open>The parts of a configuration\<close>

record tls_config =
  tls_cert :: string
  tls_key :: string

record server_config =
  port :: "16 word"
  ipv4 :: string
  ipv6 :: "string option"
  token :: "string option"
  tls :: "tls_config option"
  static_dir :: string

record callback_config =
  queue_size :: nat
  max_retries :: "nat option"

record 'a wallet_config =
  wallet_address :: "'a option"
  private_viewkey :: "string option"
  account_index :: u32
  restore_height :: "u64 option"

record daemon_login =
  login_username :: string
  login_password :: "string option"

text \<open>Durations are in milliseconds.\<close>

record 'u daemon_config =
  node_url :: 'u
  login :: "daemon_login option"
  node_rpc_timeout :: nat
  connection_timeout :: nat

record database_config =
  db_path :: string
  delete_expired :: bool

datatype level_filter = Off | Error | Warn | Info | Debug | Trace

record ('a, 'u) config =
  external_api :: server_config
  internal_api :: server_config
  callback_cfg :: callback_config
  wallet :: "'a wallet_config"
  daemon :: "'u daemon_config"
  database :: database_config
  logging :: level_filter

definition server_config_default :: server_config where
  "server_config_default =
     \<lparr>port = 8080, ipv4 = ''127.0.0.1'', ipv6 = Some ''::1'', token = None, tls = None,
      static_dir = ''./server/static/''\<rparr>"

definition callback_config_default :: callback_config where
  "callback_config_default = \<lparr>queue_size = 1000, max_retries = Some 50\<rparr>"

definition wallet_config_default :: "'a wallet_config" where
  "wallet_config_default = \<lparr>wallet_address = None, private_viewkey = None, account_index = 0, restore_height = None\<rparr>"

definition daemon_config_default :: "(string \<Rightarrow> 'u) \<Rightarrow> 'u daemon_config" where
  "daemon_config_default from_static =
     \<lparr>node_url = from_static ''https://xmr-node.cakewallet.com:18081'', login = None,
      node_rpc_timeout = 30000, connection_timeout = 20000\<rparr>"

definition database_config_default :: database_config where
  "database_config_default = \<lparr>db_path = ''AcceptXMR_DB/'', delete_expired = True\<rparr>"

definition config_default :: "(string \<Rightarrow> 'u) \<Rightarrow> ('a, 'u) config" where
  "config_default from_static =
     \<lparr>external_api = server_config_default,
      internal_api = server_config_default\<lparr>port := 8081,
        tls := Some \<lparr>tls_cert = ''./cert/certificate.pem'', tls_key = ''./cert/privatekey.pem''\<rparr>\<rparr>,
      callback_cfg = callback_config_default, wallet = wallet_config_default,
      daemon = daemon_config_default from_static, database = database_config_default, logging = Info\<rparr>"

section \<open>Reading and overriding\<close>

datatype var_error = NotPresent | NotUnicode

datatype ('i, 'y) config_error = EnvError var_error | Io 'i | Yaml 'y

type_synonym env = "string \<Rightarrow> (string, var_error) result"

text \<open>The \<open>match env::var(..)\<close> of the sources: set, absent, or not Unicode.\<close>

definition with_var :: "env \<Rightarrow> string \<Rightarrow> (string \<Rightarrow> 'c) \<Rightarrow> 'c \<Rightarrow> ('c, ('i, 'y) config_error) result" where
  "with_var env name set_to c =
     (case env name of
        Ok val \<Rightarrow> Ok (set_to val)
      | Err NotPresent \<Rightarrow> Ok c
      | Err e \<Rightarrow> Err (EnvError e)
      | Panic \<Rightarrow> Panic)"

definition wallet_env_overrides :: "env \<Rightarrow> 'a wallet_config \<Rightarrow> ('a wallet_config, ('i, 'y) config_error) result" where
  "wallet_env_overrides env c = with_var env ''PRIVATE_VIEWKEY'' (\<lambda>key. c\<lparr>private_viewkey := Some key\<rparr>) c"

definition daemon_env_overrides :: "env \<Rightarrow> 'u daemon_config \<Rightarrow> ('u daemon_config, ('i, 'y) config_error) result" where
  "daemon_env_overrides env c =
     with_var env ''DAEMON_PASSWORD''
       (\<lambda>password. c\<lparr>login := map_option (\<lambda>l. l\<lparr>login_password := Some password\<rparr>) (login c)\<rparr>) c"

definition config_env_overrides :: "env \<Rightarrow> ('a, 'u) config \<Rightarrow> (('a, 'u) config, ('i, 'y) config_error) result" where
  "config_env_overrides env c =
     and_then (wallet_env_overrides env (wallet c)) (\<lambda>wl.
     and_then (daemon_env_overrides env (daemon c)) (\<lambda>dm.
       let c1 = c\<lparr>wallet := wl, daemon := dm\<rparr>
       in and_then (with_var env ''INTERNAL_API_TOKEN''
              (\<lambda>t. c1\<lparr>internal_api := (internal_api c1)\<lparr>token := Some t\<rparr>\<rparr>) c1) (\<lambda>c2.
            with_var env ''EXTERNAL_API_TOKEN'' (\<lambda>t. c2\<lparr>external_api := (external_api c2)\<lparr>token := Some t\<rparr>\<rparr>) c2)))"

datatype 'i config_file = Missing | Unreadable 'i | Text string

text \<open>A missing file is created with the default configuration; \<open>create\<close> tells whether that fails.\<close>

definition from_file ::
  "(string \<Rightarrow> 'u) \<Rightarrow> (string \<Rightarrow> (('a, 'u) config, 'y) result) \<Rightarrow> (('a, 'u) config \<Rightarrow> (string, 'y) result) \<Rightarrow> 'i option
     \<Rightarrow> 'i config_file \<Rightarrow> (('a, 'u) config, ('i, 'y) config_error) result \<times> 'i config_file" where
  "from_file from_static read_yaml write_yaml create file =
     (case file of
        Text t \<Rightarrow> (map_err Yaml (read_yaml t), file)
      | Unreadable e \<Rightarrow> (Err (Io e), file)
      | Missing \<Rightarrow>
          (case create of
             Some e \<Rightarrow> (Err (Io e), Missing)
           | None \<Rightarrow>
               (let c = config_default from_static
                in case write_yaml c of
                     Ok t \<Rightarrow> (Ok c, Text t)
                   | Err e \<Rightarrow> (Err (Yaml e), Text [])
                   | Panic \<Rightarrow> (Panic, Text []))))"

section \<open>Validation\<close>

definition check :: "bool \<Rightarrow> (unit, 'e) result" where
  "check b = (if b then Ok () else Panic)"

definition wallet_validate :: "(string \<Rightarrow> ('k, 'p) result) \<Rightarrow> 'a wallet_config \<Rightarrow> (unit, 'e) result" where
  "wallet_validate parse_key c =
     and_then (check (wallet_address c \<noteq> None)) (\<lambda>_.
     and_then (check (private_viewkey c \<noteq> None)) (\<lambda>_.
       case private_viewkey c of
         Some key \<Rightarrow> (case parse_key key of Ok _ \<Rightarrow> Ok () | _ \<Rightarrow> Panic)
       | None \<Rightarrow> Ok ()))"

definition daemon_validate :: "'u daemon_config \<Rightarrow> (unit, 'e) result" where
  "daemon_validate c = (case login c of Some l \<Rightarrow> check (login_password l \<noteq> None) | None \<Rightarrow> Ok ())"

definition server_validate :: "server_config \<Rightarrow> (unit, 'e) result" where
  "server_validate c = check (token c = None \<or> tls c \<noteq> None)"

definition config_validate :: "(string \<Rightarrow> ('k, 'p) result) \<Rightarrow> ('a, 'u) config \<Rightarrow> (unit, 'e) result" where
  "config_validate parse_key c =
     and_then (wallet_validate parse_key (wallet c)) (\<lambda>_.
     and_then (daemon_validate (daemon c)) (\<lambda>_.
     and_then (server_validate (internal_api c)) (\<lambda>_. server_validate (external_api c))))"

text \<open>\<open>load_config\<close>: reading and overriding (\<open>Config::read\<close>), then validation.\<close>

definition load_config ::
  "(string \<Rightarrow> ('k, 'p) result) \<Rightarrow> env \<Rightarrow> (('a, 'u) config, ('i, 'y) config_error) result \<Rightarrow> (('a, 'u) config, unit) result" where
  "load_config parse_key env file =
     (case and_then file (config_env_overrides env) of
        Ok c \<Rightarrow> and_then (config_validate parse_key c) (\<lambda>_. Ok c)
      | _ \<Rightarrow> Panic)"

section \<open>Equality\<close>

text \<open>The \<open>PartialEq\<close> implementations, which compare secrets by their text.\<close>

definition secrets_match :: "string option \<Rightarrow> string option \<Rightarrow> bool" where
  "secrets_match s other = (case (s, other) of (Some a, Some b) \<Rightarrow> a = b | (None, None) \<Rightarrow> True | _ \<Rightarrow> False)"

definition wallet_config_eq :: "'a wallet_config \<Rightarrow> 'a wallet_config \<Rightarrow> bool" where
  "wallet_config_eq self other \<longleftrightarrow>
     wallet_address self = wallet_address other \<and> secrets_match (private_viewkey self) (private_viewkey other)
     \<and> account_index self = account_index other \<and> restore_height self = restore_height other"

definition daemon_login_eq :: "daemon_login \<Rightarrow> daemon_login \<Rightarrow> bool" where
  "daemon_login_eq self other \<longleftrightarrow>
     login_username self = login_username other \<and> secrets_match (login_password self) (login_password other)"

definition server_config_eq :: "server_config \<Rightarrow> server_config \<Rightarrow> bool" where
  "server_config_eq self other \<longleftrightarrow>
     port self = port other \<and> ipv4 self = ipv4 other \<and> ipv6 self = ipv6 other \<and> token self = token other \<and> tls self = tls other"

text \<open>Equality of wallets and logins is equality; that of server configurations forgets the static files.\<close>

lemma wallet_config_equality: "wallet_config_eq (a :: 'a wallet_config) b \<longleftrightarrow> a = b"
  by (cases a; cases b) (auto simp: wallet_config_eq_def secrets_match_def split: option.splits)

lemma daemon_login_equality: "daemon_login_eq (a :: daemon_login) b \<longleftrightarrow> a = b"
  by (cases a; cases b) (auto simp: daemon_login_eq_def secrets_match_def split: option.splits)

lemma server_config_equality: "server_config_eq (a :: server_config) b \<longleftrightarrow> b = a\<lparr>static_dir := static_dir b\<rparr>"
  by (cases a; cases b) (auto simp: server_config_eq_def)

section \<open>From a configuration to a gateway\<close>

definition gateway_builder ::
  "('a \<Rightarrow> string) \<Rightarrow> ('u \<Rightarrow> string) \<Rightarrow> ('a, 'u) config \<Rightarrow> 's \<Rightarrow> ('s builder, unit) result" where
  "gateway_builder show_address show_uri c store =
     (case private_viewkey (wallet c) of
        None \<Rightarrow> Panic
      | Some key \<Rightarrow>
          (case wallet_address (wallet c) of
             None \<Rightarrow> Panic
           | Some addr \<Rightarrow>
               (let b0 = set_daemon_url (show_uri (node_url (daemon c)))
                     (set_account_index (account_index (wallet c)) (builder_new key (show_address addr) store));
                    b1 = (case login (daemon c) of
                       Some l \<Rightarrow> set_daemon_login (login_username l)
                         (case login_password l of Some p \<Rightarrow> p | None \<Rightarrow> []) b0
                     | None \<Rightarrow> b0)
                in Ok (case restore_height (wallet c) of Some h \<Rightarrow> set_initial_height h b1 | None \<Rightarrow> b1))))"

text \<open>
  \<open>build_gateway\<close>.  \<open>dir\<close> tells whether the database directory could be made and named, \<open>opened\<close> is the
  result of opening the store.
\<close>

definition build_gateway ::
  "('s, 'e) storage \<Rightarrow> (string \<Rightarrow> ('uri, string) result) \<Rightarrow> (string \<Rightarrow> ('vk, string) result)
     \<Rightarrow> (string \<Rightarrow> ('sp, string) result) \<Rightarrow> ('vk \<Rightarrow> 'sp \<Rightarrow> sub_index \<Rightarrow> string) \<Rightarrow> 'g \<Rightarrow> (u64 \<Rightarrow> 'g)
     \<Rightarrow> ('a \<Rightarrow> string) \<Rightarrow> ('u \<Rightarrow> string) \<Rightarrow> bool \<Rightarrow> ('s, 'x) result \<Rightarrow> ('a, 'u) config \<Rightarrow> 'w
     \<Rightarrow> (('s, 'g, 'w) gateway, unit) result" where
  "build_gateway S parse_uri parse_key parse_address get_subaddress from_entropy seed_from_u64 show_address show_uri dir opened c w =
     and_then (check dir) (\<lambda>_.
       case opened of
         Ok store \<Rightarrow>
           and_then (gateway_builder show_address show_uri c store) (\<lambda>b.
             case build S parse_uri parse_key parse_address get_subaddress from_entropy seed_from_u64 b w
                 :: (('s, 'g, 'w) gateway, ('e, unit, unit) accept_xmr_error) result of
               Ok g \<Rightarrow> Ok g
             | _ \<Rightarrow> Panic)
       | _ \<Rightarrow> Panic)"

section \<open>What loading guarantees\<close>

definition config_ok :: "(string \<Rightarrow> ('k, 'p) result) \<Rightarrow> ('a, 'u) config \<Rightarrow> bool" where
  "config_ok parse_key c \<longleftrightarrow>
     wallet_address (wallet c) \<noteq> None
     \<and> (\<exists>key k. private_viewkey (wallet c) = Some key \<and> parse_key key = Ok k)
     \<and> (\<forall>l. login (daemon c) = Some l \<longrightarrow> login_password l \<noteq> None)
     \<and> (token (internal_api c) \<noteq> None \<longrightarrow> tls (internal_api c) \<noteq> None)
     \<and> (token (external_api c) \<noteq> None \<longrightarrow> tls (external_api c) \<noteq> None)"

lemma check_Ok [simp]: "check b = Ok u \<longleftrightarrow> b"
  by (simp add: check_def)

lemma validate_iff: "config_validate parse_key c = (Ok () :: (unit, 'e) result) \<longleftrightarrow> config_ok parse_key c"
proof -
  have "wallet_validate parse_key (wallet c) = (Ok () :: (unit, 'e) result) \<longleftrightarrow>
      wallet_address (wallet c) \<noteq> None \<and> (\<exists>key k. private_viewkey (wallet c) = Some key \<and> parse_key key = Ok k)"
    by (auto simp: wallet_validate_def and_then_eq_Ok split: option.splits result.splits)
  moreover have "daemon_validate (daemon c) = (Ok () :: (unit, 'e) result) \<longleftrightarrow>
      (\<forall>l. login (daemon c) = Some l \<longrightarrow> login_password l \<noteq> None)"
    by (auto simp: daemon_validate_def split: option.splits)
  moreover have "server_validate sc = (Ok () :: (unit, 'e) result) \<longleftrightarrow> (token sc \<noteq> None \<longrightarrow> tls sc \<noteq> None)" for sc
    by (auto simp: server_validate_def)
  ultimately show ?thesis by (simp add: config_validate_def and_then_eq_Ok config_ok_def)
qed

lemma load_config_Ok:
  fixes from_file_result :: "(('a, 'u) config, ('i, 'y) config_error) result"
  assumes "load_config parse_key env from_file_result = Ok c"
  obtains c0 where "from_file_result = Ok c0"
    and "config_env_overrides env c0 = (Ok c :: (_, ('i, 'y) config_error) result)" and "config_ok parse_key c"
proof -
  have "\<exists>c0. from_file_result = Ok c0 \<and> config_env_overrides env c0 = (Ok c :: (_, ('i, 'y) config_error) result) \<and> config_validate parse_key c = (Ok () :: (unit, unit) result)"
    using assms by (auto simp: load_config_def and_then_eq_Ok split: result.splits)
  then show thesis using that validate_iff by blast
qed

lemma with_var_Ok:
  "with_var env name set_to c = Ok c' \<longleftrightarrow> (case env name of Ok val \<Rightarrow> c' = set_to val | Err e \<Rightarrow> e = NotPresent \<and> c' = c | Panic \<Rightarrow> False)"
  by (auto simp: with_var_def split: result.splits var_error.splits)

lemma env_overrides_Ok:
  assumes "config_env_overrides env c0 = Ok c"
  shows "private_viewkey (wallet c) = (case env ''PRIVATE_VIEWKEY'' of Ok key \<Rightarrow> Some key | _ \<Rightarrow> private_viewkey (wallet c0))"
    and "token (internal_api c) = (case env ''INTERNAL_API_TOKEN'' of Ok t \<Rightarrow> Some t | _ \<Rightarrow> token (internal_api c0))"
    and "token (external_api c) = (case env ''EXTERNAL_API_TOKEN'' of Ok t \<Rightarrow> Some t | _ \<Rightarrow> token (external_api c0))"
    and "login (daemon c) = (case env ''DAEMON_PASSWORD'' of
        Ok p \<Rightarrow> map_option (\<lambda>l. l\<lparr>login_password := Some p\<rparr>) (login (daemon c0)) | _ \<Rightarrow> login (daemon c0))"
proof -
  obtain wl dm c2 where wl: "wallet_env_overrides env (wallet c0) = (Ok wl :: (_, ('c, 'd) config_error) result)"
      and dm: "daemon_env_overrides env (daemon c0) = (Ok dm :: (_, ('c, 'd) config_error) result)"
      and c2: "with_var env ''INTERNAL_API_TOKEN'' (\<lambda>t. c0\<lparr>wallet := wl, daemon := dm, internal_api := (internal_api c0)\<lparr>token := Some t\<rparr>\<rparr>)
        (c0\<lparr>wallet := wl, daemon := dm\<rparr>) = (Ok c2 :: (_, ('c, 'd) config_error) result)"
      and c: "with_var env ''EXTERNAL_API_TOKEN'' (\<lambda>t. c2\<lparr>external_api := (external_api c2)\<lparr>token := Some t\<rparr>\<rparr>) c2
        = (Ok c :: (_, ('c, 'd) config_error) result)"
    using assms by (auto simp: config_env_overrides_def and_then_eq_Ok Let_def)
  note defs = wallet_env_overrides_def daemon_env_overrides_def with_var_Ok
  have 2: "wallet c2 = wl" "daemon c2 = dm" "external_api c2 = external_api c0"
      "token (internal_api c2) = (case env ''INTERNAL_API_TOKEN'' of Ok t \<Rightarrow> Some t | _ \<Rightarrow> token (internal_api c0))"
    using c2 by (auto simp: with_var_Ok split: result.splits)
  have 3: "wallet c = wl" "daemon c = dm" "internal_api c = internal_api c2"
      "token (external_api c) = (case env ''EXTERNAL_API_TOKEN'' of Ok t \<Rightarrow> Some t | _ \<Rightarrow> token (external_api c0))"
    using c 2 by (auto simp: with_var_Ok split: result.splits)
  show "private_viewkey (wallet c) = (case env ''PRIVATE_VIEWKEY'' of Ok key \<Rightarrow> Some key | _ \<Rightarrow> private_viewkey (wallet c0))"
    using wl by (auto simp: 3 defs split: result.splits)
  show "login (daemon c) = (case env ''DAEMON_PASSWORD'' of
        Ok p \<Rightarrow> map_option (\<lambda>l. l\<lparr>login_password := Some p\<rparr>) (login (daemon c0)) | _ \<Rightarrow> login (daemon c0))"
    using dm by (auto simp: 3 defs split: result.splits)
  show "token (internal_api c) = (case env ''INTERNAL_API_TOKEN'' of Ok t \<Rightarrow> Some t | _ \<Rightarrow> token (internal_api c0))"
    and "token (external_api c) = (case env ''EXTERNAL_API_TOKEN'' of Ok t \<Rightarrow> Some t | _ \<Rightarrow> token (external_api c0))"
    by (simp_all add: 2 3)
qed

lemma gateway_builder_Ok:
  assumes "private_viewkey (wallet c) = Some key" and "wallet_address (wallet c) = Some addr"
  obtains b where "gateway_builder show_address show_uri c s = Ok b"
    and "daemon_url b = show_uri (node_url (daemon c))" and "private_view_key b = key" and "primary_address b = show_address addr"
    and "builder_store b = s" and "builder_major_index b = account_index (wallet c)" and "initial_height b = restore_height (wallet c)"
proof -
  note defs = gateway_builder_def builder_new_def set_daemon_url_def set_account_index_def set_daemon_login_def set_initial_height_def Let_def
  obtain b where b: "gateway_builder show_address show_uri c s = Ok b" by (simp add: gateway_builder_def Let_def assms)
  show thesis by (rule that [OF b]) (use b in \<open>auto simp: defs assms split: option.splits\<close>)
qed

section \<open>Properties\<close>

text \<open>
  A configuration that was loaded is complete and safe to run: the two APIs use TLS if they have a
  token, a daemon login has a password, and, with a readable store, building the gateway from it
  succeeds and gives a gateway for the configured account and restore height.  Addresses and URIs are
  assumed to be readable again once printed.
\<close>

theorem loaded_config_builds_gateway:
  fixes from_file_result :: "(('a, 'u) config, ('i, 'y) config_error) result" and S :: "('s, 'e) storage"
  assumes "load_config parse_key env from_file_result = Ok c"
    and "\<And>u. \<exists>x. parse_uri (show_uri u) = Ok x" and "\<And>a. \<exists>x. parse_address (show_address a) = Ok x"
    and "inv_rows S s = Ok (map Ok vs)"
  shows "config_ok parse_key c
    \<and> (\<exists>g. build_gateway S parse_uri parse_key parse_address get_subaddress ent fs show_address show_uri True (Ok s) c w = Ok g
        \<and> gw_initial_height g = restore_height (wallet c) \<and> gw_store g = Some s
        \<and> major_index (gw_subaddresses g) = account_index (wallet c))"
proof -
  obtain c0 where ok: "config_ok parse_key c" using assms(1) by (rule load_config_Ok)
  then obtain key k addr where key: "private_viewkey (wallet c) = Some key" "parse_key key = Ok k" "wallet_address (wallet c) = Some addr"
    by (auto simp: config_ok_def)
  obtain u where u: "parse_uri (show_uri (node_url (daemon c))) = Ok u" using assms(2) by blast
  obtain sp where sp: "parse_address (show_address addr) = Ok sp" using assms(3) by blast
  obtain b where b: "gateway_builder show_address show_uri c s = Ok b"
      "daemon_url b = show_uri (node_url (daemon c))" "private_view_key b = key" "primary_address b = show_address addr"
      "builder_store b = s" "builder_major_index b = account_index (wallet c)" "initial_height b = restore_height (wallet c)"
    by (rule gateway_builder_Ok [OF key(1,3)])
  from subaddress_cache_init_post [OF assms(4)]
  obtain pool where pool: "subaddress_cache_init S (get_subaddress k sp) ent fs (account_index (wallet c)) (seed b) (Some s) = (Ok pool, Some s)"
      "major_index pool = account_index (wallet c)" .
  have "\<exists>g. build S parse_uri parse_key parse_address get_subaddress ent fs b w = (Ok g :: (_, ('e, unit, unit) accept_xmr_error) result)
      \<and> gw_initial_height g = restore_height (wallet c) \<and> gw_store g = Some s \<and> major_index (gw_subaddresses g) = account_index (wallet c)"
    using b pool key(2) u sp by (simp add: build_def build_inner_def)
  then show ?thesis using ok b(1) by (auto simp: build_gateway_def check_def)
qed

definition ex_config :: "(string, string) config" where
  "ex_config = (config_default id)\<lparr>wallet := \<lparr>wallet_address = Some ''4A'', private_viewkey = None, account_index = 2, restore_height = Some 9\<rparr>\<rparr>"

definition ex_env :: env where
  "ex_env name = (if name = ''PRIVATE_VIEWKEY'' then Ok ''key'' else Err NotPresent)"

definition ex_loaded :: "(string, string) config" where
  "ex_loaded = ex_config\<lparr>wallet := (wallet ex_config)\<lparr>private_viewkey := Some ''key''\<rparr>\<rparr>"

lemma ex_load: "load_config (Ok :: _ \<Rightarrow> (string, string) result) ex_env (Ok ex_config :: (_, (unit, unit) config_error) result) = Ok ex_loaded"
  by (simp add: load_config_def config_env_overrides_def wallet_env_overrides_def daemon_env_overrides_def with_var_def ex_env_def
      config_validate_def wallet_validate_def daemon_validate_def server_validate_def check_def ex_config_def ex_loaded_def
      config_default_def server_config_default_def daemon_config_default_def Let_def)

theorem loaded_config_builds_gateway_witness:
  "\<exists>g. build_gateway in_memory (Ok :: _ \<Rightarrow> (string, string) result) Ok (Ok :: _ \<Rightarrow> (string, string) result) (\<lambda>_ _ _. ''x'') () (\<lambda>_. ())
      id id True (Ok im_new :: (_, unit) result) ex_loaded () = Ok g \<and> gw_initial_height g = Some 9"
proof -
  have "inv_rows in_memory im_new = Ok (map Ok [])" by (simp add: in_memory_def im_rows_def im_new_def)
  from loaded_config_builds_gateway [OF ex_load _ _ this, of Ok id Ok id "\<lambda>_ _ _. ''x''" "()" "\<lambda>_. ()" "()"]
  show ?thesis by (auto simp: ex_loaded_def ex_config_def)
qed

text \<open>
  Secrets from the environment win over the file.  After loading, the private view key, the two API
  tokens and the daemon password are the environment's where it has them and the file's otherwise; a
  password without a configured login changes nothing.
\<close>

theorem environment_overrides_file:
  assumes "load_config parse_key env (Ok c0 :: (_, ('i, 'y) config_error) result) = Ok c"
  shows "private_viewkey (wallet c) = (case env ''PRIVATE_VIEWKEY'' of Ok key \<Rightarrow> Some key | _ \<Rightarrow> private_viewkey (wallet c0))
    \<and> token (internal_api c) = (case env ''INTERNAL_API_TOKEN'' of Ok t \<Rightarrow> Some t | _ \<Rightarrow> token (internal_api c0))
    \<and> token (external_api c) = (case env ''EXTERNAL_API_TOKEN'' of Ok t \<Rightarrow> Some t | _ \<Rightarrow> token (external_api c0))
    \<and> login (daemon c) = (case env ''DAEMON_PASSWORD'' of
        Ok p \<Rightarrow> map_option (\<lambda>l. l\<lparr>login_password := Some p\<rparr>) (login (daemon c0)) | _ \<Rightarrow> login (daemon c0))"
proof -
  have "config_env_overrides env c0 = (Ok c :: (_, ('i, 'y) config_error) result)"
    using assms by (rule load_config_Ok) simp
  from env_overrides_Ok [OF this] show ?thesis by blast
qed

theorem environment_overrides_file_witness: "private_viewkey (wallet ex_loaded) = Some ''key''"
  using environment_overrides_file [OF ex_load] by (simp add: ex_env_def)

text \<open>The timeouts of the configuration do not reach the gateway, which keeps the defaults of its builder.\<close>

theorem configured_timeouts_ignored:
  assumes "gateway_builder show_address show_uri c store = Ok b"
  shows "rpc_timeout b = 10000 \<and> rpc_connection_timeout b = 5000"
  using assms
  by (auto simp: gateway_builder_def builder_new_def set_daemon_url_def set_account_index_def set_daemon_login_def set_initial_height_def
      Let_def split: option.splits)

end
