(* ===== verification/Api_Types.thy ===== *)
theory Api_Types
  imports Invoice
begin

text \<open>
  The types of the server's HTTP interface: invoice IDs as text
  (\<open>server/src/server/api/types/invoice_id.rs\<close>), invoice updates, invoice descriptions and API errors
  (\<open>server/src/server/api/mod.rs\<close>).  Parameters: the crate base64's encoder and decoder
  (\<open>URL_SAFE_NO_PAD\<close>) and serde_json's reading of a description.
\<close>

section \<open>Invoice IDs as text\<close>

datatype 'd invoice_id_parse_error = TooLong nat | TooShort nat | InvalidCharacters 'd

definition base64_invoice_id :: "(u8 list \<Rightarrow> string) \<Rightarrow> invoice_id \<Rightarrow> string" where
  "base64_invoice_id encode i = encode (to_be_bytes (u128_from_invoice_id i))"

text \<open>\<open>copy_from_slice\<close> panics unless the lengths agree.\<close>

definition invoice_id_from_str ::
  "(string \<Rightarrow> (u8 list, 'd) result) \<Rightarrow> string \<Rightarrow> (invoice_id, 'd invoice_id_parse_error) result" where
  "invoice_id_from_str decode val =
     and_then (map_err InvalidCharacters (decode val)) (\<lambda>bytes.
       if 16 < length bytes then Err (TooLong (length bytes))
       else if length bytes < 16 then Err (TooShort (length bytes))
       else if length (take 16 bytes) \<noteq> 16 then Panic
       else Ok (invoice_id_from_u128 (from_be_bytes (take 16 bytes))))"

text \<open>\<open>TryFrom<&str> for Base64InvoiceId\<close>: the text is checked and written anew.\<close>

definition base64_invoice_id_try_from ::
  "(u8 list \<Rightarrow> string) \<Rightarrow> (string \<Rightarrow> (u8 list, 'd) result) \<Rightarrow> string \<Rightarrow> (string, 'd invoice_id_parse_error) result" where
  "base64_invoice_id_try_from encode decode val =
     map_ok (base64_invoice_id encode) (invoice_id_from_str decode val)"

section \<open>Descriptions and updates\<close>

record invoice_description =
  order :: string
  callback_uri :: "string option"

definition from_json_or_any :: "(string \<Rightarrow> (invoice_description, 'j) result) \<Rightarrow> string \<Rightarrow> invoice_description" where
  "from_json_or_any from_str val =
     (case from_str val of Ok d \<Rightarrow> d | _ \<Rightarrow> \<lparr>order = val, callback_uri = None\<rparr>)"

record invoice_update =
  upd_id :: string
  upd_address :: string
  upd_uri :: string
  upd_amount_requested :: u64
  upd_amount_paid :: u64
  upd_confirmations_required :: u64
  upd_confirmations :: "u64 option"
  upd_expiration_in :: u64
  upd_current_height :: u64
  upd_order :: string
  upd_callback :: "string option"

definition invoice_update_from ::
  "(u8 list \<Rightarrow> string) \<Rightarrow> (string \<Rightarrow> (invoice_description, 'j) result) \<Rightarrow> invoice \<Rightarrow> invoice_update" where
  "invoice_update_from encode from_str v =
     (let d = from_json_or_any from_str (description v)
      in \<lparr>upd_id = base64_invoice_id encode (invoice_ident v), upd_address = address v, upd_uri = uri v,
          upd_amount_requested = amount_requested v, upd_amount_paid = amount_paid v,
          upd_confirmations_required = confirmations_required v, upd_confirmations = confirmations v,
          upd_expiration_in = expiration_in v, upd_current_height = current_height v,
          upd_order = order d, upd_callback = callback_uri d\<rparr>)"

section \<open>Errors of the API\<close>

datatype ('a, 'd, 'j) api_error =
    AcceptXmr 'a
  | DescriptionSerialization 'j
  | InvalidCallback 'j
  | InvalidResponse 'j
  | InvoiceNotFound invoice_id
  | InvalidInvoiceId "'d invoice_id_parse_error"
  | MissingResource 'j
  | TemplatingError 'j

fun api_status :: "('a, 'd, 'j) api_error \<Rightarrow> nat" where
  "api_status (AcceptXmr _) = 500"
| "api_status (InvalidResponse _) = 500"
| "api_status (TemplatingError _) = 500"
| "api_status (InvalidInvoiceId _) = 400"
| "api_status (DescriptionSerialization _) = 400"
| "api_status (InvalidCallback _) = 400"
| "api_status (MissingResource _) = 404"
| "api_status (InvoiceNotFound _) = 404"

fun api_message :: "('a, 'd, 'j) api_error \<Rightarrow> string" where
  "api_message (AcceptXmr _) = ''Internal payment gateway error''"
| "api_message (DescriptionSerialization _) = ''Failed to serialize invoice description''"
| "api_message (InvalidCallback _) = ''Callback is not a valid URI''"
| "api_message (InvalidResponse _) = ''Failed to build HTTP response''"
| "api_message (InvoiceNotFound _) = ''Invoice not found''"
| "api_message (InvalidInvoiceId _) = ''Invalid invoice ID''"
| "api_message (MissingResource _) = ''Missing static resource''"
| "api_message (TemplatingError _) = ''Failed to render template''"

section \<open>Round trip\<close>

locale base64 =
  fixes encode :: "u8 list \<Rightarrow> string" and decode :: "string \<Rightarrow> (u8 list, 'd) result"
  assumes decode_encode: "decode (encode bs) = Ok bs"
begin

lemma read_written: "invoice_id_from_str decode (base64_invoice_id encode i) = Ok i"
  by (simp add: invoice_id_from_str_def base64_invoice_id_def decode_encode from_to_be_bytes invoice_id_u128_roundtrip_aux)

lemma written_inject: "base64_invoice_id encode i = base64_invoice_id encode j \<longleftrightarrow> i = j"
  by (metis read_written result.inject(1))

end

lemma from_str_no_panic: "decode val \<noteq> Panic \<Longrightarrow> invoice_id_from_str decode val \<noteq> Panic"
  by (cases "decode val") (auto simp: invoice_id_from_str_def)

section \<open>The alphabet of RFC 4648\<close>

text \<open>
  An instance of the law: base64 with the URL-safe alphabet and without padding, as RFC 4648 defines
  it.  Three bytes are four digits of six bits; a last group of one or two bytes has two or three
  digits, whose unused bits are zero.
\<close>

definition alphabet :: string where
  "alphabet = ''ABCDEFGHIJKLMNOPQRSTUVWXYZabcdefghijklmnopqrstuvwxyz0123456789-_''"

fun pack :: "u8 list \<Rightarrow> nat list" where
  "pack [] = []"
| "pack [a] = [unat a div 4, unat a mod 4 * 16]"
| "pack [a, b] = [unat a div 4, unat a mod 4 * 16 + unat b div 16, unat b mod 16 * 4]"
| "pack (a # b # c # bs) =
     [unat a div 4, unat a mod 4 * 16 + unat b div 16, unat b mod 16 * 4 + unat c div 64, unat c mod 64] @ pack bs"

datatype decode_error = InvalidByte | InvalidLength | InvalidLastSymbol

fun unpack :: "nat list \<Rightarrow> (u8 list, decode_error) result" where
  "unpack [] = Ok []"
| "unpack [x] = Err InvalidLength"
| "unpack [x, y] = (if y mod 16 = 0 then Ok [of_nat (x * 4 + y div 16)] else Err InvalidLastSymbol)"
| "unpack [x, y, z] =
     (if z mod 4 = 0 then Ok [of_nat (x * 4 + y div 16), of_nat (y mod 16 * 16 + z div 4)] else Err InvalidLastSymbol)"
| "unpack (w # x # y # z # ds) =
     map_ok (\<lambda>bs. [of_nat (w * 4 + x div 16), of_nat (x mod 16 * 16 + y div 4), of_nat (y mod 4 * 64 + z)] @ bs) (unpack ds)"

definition digit :: "char \<Rightarrow> (nat, decode_error) result" where
  "digit ch = ok_or (map_of (zip alphabet [0..<64]) ch) InvalidByte"

definition url_safe_encode :: "u8 list \<Rightarrow> string" where
  "url_safe_encode bs = map (nth alphabet) (pack bs)"

definition url_safe_decode :: "string \<Rightarrow> (u8 list, decode_error) result" where
  "url_safe_decode s = and_then (collect_results (map digit s)) unpack"

lemma digit_alphabet: "d < 64 \<Longrightarrow> digit (alphabet ! d) = Ok d"
proof -
  have "length alphabet = 64" "distinct alphabet" by (simp_all add: alphabet_def)
  then show "d < 64 \<Longrightarrow> ?thesis" using map_of_zip_nth [of alphabet "[0..<64]" d] by (simp add: digit_def)
qed

lemma u8_div: "unat (a :: u8) div 4 < 64" "unat a div 16 < 16" "unat a div 64 < 4"
  using unsigned_less [of a, where 'a = nat] by (simp_all add: div_less_iff_less_mult)

lemma join_less: "(x :: nat) < k \<Longrightarrow> y < m \<Longrightarrow> x * m + y < k * m"
  by (metis Suc_leI add.commute add_less_le_mono less_le_trans mult_Suc mult_le_mono1 nat_add_left_cancel_less)

lemma u8_bounds:
  "unat (a :: u8) mod 4 * 16 + unat (b :: u8) div 16 < 64" "unat b mod 16 * 4 + unat (c :: u8) div 64 < 64"
  using join_less [of "unat a mod 4" 4 "unat b div 16" 16] join_less [of "unat b mod 16" 16 "unat c div 64" 4] u8_div by simp_all

lemma u8_join: "(of_nat (unat a div 4 * 4 + unat a mod 4) :: u8) = a" "(of_nat (unat a div 16 * 16 + unat a mod 16) :: u8) = a"
  "(of_nat (unat a div 64 * 64 + unat a mod 64) :: u8) = a"
  by simp_all

lemma pack_digits: "\<forall>d \<in> set (pack bs). d < 64"
proof (induction bs rule: pack.induct)
  case (2 a)
  show ?case using u8_div(1) [of a] u8_bounds(1) [of a 0] by simp
next
  case (3 a b)
  show ?case using u8_div(1) [of a] u8_bounds(1) [of a b] u8_bounds(2) [of b 0] by simp
next
  case (4 a b c bs)
  then show ?case using u8_div(1) [of a] u8_bounds(1) [of a b] u8_bounds(2) [of b c] by simp
qed simp

lemma div_small: "(x * m + y :: nat) div m = x" "(x * m + y) mod m = y" if "y < m"
  using that by simp_all

lemma unpack_pack: "unpack (pack bs) = Ok bs"
proof (induction bs rule: pack.induct)
  case (3 a b)
  show ?case using u8_join [of a] u8_join [of b] u8_div [of b] by (simp add: div_small)
next
  case (4 a b c bs)
  then show ?case using u8_join [of a] u8_join [of b] u8_join [of c] u8_div [of b] u8_div [of c] by (simp add: div_small)
qed (use u8_join in simp_all)

interpretation url: base64 url_safe_encode url_safe_decode
proof
  fix bs :: "u8 list"
  have "map digit (url_safe_encode bs) = map Ok (pack bs)"
    using pack_digits [of bs] by (simp add: url_safe_encode_def digit_alphabet)
  then show "url_safe_decode (url_safe_encode bs) = Ok bs"
    by (metis and_then.simps(1) collect_results_Ok_iff unpack_pack url_safe_decode_def)
qed

lemma url_safe_no_panic: "url_safe_decode s \<noteq> Panic"
proof -
  have "unpack ds \<noteq> Panic" for ds by (induction ds rule: unpack.induct) (auto split: result.splits)
  moreover have "collect_results (map digit s) \<noteq> Panic"
  proof (induction s)
    case (Cons ch s)
    then show ?case
      by (cases "map_of (zip alphabet [0..<64]) ch"; cases "collect_results (map digit s)") (simp_all add: digit_def)
  qed simp
  ultimately show ?thesis by (cases "collect_results (map digit s)") (auto simp: url_safe_decode_def)
qed

section \<open>Properties\<close>

text \<open>
  Invoice IDs survive the HTTP interface: an ID written as text is read back as the same ID, two
  IDs have different texts, and no text makes the reader panic.
\<close>

theorem invoice_id_text_round_trip:
  fixes decode :: "string \<Rightarrow> (u8 list, 'd) result"
  assumes "\<And>bs. decode (encode bs) = Ok bs" and "decode val \<noteq> Panic"
  shows "invoice_id_from_str decode (base64_invoice_id encode i) = Ok i
    \<and> (base64_invoice_id encode i = base64_invoice_id encode j \<longleftrightarrow> i = j)
    \<and> invoice_id_from_str decode val \<noteq> Panic"
proof -
  have b: "base64 encode decode" by unfold_locales (rule assms(1))
  show ?thesis
    using base64.read_written [OF b, of i] base64.written_inject [OF b, of i j] from_str_no_panic [of decode val, OF assms(2)] by blast
qed

theorem invoice_id_text_round_trip_witness:
  "base64_invoice_id url_safe_encode (InvoiceId (SubIndex 0 0xFFFFFFFF) 0) = ''AAAAAP____8AAAAAAAAAAA''
   \<and> invoice_id_from_str url_safe_decode (base64_invoice_id url_safe_encode (InvoiceId (SubIndex 0 0xFFFFFFFF) 0))
     = Ok (InvoiceId (SubIndex 0 0xFFFFFFFF) 0)"
proof
  show "base64_invoice_id url_safe_encode (InvoiceId (SubIndex 0 0xFFFFFFFF) 0) = ''AAAAAP____8AAAAAAAAAAA''"
    by code_simp
  show "invoice_id_from_str url_safe_decode (base64_invoice_id url_safe_encode (InvoiceId (SubIndex 0 0xFFFFFFFF) 0))
     = Ok (InvoiceId (SubIndex 0 0xFFFFFFFF) 0)"
    by (rule invoice_id_text_round_trip [of url_safe_decode url_safe_encode "[]", OF url.decode_encode url_safe_no_panic, THEN conjunct1])
qed

end
