(* ===== verification/Callbacks.thy ===== *)
theory Callbacks
  imports Api_Types "HOL-Library.Multiset"
begin

text \<open>
  \<open>server/src/callbacks.rs\<close>: the client that reports an invoice to the URI in its description, and the
  queue of reports with its retries.

  Parameters: serde_json, the URI parser and the HTTP transport, collected in a record, and \<open>grow\<close>, the
  floating-point computation \<open>Duration::from_secs_f64(d.as_secs_f64() * 1.5)\<close>.  Durations are counted
  in nanoseconds.

  The queue is a bounded channel whose receiving task starts one task for every command; such a task
  waits, calls, and on failure sends the command again.  \<open>cq_task\<close> interleaves all of these, and \<open>cq_step\<close> adds the reports that arrive.
\<close>

section \<open>The client\<close>

datatype 'x callback_error =
    CallbackRequest 'x
  | CallbackInvalidRequest 'x
  | CallbackResponse nat string
  | CallbackTimeout
  | InvalidDescription 'x
  | InvalidCallbackUri 'x

record http_reply =
  reply_status :: nat
  reply_body :: string

record ('w, 'q, 'x) callback_env =
  ce_encode :: "u8 list \<Rightarrow> string"
  ce_from_str :: "string \<Rightarrow> (invoice_description, 'x) result"
  ce_json :: "invoice_update \<Rightarrow> string"
  ce_uri :: "string \<Rightarrow> (string, 'x) result"
  ce_build :: "string \<Rightarrow> string \<Rightarrow> ('q, 'x) result"
    \<comment> \<open>\<open>Request::builder()\<close> with URI and body\<close>
  ce_send :: "'q \<Rightarrow> 'w \<Rightarrow> (http_reply, 'x) result option \<times> 'w"
    \<comment> \<open>\<open>None\<close>: the timeout passed first\<close>

definition is_error_status :: "nat \<Rightarrow> bool" where
  "is_error_status n \<longleftrightarrow> 400 \<le> n \<and> n < 600"

definition callback_request ::
  "('w, 'q, 'x) callback_env \<Rightarrow> string \<Rightarrow> string \<Rightarrow> 'w \<Rightarrow> (http_reply, 'x callback_error) result \<times> 'w" where
  "callback_request E body u w =
     try_st (map_err CallbackInvalidRequest (ce_build E u body), w) (\<lambda>req w.
       case ce_send E req w of
         (None, w') \<Rightarrow> (Err CallbackTimeout, w')
       | (Some r, w') \<Rightarrow>
           try_st (map_err CallbackRequest r, w') (\<lambda>reply w'.
             if is_error_status (reply_status reply)
             then (Err (CallbackResponse (reply_status reply) (reply_body reply)), w')
             else (Ok reply, w')))"

definition callback ::
  "('w, 'q, 'x) callback_env \<Rightarrow> invoice \<Rightarrow> 'w \<Rightarrow> (bool, 'x callback_error) result \<times> 'w" where
  "callback E v w =
     try_st (map_err InvalidDescription (ce_from_str E (description v)), w) (\<lambda>d w.
       case callback_uri d of
         None \<Rightarrow> (Ok False, w)
       | Some u \<Rightarrow>
           try_st (map_err InvalidCallbackUri (ce_uri E u), w) (\<lambda>u' w.
           try_st (callback_request E (ce_json E (invoice_update_from (ce_encode E) (ce_from_str E) v)) u' w)
             (\<lambda>_ w. (Ok True, w))))"

section \<open>The queue\<close>

definition INITIAL_CALLBACK_RETRY_DELAY :: nat where
  "INITIAL_CALLBACK_RETRY_DELAY = 10 ^ 9"

definition one_hour :: nat where
  "one_hour = 3600 * 10 ^ 9"

definition next_delay :: "(nat \<Rightarrow> nat) \<Rightarrow> nat \<Rightarrow> nat" where
  "next_delay grow delay = min (grow (max delay INITIAL_CALLBACK_RETRY_DELAY)) one_hour"

datatype callback_command = Shutdown | Call invoice nat nat
  \<comment> \<open>invoice, retry count, delay\<close>

record 'w callback_queue =
  cq_open :: bool
    \<comment> \<open>the receiving task runs\<close>
  cq_queue :: "callback_command list"
  cq_tasks :: "(invoice \<times> nat \<times> nat) list"
  cq_resending :: "callback_command list"
    \<comment> \<open>what tasks whose call failed are sending again\<close>
  cq_warned :: "invoice_id list"
    \<comment> \<open>the warnings that the maximum of retries is reached\<close>
  cq_world :: 'w

definition callback_queue_init :: "'w \<Rightarrow> 'w callback_queue" where
  "callback_queue_init w = \<lparr>cq_open = True, cq_queue = [], cq_tasks = [], cq_resending = [], cq_warned = [], cq_world = w\<rparr>"

text \<open>\<open>sender.send\<close>; it waits while the queue is full, and then the result is \<open>None\<close>.\<close>

definition callback_send ::
  "nat \<Rightarrow> callback_command \<Rightarrow> 'w callback_queue \<Rightarrow> ((unit, unit) result \<times> 'w callback_queue) option" where
  "callback_send queue_size c s =
     (if \<not> cq_open s then Some (Err (), s)
      else if length (cq_queue s) < queue_size then Some (Ok (), s\<lparr>cq_queue := cq_queue s @ [c]\<rparr>)
      else None)"

text \<open>One turn of the receiving task.\<close>

definition callback_receive :: "nat option \<Rightarrow> callback_command \<Rightarrow> 'w callback_queue \<Rightarrow> 'w callback_queue" where
  "callback_receive max_retries c s =
     (case c of
        Shutdown \<Rightarrow> s\<lparr>cq_open := False\<rparr>
      | Call v retry_count delay \<Rightarrow>
          (let s1 = (if case max_retries of Some m \<Rightarrow> m \<le> retry_count | None \<Rightarrow> False
                     then s\<lparr>cq_warned := cq_warned s @ [invoice_ident v]\<rparr> else s)
           in s1\<lparr>cq_tasks := cq_tasks s1 @ [(v, retry_count, delay)]\<rparr>))"

definition USIZE_MAX :: nat where
  "USIZE_MAX = 2 ^ 64 - 1"

definition again :: "(nat \<Rightarrow> nat) \<Rightarrow> invoice \<times> nat \<times> nat \<Rightarrow> callback_command" where
  "again grow t = (case t of (v, retry_count, delay) \<Rightarrow> Call v (min (retry_count + 1) USIZE_MAX) (next_delay grow delay))"

definition drop_index :: "nat \<Rightarrow> 'a list \<Rightarrow> 'a list" where
  "drop_index i xs = take i xs @ drop (Suc i) xs"

text \<open>
  A started task that has waited: it calls the callback; when that fails it sends the command again,
  and panics (\<open>expect\<close>) when the queue is closed.
\<close>

inductive cq_task ::
  "('w, 'q, 'x) callback_env \<Rightarrow> (nat \<Rightarrow> nat) \<Rightarrow> nat \<Rightarrow> nat option \<Rightarrow> 'w callback_queue \<Rightarrow> 'w callback_queue \<Rightarrow> bool"
  for E grow queue_size max_retries where
  receive: "cq_open s \<Longrightarrow> cq_queue s = c # q \<Longrightarrow>
     cq_task E grow queue_size max_retries s (callback_receive max_retries c (s\<lparr>cq_queue := q\<rparr>))"
| called: "i < length (cq_tasks s) \<Longrightarrow> cq_tasks s ! i = (v, rd) \<Longrightarrow> callback E v (cq_world s) = (Ok b, w') \<Longrightarrow>
     cq_task E grow queue_size max_retries s (s\<lparr>cq_tasks := drop_index i (cq_tasks s), cq_world := w'\<rparr>)"
| failed: "i < length (cq_tasks s) \<Longrightarrow> cq_tasks s ! i = (v, rd) \<Longrightarrow> callback E v (cq_world s) = (Err e, w') \<Longrightarrow>
     cq_task E grow queue_size max_retries s (s\<lparr>cq_tasks := drop_index i (cq_tasks s),
       cq_resending := cq_resending s @ [again grow (v, rd)], cq_world := w'\<rparr>)"
| resend: "i < length (cq_resending s) \<Longrightarrow>
     callback_send queue_size (cq_resending s ! i) (s\<lparr>cq_resending := drop_index i (cq_resending s)\<rparr>) = Some (r, s') \<Longrightarrow>
     cq_task E grow queue_size max_retries s s'"

text \<open>The queue with its tasks and with reports that arrive.\<close>

inductive cq_step ::
  "('w, 'q, 'x) callback_env \<Rightarrow> (nat \<Rightarrow> nat) \<Rightarrow> nat \<Rightarrow> nat option \<Rightarrow> 'w callback_queue \<Rightarrow> 'w callback_queue \<Rightarrow> bool"
  for E grow queue_size max_retries where
  accept: "callback_send queue_size (Call v 0 0) s = Some (Ok (), s') \<Longrightarrow> cq_step E grow queue_size max_retries s s'"
| task: "cq_task E grow queue_size max_retries s s' \<Longrightarrow> cq_step E grow queue_size max_retries s s'"

section \<open>No report is lost\<close>

fun reported :: "callback_command \<Rightarrow> invoice multiset" where
  "reported Shutdown = {#}"
| "reported (Call v _ _) = {#v#}"

definition pending :: "'w callback_queue \<Rightarrow> invoice multiset" where
  "pending s = sum_list (map reported (cq_queue s)) + mset (map fst (cq_tasks s)) + sum_list (map reported (cq_resending s))"

lemma split_drop_index: "i < length xs \<Longrightarrow> mset xs = add_mset (xs ! i) (mset (drop_index i xs))"
  by (metis drop_index_def id_take_nth_drop mset_append mset.simps(2) union_mset_add_mset_right)

lemma set_drop_index: "set (drop_index i xs) \<subseteq> set xs"
  by (auto simp: drop_index_def dest: in_set_takeD in_set_dropD)

lemma sum_drop_index: "i < length xs \<Longrightarrow> sum_list (map f xs) = f (xs ! i) + sum_list (map f (drop_index i xs))"
  for f :: "'a \<Rightarrow> 'b multiset"
  using split_drop_index [of i xs] by (metis (no_types, lifting) image_mset_add_mset mset_map sum_mset.insert sum_mset_sum_list)

lemma reported_again [simp]: "reported (again grow t) = {#fst t#}"
  by (cases t) (auto simp: again_def split: prod.splits)

text \<open>The receiving task runs and no \<open>Shutdown\<close> is on its way; nothing in the program sends one.\<close>

definition in_service :: "'w callback_queue \<Rightarrow> bool" where
  "in_service s \<longleftrightarrow> cq_open s \<and> Shutdown \<notin> set (cq_queue s) \<and> Shutdown \<notin> set (cq_resending s)"

lemma callback_send_Ok:
  "cq_open s \<Longrightarrow> callback_send n c s = Some (r, s') \<Longrightarrow> r = Ok () \<and> s' = s\<lparr>cq_queue := cq_queue s @ [c]\<rparr>"
  by (auto simp: callback_send_def split: if_splits)

lemma in_service_task:
  assumes "cq_task E grow n m s s'" and "in_service s"
  shows "in_service s'"
  using assms
proof (cases rule: cq_task.cases)
  case (receive c q)
  with assms(2) show ?thesis by (cases c) (auto simp: in_service_def callback_receive_def Let_def)
next
  case (failed i v rd e w')
  with assms(2) show ?thesis using set_drop_index [of i] by (auto simp: in_service_def again_def split: prod.splits)
next
  case (resend i r)
  with assms(2) have "cq_resending s ! i \<noteq> Shutdown" by (metis in_service_def nth_mem)
  with assms(2) callback_send_Ok [OF _ resend(2)] show ?thesis
    using set_drop_index [of i "cq_resending s"] by (auto simp: in_service_def)
qed (use assms(2) in \<open>auto simp: in_service_def callback_send_def split: if_splits\<close>)

lemma accepted:
  assumes "callback_send n (Call v 0 0) s = Some (Ok (), s')" and "in_service s"
  shows "in_service s' \<and> pending s' = add_mset v (pending s)"
  using callback_send_Ok [OF _ assms(1)] assms(2) by (auto simp: in_service_def pending_def)

lemma in_service_step: "cq_step E grow n m s s' \<Longrightarrow> in_service s \<Longrightarrow> in_service s'"
  using accepted in_service_task by (auto elim!: cq_step.cases)

lemma pending_task:
  assumes "cq_task E grow n m s s'" and "in_service s"
  shows "pending s' = pending s \<or> (\<exists>v b w'. pending s = add_mset v (pending s') \<and> callback E v (cq_world s) = (Ok b, w'))"
  using assms
proof (cases rule: cq_task.cases)
  case (receive c q)
  with assms(2) show ?thesis by (cases c) (auto simp: in_service_def callback_receive_def Let_def pending_def)
next
  case (called i v rd b w')
  then have "pending s = add_mset v (pending s')"
    using split_drop_index [of i "map fst (cq_tasks s)"] by (simp add: pending_def drop_index_def take_map drop_map)
  with called show ?thesis by blast
next
  case (failed i v rd e w')
  then show ?thesis
    using split_drop_index [of i "map fst (cq_tasks s)"] by (simp add: pending_def drop_index_def take_map drop_map)
next
  case (resend i r)
  with assms(2) callback_send_Ok [OF _ resend(2)] show ?thesis
    using sum_drop_index [OF resend(1), of reported] by (simp add: in_service_def pending_def)
qed

lemma pending_step:
  assumes "cq_step E grow n m s s'" and "in_service s"
  shows "(\<exists>v. pending s' = add_mset v (pending s)) \<or> pending s' = pending s
    \<or> (\<exists>v b w'. pending s = add_mset v (pending s') \<and> callback E v (cq_world s) = (Ok b, w'))"
  using assms(1)
proof (cases rule: cq_step.cases)
  case (accept v)
  with accepted assms(2) show ?thesis by blast
next
  case task
  with pending_task assms(2) show ?thesis by blast
qed

section \<open>Delays\<close>

fun delay_ok :: "nat \<times> nat \<Rightarrow> bool" where
  "delay_ok (retry_count, delay) \<longleftrightarrow>
     retry_count = 0 \<and> delay = 0 \<or> 0 < retry_count \<and> INITIAL_CALLBACK_RETRY_DELAY \<le> delay \<and> delay \<le> one_hour"

fun command_ok :: "callback_command \<Rightarrow> bool" where
  "command_ok Shutdown = True"
| "command_ok (Call _ retry_count delay) = delay_ok (retry_count, delay)"

definition delays_ok :: "'w callback_queue \<Rightarrow> bool" where
  "delays_ok s \<longleftrightarrow> (\<forall>c \<in> set (cq_queue s). command_ok c) \<and> (\<forall>c \<in> set (cq_resending s). command_ok c)
     \<and> (\<forall>t \<in> set (cq_tasks s). delay_ok (snd t))"

lemma next_delay_bounds:
  assumes "\<And>d. d \<le> grow d"
  shows "INITIAL_CALLBACK_RETRY_DELAY \<le> next_delay grow d" "next_delay grow d \<le> one_hour"
    "d \<le> one_hour \<Longrightarrow> d \<le> next_delay grow d"
  using assms [of "max d INITIAL_CALLBACK_RETRY_DELAY"]
  by (auto simp: next_delay_def one_hour_def INITIAL_CALLBACK_RETRY_DELAY_def)

lemma again_ok: "(\<And>d. d \<le> grow d) \<Longrightarrow> command_ok (again grow t)"
  by (cases t) (auto simp: again_def USIZE_MAX_def next_delay_bounds split: prod.splits)

lemma delays_ok_task:
  assumes step: "cq_task E grow n m s s'" and ok: "delays_ok s" and grow: "\<And>d. d \<le> grow d"
  shows "delays_ok s'"
  using step
proof (cases rule: cq_task.cases)
  case (receive c q)
  with ok show ?thesis by (cases c) (auto simp: delays_ok_def callback_receive_def Let_def)
next
  case (called i v rd b w')
  with ok set_drop_index [of i "cq_tasks s"] show ?thesis by (auto simp: delays_ok_def)
next
  case (failed i v rd e w')
  with ok set_drop_index [of i "cq_tasks s"] again_ok [of grow "(v, rd)", OF grow] show ?thesis by (auto simp: delays_ok_def)
next
  case (resend i r)
  have "command_ok (cq_resending s ! i)" using ok nth_mem [OF resend(1)] by (simp add: delays_ok_def)
  with resend ok set_drop_index [of i "cq_resending s"] show ?thesis
    by (auto simp: delays_ok_def callback_send_def split: if_splits)
qed

lemma delays_ok_step:
  assumes "cq_step E grow n m s s'" and "delays_ok s" and "\<And>d. d \<le> grow d"
  shows "delays_ok s'"
  using assms(1)
proof (cases rule: cq_step.cases)
  case (accept v)
  with assms(2) show ?thesis by (auto simp: delays_ok_def callback_send_def split: if_splits)
next
  case task
  then show ?thesis using assms(2,3) by (rule delays_ok_task)
qed

section \<open>A report that cannot be delivered\<close>

lemma failing_round:
  assumes fails: "callback E v (cq_world s) = (Err e, w')" and size: "0 < queue_size"
    and s: "cq_open s" "cq_queue s = [Call v r d]" "cq_tasks s = []" "cq_resending s = []"
  shows "\<exists>s'. (cq_step E grow queue_size max_retries ^^ 3) s s' \<and> cq_open s' \<and> cq_tasks s' = [] \<and> cq_resending s' = []
    \<and> cq_queue s' = [Call v (min (r + 1) USIZE_MAX) (next_delay grow d)]
    \<and> cq_warned s' = cq_warned s @ (if case max_retries of Some m \<Rightarrow> m \<le> r | None \<Rightarrow> False then [invoice_ident v] else [])"
proof -
  let ?R = "cq_step E grow queue_size max_retries" and ?c = "again grow (v, r, d)"
  let ?s1 = "callback_receive max_retries (Call v r d) (s\<lparr>cq_queue := []\<rparr>)"
  let ?s2 = "?s1\<lparr>cq_tasks := [], cq_resending := [?c], cq_world := w'\<rparr>"
  let ?s3 = "?s2\<lparr>cq_resending := [], cq_queue := [?c]\<rparr>"
  have s1: "cq_tasks ?s1 = [(v, r, d)]" "cq_world ?s1 = cq_world s" "cq_resending ?s1 = []" "cq_open ?s1" "cq_queue ?s1 = []"
    using s by (auto simp: callback_receive_def Let_def)
  have "?R s ?s1" using s(1,2) by (intro task receive)
  moreover have "?R ?s1 ?s2"
    using task [OF failed [of 0 ?s1 v "(r, d)" E e w']] fails s1 by (simp add: drop_index_def)
  moreover have "?R ?s2 ?s3"
    using task [OF resend [of 0 ?s2 queue_size "Ok ()" ?s3]] size s1 by (simp add: callback_send_def drop_index_def)
  ultimately have "(?R ^^ 3) s ?s3" by (auto simp: eval_nat_numeral)
  moreover have "?c = Call v (min (r + 1) USIZE_MAX) (next_delay grow d)" by (simp add: again_def)
  moreover have "cq_warned ?s3 = cq_warned s @ (if case max_retries of Some m \<Rightarrow> m \<le> r | None \<Rightarrow> False then [invoice_ident v] else [])"
    by (simp add: callback_receive_def Let_def)
  ultimately show ?thesis using s1(4) by (intro exI [of _ ?s3]) simp
qed

lemma failing_rounds:
  assumes fails: "\<And>w. \<exists>e w'. callback E v w = (Err e, w')" and size: "0 < queue_size" and m: "m \<le> USIZE_MAX"
  shows "\<lbrakk>cq_open s; cq_queue s = [Call v r d]; cq_tasks s = []; cq_resending s = []; m \<le> r\<rbrakk> \<Longrightarrow>
    \<exists>s' r' d'. (cq_step E grow queue_size (Some m) ^^ (3 * n)) s s' \<and> cq_open s' \<and> cq_tasks s' = [] \<and> cq_resending s' = []
      \<and> cq_queue s' = [Call v r' d'] \<and> cq_warned s' = cq_warned s @ replicate n (invoice_ident v)"
proof (induction n arbitrary: s r d)
  case 0
  then show ?case by auto
next
  case (Suc n)
  obtain e w' where "callback E v (cq_world s) = (Err e, w')" using fails by blast
  from failing_round [OF this size Suc.prems(1-4), of grow "Some m"] Suc.prems(5)
  obtain s1 where s1: "(cq_step E grow queue_size (Some m) ^^ 3) s s1" "cq_open s1" "cq_tasks s1 = []" "cq_resending s1 = []"
      "cq_queue s1 = [Call v (min (r + 1) USIZE_MAX) (next_delay grow d)]" "cq_warned s1 = cq_warned s @ [invoice_ident v]"
    by auto
  have "m \<le> min (r + 1) USIZE_MAX" using Suc.prems(5) m by simp
  from Suc.IH [OF s1(2,5,3,4) this]
  obtain s' r' d' where s': "(cq_step E grow queue_size (Some m) ^^ (3 * n)) s1 s'" "cq_open s'" "cq_tasks s' = []"
      "cq_resending s' = []" "cq_queue s' = [Call v r' d']" "cq_warned s' = cq_warned s1 @ replicate n (invoice_ident v)"
    by blast
  have "(cq_step E grow queue_size (Some m) ^^ (3 + 3 * n)) s s'" unfolding relpowp_add using s1(1) s'(1) by blast
  with s' s1(6) show ?case by (intro exI [of _ s'] exI [of _ r'] exI [of _ d']) simp
qed

section \<open>Properties\<close>

text \<open>
  No report is lost while the queue is in service: in every step of the queue, whatever the order in
  which its tasks run, an accepted report stays queued, in a task or on its way back, and leaves only by a
  call that returned without an error.  The queue stays in service.
\<close>

theorem callback_never_lost:
  assumes "cq_step E grow queue_size max_retries s s'" and "in_service s"
  shows "in_service s' \<and> ((\<exists>v. pending s' = add_mset v (pending s)) \<or> pending s' = pending s
    \<or> (\<exists>v b w'. pending s = add_mset v (pending s') \<and> callback E v (cq_world s) = (Ok b, w')))"
  using in_service_step [OF assms] pending_step [OF assms] by blast

definition ex_sale :: invoice where
  "ex_sale = invoice_new ''addr'' (SubIndex 0 1) 100 7 1 10 ''order''"

definition ex_unreachable :: "(unit, unit, unit) callback_env" where
  "ex_unreachable = \<lparr>ce_encode = url_safe_encode, ce_from_str = (\<lambda>s. Ok \<lparr>order = s, callback_uri = Some ''http://shop''\<rparr>),
     ce_json = upd_id, ce_uri = Ok, ce_build = (\<lambda>_ _. Ok ()), ce_send = (\<lambda>_ w. (Some (Err ()), w))\<rparr>"

definition ex_queued :: "unit callback_queue" where
  "ex_queued = (callback_queue_init ())\<lparr>cq_queue := [Call ex_sale 5 (10 ^ 10)]\<rparr>"

lemma ex_fails: "callback ex_unreachable ex_sale w = (Err (CallbackRequest ()), w)"
  by (simp add: callback_def callback_request_def ex_unreachable_def)

theorem callback_never_lost_witness:
  "let s' = callback_receive None (Call ex_sale 5 (10 ^ 10)) (ex_queued\<lparr>cq_queue := []\<rparr>)
   in cq_step ex_unreachable id 1 None ex_queued s' \<and> in_service s'"
proof -
  let ?s' = "callback_receive None (Call ex_sale 5 (10 ^ 10)) (ex_queued\<lparr>cq_queue := []\<rparr>)"
  have step: "cq_step ex_unreachable id 1 None ex_queued ?s'"
    by (intro task receive) (simp_all add: ex_queued_def callback_queue_init_def)
  moreover have "in_service ex_queued" by (simp add: in_service_def ex_queued_def callback_queue_init_def)
  from callback_never_lost [OF step this] have "in_service ?s'" by blast
  ultimately show ?thesis by (simp add: Let_def)
qed

text \<open>
  C33. Bounds on the delays.  If the multiplication by 1.5 does not shorten a duration, then in every
  state the queue can reach, a report that is tried for the first time has no delay and a repeated one
  has a delay between one second and one hour; a delay up to one hour never becomes shorter.
\<close>

theorem callback_delays_bounded:
  assumes "\<And>d. d \<le> grow d" and "(cq_step E grow queue_size max_retries)\<^sup>*\<^sup>* (callback_queue_init w) s"
  shows "delays_ok s \<and> (d \<le> one_hour \<longrightarrow> d \<le> next_delay grow d \<and> next_delay grow d \<le> one_hour)"
proof -
  have "delays_ok s"
    using assms(2)
  proof (induction rule: rtranclp_induct)
    case base
    show ?case by (simp add: delays_ok_def callback_queue_init_def)
  next
    case (step s s')
    then show ?case using delays_ok_step assms(1) by blast
  qed
  with next_delay_bounds [of grow, OF assms(1)] show ?thesis by blast
qed

theorem callback_delays_bounded_witness:
  "let s = callback_queue_init ()\<lparr>cq_queue := [Call ex_sale 0 0]\<rparr> in delays_ok s
   \<and> next_delay (\<lambda>d. d + d div 2) (10 ^ 9) = 1500000000"
proof -
  let ?s = "(callback_queue_init ())\<lparr>cq_queue := [Call ex_sale 0 0]\<rparr>"
  have "cq_step ex_unreachable (\<lambda>d. d + d div 2) 1 None (callback_queue_init ()) ?s"
    by (rule accept [of _ ex_sale]) (simp add: callback_send_def callback_queue_init_def)
  then have "(cq_step ex_unreachable (\<lambda>d. d + d div 2) 1 None)\<^sup>*\<^sup>* (callback_queue_init ()) ?s" by (rule r_into_rtranclp)
  from callback_delays_bounded [OF _ this, of 0] have "delays_ok ?s" by simp
  then show ?thesis
    by (simp add: Let_def callback_queue_init_def next_delay_def INITIAL_CALLBACK_RETRY_DELAY_def one_hour_def)
qed

text \<open>
  The maximum of retries does not stop a report.  For a callback that always fails, once the retry
  count has reached the maximum, the queue calls it again as often as one likes, each time after
  warning that it will not be retried.
\<close>

theorem callback_retried_beyond_maximum:
  assumes "\<And>w. \<exists>e w'. callback E v w = (Err e, w')" and "0 < queue_size" and "m \<le> USIZE_MAX"
    and "cq_open s" and "cq_queue s = [Call v r d]" and "cq_tasks s = []" and "cq_resending s = []" and "m \<le> r"
  shows "\<exists>s' r' d'. (cq_step E grow queue_size (Some m) ^^ (3 * n)) s s' \<and> cq_queue s' = [Call v r' d']
    \<and> cq_warned s' = cq_warned s @ replicate n (invoice_ident v)"
  using failing_rounds [where E = E and v = v and n = n and grow = grow, OF assms] by blast

theorem callback_retried_beyond_maximum_witness:
  "\<exists>s' r' d'. (cq_step ex_unreachable id 1 (Some 5) ^^ (3 * 100)) ex_queued s' \<and> cq_queue s' = [Call ex_sale r' d']
     \<and> cq_warned s' = replicate 100 (invoice_ident ex_sale)"
  using callback_retried_beyond_maximum [where E = ex_unreachable and v = ex_sale and queue_size = 1 and m = 5 and s = ex_queued
      and r = 5 and d = "10 ^ 10" and grow = id and n = 100]
  by (simp add: ex_fails USIZE_MAX_def ex_queued_def callback_queue_init_def)

end
