(* ===== verification/Server.thy ===== *)
theory Server
  imports Config Callbacks
begin

text \<open>
  The HTTP server: bearer authentication (\<open>server/src/server/auth.rs\<close>), the handlers of the internal and
  the external API (\<open>server/src/server/api/internal.rs\<close>, \<open>external.rs\<close>), the websocket that forwards
  updates, and the task that watches invoice updates (\<open>spawn_gateway\<close> in \<open>server/src/lib.rs\<close>).

  Parameters, in a record: base64, serde_json, the URI parser and the page templates.  Routing,
  decoding of queries and bodies, TLS and the connection loop belong to axum, hyper and rustls.
\<close>

section \<open>Authentication\<close>

text \<open>\<open>headers\<close> are the values of the \<open>AUTHORIZATION\<close> header; an error is the status of the reply.\<close>

definition bearer_validate :: "string option \<Rightarrow> string list \<Rightarrow> (unit, nat) result" where
  "bearer_validate tok headers =
     (case tok of
        None \<Rightarrow> Ok ()
      | Some t \<Rightarrow>
          (case headers of
             actual # _ \<Rightarrow> if actual = ''Bearer '' @ t then Ok () else Err 401
           | [] \<Rightarrow> Err 401))"

section \<open>Replies\<close>

datatype body = NoBody | Message string | UpdateBody invoice_update | IdBody string | IdsBody "string list" | Page string

record reply =
  status_code :: nat
  no_store :: bool
  body :: body

definition error_reply :: "('a, 'd, 'j) api_error \<Rightarrow> reply" where
  "error_reply e = \<lparr>status_code = api_status e, no_store = False, body = Message (api_message e)\<rparr>"

record ('d, 'j) api_env =
  ae_encode :: "u8 list \<Rightarrow> string"
  ae_decode :: "string \<Rightarrow> (u8 list, 'd) result"
  ae_from_str :: "string \<Rightarrow> (invoice_description, 'j) result"
  ae_to_string :: "invoice_description \<Rightarrow> (string, 'j) result"
  ae_uri :: "string \<Rightarrow> (string, 'j) result"
  ae_templates :: bool
    \<comment> \<open>\<open>Tera::new\<close> can read the templates\<close>
  ae_pay_page :: "invoice_update \<Rightarrow> (string, 'j) result"
  ae_missing_page :: "string \<Rightarrow> (string, 'j) result"
  ae_error_page :: "(string, 'j) result"

section \<open>The internal API\<close>

record new_invoice_params =
  piconeros_due :: u64
  params_confirmations :: u64
  params_expiration_in :: u64
  params_order :: string
  params_callback :: "string option"

definition api_new_invoice ::
  "('d, 'j) api_env \<Rightarrow> ('s, 'e) storage \<Rightarrow> ('w, 'r) monerod \<Rightarrow> (sub_index \<Rightarrow> string) \<Rightarrow> (nat \<Rightarrow> 'g \<Rightarrow> nat \<times> 'g)
     \<Rightarrow> new_invoice_params \<Rightarrow> ('s, 'g, 'w) gateway
     \<Rightarrow> ((reply, (('e, 'r, 'm) accept_xmr_error, 'd, 'j) api_error) result \<times> ('s, 'g, 'w) gateway) option" where
  "api_new_invoice A S D addr gen_range payload g =
     (let valid = (case params_callback payload of
            Some u \<Rightarrow> map_err InvalidCallback (map_ok (\<lambda>_. ()) (ae_uri A u)) | None \<Rightarrow> Ok ());
          desc = map_err DescriptionSerialization
            (ae_to_string A \<lparr>order = params_order payload, callback_uri = params_callback payload\<rparr>)
      in case and_then valid (\<lambda>_. desc) of
           Ok d \<Rightarrow>
             map_option (\<lambda>(r, g'). (map_ok
                  (\<lambda>i. \<lparr>status_code = 200, no_store = True, body = IdBody (base64_invoice_id (ae_encode A) i)\<rparr>)
                  (map_err AcceptXmr r), g'))
               (new_invoice S D addr gen_range (piconeros_due payload) (params_confirmations payload)
                  (params_expiration_in payload) d g)
         | Err e \<Rightarrow> Some (Err e, g)
         | Panic \<Rightarrow> Some (Panic, g))"

definition api_delete_invoice ::
  "('d, 'j) api_env \<Rightarrow> ('s, 'e) storage \<Rightarrow> string \<Rightarrow> ('s, 'g, 'w) gateway
     \<Rightarrow> (reply, (('e, 'r, 'm) accept_xmr_error, 'd, 'j) api_error) result \<times> ('s, 'g, 'w) gateway" where
  "api_delete_invoice A S query g =
     try_st (map_err InvalidInvoiceId (invoice_id_from_str (ae_decode A) query), g) (\<lambda>i g.
     let (r, g') = remove_invoice S i g
     in try_st (map_err AcceptXmr r, g') (\<lambda>removed g'.
          (Ok \<lparr>status_code = (case removed of Some _ \<Rightarrow> 200 | None \<Rightarrow> 404), no_store = True, body = NoBody\<rparr>, g')))"

definition api_invoice_ids ::
  "('d, 'j) api_env \<Rightarrow> ('s, 'e) storage \<Rightarrow> ('s, 'g, 'w) gateway
     \<Rightarrow> (reply, (('e, 'r, 'm) accept_xmr_error, 'd, 'j) api_error) result \<times> ('s, 'g, 'w) gateway" where
  "api_invoice_ids A S g =
     (let (r, g') = gw_get_invoice_ids S g
      in try_st (map_err AcceptXmr r, g') (\<lambda>ids g'.
           (Ok \<lparr>status_code = 200, no_store = True, body = IdsBody (map (base64_invoice_id (ae_encode A)) ids)\<rparr>, g')))"

section \<open>The external API\<close>

definition api_get_invoice_status ::
  "('d, 'j) api_env \<Rightarrow> ('s, 'e) storage \<Rightarrow> string \<Rightarrow> ('s, 'g, 'w) gateway
     \<Rightarrow> (reply, (('e, 'r, 'm) accept_xmr_error, 'd, 'j) api_error) result \<times> ('s, 'g, 'w) gateway" where
  "api_get_invoice_status A S query g =
     try_st (map_err InvalidInvoiceId (invoice_id_from_str (ae_decode A) query), g) (\<lambda>i g.
     let (r, g') = gw_get_invoice S i g
     in try_st (map_err AcceptXmr r, g') (\<lambda>found g'.
          case found of
            Some v \<Rightarrow> (Ok \<lparr>status_code = 200, no_store = True,
              body = UpdateBody (invoice_update_from (ae_encode A) (ae_from_str A) v)\<rparr>, g')
          | None \<Rightarrow> (Err (InvoiceNotFound i), g')))"

definition api_pay ::
  "('d, 'j) api_env \<Rightarrow> ('s, 'e) storage \<Rightarrow> string \<Rightarrow> ('s, 'g, 'w) gateway
     \<Rightarrow> (reply, (('e, 'r, 'm) accept_xmr_error, 'd, 'j) api_error) result \<times> ('s, 'g, 'w) gateway" where
  "api_pay A S query g =
     try_st (map_err InvalidInvoiceId (invoice_id_from_str (ae_decode A) query), g) (\<lambda>i g.
     if \<not> ae_templates A then (Panic, g) else
     let (r :: (invoice option, ('e, 'r, 'm) accept_xmr_error) result, g') = gw_get_invoice S i g;
         page = (\<lambda>st rendered. (map_ok (\<lambda>html. \<lparr>status_code = st, no_store = True, body = Page html\<rparr>)
           (map_err TemplatingError rendered), g'))
     in case r of
          Ok (Some v) \<Rightarrow> page 200 (ae_pay_page A (invoice_update_from (ae_encode A) (ae_from_str A) v))
        | Ok None \<Rightarrow> page 404 (ae_missing_page A (base64_invoice_id (ae_encode A) i))
        | Err _ \<Rightarrow> page 500 (ae_error_page A)
        | Panic \<Rightarrow> (Panic, g'))"

text \<open>\<open>websocket\<close>: \<open>Inl\<close> a reply, or \<open>Inr\<close> the channel whose updates are forwarded after the upgrade.\<close>

definition api_websocket ::
  "('d, 'j) api_env \<Rightarrow> string \<Rightarrow> sender_id \<Rightarrow> nat \<Rightarrow> ('s, 'g, 'w) gateway
     \<Rightarrow> (reply + nat, (('e, 'r, 'm) accept_xmr_error, 'd, 'j) api_error) result \<times> ('s, 'g, 'w) gateway" where
  "api_websocket A query sid c g =
     try_st (map_err InvalidInvoiceId (invoice_id_from_str (ae_decode A) query), g) (\<lambda>i g.
     let (sub, g') = gw_subscribe i sid c g
     in (Ok (case sub of
               None \<Rightarrow> Inl \<lparr>status_code = 404, no_store = False, body = NoBody\<rparr>
             | Some ch \<Rightarrow> Inr ch), g'))"

section \<open>Forwarding updates over a websocket\<close>

datatype ws_message = WsText invoice | WsClose string

text \<open>
  The sending half of the socket: what the client received, and whether a close frame went out or the
  connection broke; from then on every send is an error, which the loop only logs.
\<close>

record ws_sender =
  ws_open :: bool
  ws_received :: "ws_message list"

definition ws_send :: "ws_message \<Rightarrow> ws_sender \<Rightarrow> ws_sender" where
  "ws_send m s =
     (if ws_open s
      then s\<lparr>ws_received := ws_received s @ [m], ws_open := (case m of WsText _ \<Rightarrow> True | WsClose _ \<Rightarrow> False)\<rparr>
      else s)"

text \<open>The loop over the updates of the subscriber.\<close>

fun handle_websocket :: "invoice list \<Rightarrow> ws_sender \<Rightarrow> ws_sender" where
  "handle_websocket [] s = s"
| "handle_websocket (v # vs) s =
     (let s1 = ws_send (WsText v) s;
          s2 = (if is_confirmed v then (ws_send (WsClose ''Invoice Complete'') s1)\<lparr>ws_open := False\<rparr>
                else if is_expired v then (ws_send (WsClose ''Invoice Expired'') s1)\<lparr>ws_open := False\<rparr>
                else s1)
      in handle_websocket vs s2)"

section \<open>Watching all updates\<close>

text \<open>
  The body of the loop in \<open>spawn_gateway\<close> for one update: the report is queued, and an expired invoice
  that is not pending confirmation is removed.  \<open>None\<close> while the queue is full.
\<close>

definition watch_update ::
  "('s, 'e) storage \<Rightarrow> nat \<Rightarrow> bool \<Rightarrow> invoice \<Rightarrow> ('s, 'g, 'w) gateway \<times> 'c callback_queue
     \<Rightarrow> ((unit, unit) result \<times> (('s, 'g, 'w) gateway \<times> 'c callback_queue)) option" where
  "watch_update S queue_len delete v s =
     (case callback_send queue_len (Call v 0 0) (snd s) of
        None \<Rightarrow> None
      | Some (Ok _, q) \<Rightarrow>
          (if is_expired v \<and> (is_confirmed v \<or> \<not> is_paid v) \<and> delete
           then Some (Ok (), (snd (remove_invoice S (invoice_ident v) (fst s)
                  :: (invoice option, ('e, unit, unit) accept_xmr_error) result \<times> ('s, 'g, 'w) gateway), q))
           else Some (Ok (), (fst s, q)))
      | Some (_, q) \<Rightarrow> Some (Panic, (fst s, q)))"

section \<open>Invoices through the API\<close>

lemma gw_get_invoice_in_memory:
  assumes "gw_ok im_wf im_invoice_map addr g" and "gw_store g = Some s"
  shows "gw_get_invoice in_memory i g = (Ok (gw_invoices g i), g)"
  using assms by (simp add: gw_get_invoice_def direct_def im_method_defs reading_def gw_invoices_def im_invoice_map_def)

lemma get_status_found:
  assumes "gw_ok im_wf im_invoice_map addr g" and "gw_store g = Some s"
    and "invoice_id_from_str (ae_decode A) query = Ok i" and "gw_invoices g i = Some v"
  shows "api_get_invoice_status A in_memory query g
    = (Ok \<lparr>status_code = 200, no_store = True, body = UpdateBody (invoice_update_from (ae_encode A) (ae_from_str A) v)\<rparr>, g)"
  using assms by (simp add: api_get_invoice_status_def gw_get_invoice_in_memory [OF assms(1,2)])

lemma get_status_missing:
  assumes "gw_ok im_wf im_invoice_map addr g" and "gw_store g = Some s"
    and "invoice_id_from_str (ae_decode A) query = Ok i" and "gw_invoices g i = None"
  shows "api_get_invoice_status A in_memory query g = (Err (InvoiceNotFound i), g)"
  using assms by (simp add: api_get_invoice_status_def gw_get_invoice_in_memory [OF assms(1,2)])

text \<open>What the code relies on: what base64 and serde_json write, they read back.\<close>

locale api_codecs = base64 "ae_encode A" "ae_decode A"
  for A :: "('d, 'j) api_env" +
  assumes from_to_string: "ae_to_string A d = Ok s \<Longrightarrow> ae_from_str A s = Ok d"
begin

lemma update_of_new:
  assumes "ae_to_string A d = Ok desc" and "v = invoice_new a idx h amt confs expires desc"
  shows "\<exists>u. invoice_update_from (ae_encode A) (ae_from_str A) v = u \<and> upd_id u = base64_invoice_id (ae_encode A) (invoice_ident v)
    \<and> upd_address u = a \<and> upd_amount_requested u = amt \<and> upd_amount_paid u = 0 \<and> upd_confirmations_required u = confs
    \<and> upd_order u = order d \<and> upd_callback u = callback_uri d"
  using from_to_string [OF assms(1)] assms(2)
  by (simp add: invoice_update_from_def from_json_or_any_def invoice_new_def Let_def)

lemma created_invoice_is_served:
  fixes D :: "('w, 'r) monerod"
  assumes ok: "gw_ok im_wf im_invoice_map addr g" and s: "gw_store g = Some s"
    and ne: "available_subaddresses (gw_subaddresses g) \<noteq> []" and gen: "draws_in_range gen_range"
    and h: "creation_height_of D g = (Ok c, w)"
    and cb: "\<And>u. params_callback p = Some u \<Longrightarrow> \<exists>x. ae_uri A u = Ok x"
    and desc: "ae_to_string A \<lparr>order = params_order p, callback_uri = params_callback p\<rparr> = Ok desc"
  shows "\<exists>text g' u. api_new_invoice A in_memory D addr gen_range p g
        = Some (Ok \<lparr>status_code = 200, no_store = True, body = IdBody text\<rparr>
            :: (_, ((in_memory_storage_error, 'r, 'm) accept_xmr_error, 'd, 'j) api_error) result, g')
    \<and> api_get_invoice_status A in_memory text g'
        = (Ok \<lparr>status_code = 200, no_store = True, body = UpdateBody u\<rparr>
            :: (_, ((in_memory_storage_error, 'r, 'm) accept_xmr_error, 'd, 'j) api_error) result, g')
    \<and> upd_id u = text \<and> upd_amount_requested u = piconeros_due p \<and> upd_amount_paid u = 0
    \<and> upd_order u = params_order p \<and> upd_callback u = params_callback p"
proof -
  obtain r g' idx where run: "new_invoice in_memory D addr gen_range (piconeros_due p) (params_confirmations p) (params_expiration_in p) desc g
      = Some (r :: (_, (in_memory_storage_error, 'r, 'm) accept_xmr_error) result, g')"
    and ok': "gw_ok im_wf im_invoice_map addr g'"
    and res: "let v = invoice_new (addr idx) idx c (piconeros_due p) (params_confirmations p) (params_expiration_in p) desc
       in r = Ok (invoice_ident v) \<and> gw_invoices g' = (gw_invoices g)(invoice_ident v \<mapsto> v)"
    by (rule new_invoice_in_memory [OF ok s ne gen h, where desc = desc]) simp
  define v where "v = invoice_new (addr idx) idx c (piconeros_due p) (params_confirmations p) (params_expiration_in p) desc"
  have v: "r = Ok (invoice_ident v)" "gw_invoices g' (invoice_ident v) = Some v" using res by (simp_all add: v_def Let_def)
  then obtain s' where s': "gw_store g' = Some s'" by (auto simp: gw_invoices_def split: option.splits)
  have "api_new_invoice A in_memory D addr gen_range p g
      = Some (Ok \<lparr>status_code = 200, no_store = True, body = IdBody (base64_invoice_id (ae_encode A) (invoice_ident v))\<rparr>
          :: (_, ((in_memory_storage_error, 'r, 'm) accept_xmr_error, 'd, 'j) api_error) result, g')"
    using cb desc by (cases "params_callback p") (auto simp: api_new_invoice_def run v(1))
  moreover have "api_get_invoice_status A in_memory (base64_invoice_id (ae_encode A) (invoice_ident v)) g'
      = (Ok \<lparr>status_code = 200, no_store = True, body = UpdateBody (invoice_update_from (ae_encode A) (ae_from_str A) v)\<rparr>
          :: (_, ((in_memory_storage_error, 'r, 'm) accept_xmr_error, 'd, 'j) api_error) result, g')"
    by (rule get_status_found [OF ok' s' read_written v(2)])
  ultimately show ?thesis using update_of_new [OF desc v_def] by fastforce
qed

end

text \<open>The contract holds with base64 and with a description that is its order.\<close>

definition ex_api :: "(decode_error, unit) api_env" where
  "ex_api = \<lparr>ae_encode = url_safe_encode, ae_decode = url_safe_decode, ae_from_str = (\<lambda>s. Ok \<lparr>order = s, callback_uri = None\<rparr>),
     ae_to_string = (\<lambda>d. if callback_uri d = None then Ok (order d) else Err ()), ae_uri = Ok,
     ae_templates = True, ae_pay_page = (\<lambda>u. Ok (upd_order u)), ae_missing_page = Ok, ae_error_page = Ok ''error''\<rparr>"

interpretation ex_codecs: api_codecs ex_api
proof
  show "ae_decode ex_api (ae_encode ex_api bs) = Ok bs" for bs by (simp add: ex_api_def url.decode_encode)
  show "ae_to_string ex_api d = Ok t \<Longrightarrow> ae_from_str ex_api t = Ok d" for d t
    by (cases d) (auto simp: ex_api_def split: if_splits)
qed

lemma delete_in_memory:
  fixes g :: "(in_memory_store, 'g, 'w) gateway"
  assumes ok: "gw_ok im_wf im_invoice_map addr g" and s: "gw_store g = Some s"
    and i: "invoice_id_from_str (ae_decode A) query = Ok i"
  shows "\<exists>g'. api_delete_invoice A in_memory query g
        = (Ok \<lparr>status_code = (if gw_invoices g i = None then 404 else 200), no_store = True, body = NoBody\<rparr>
            :: (_, ((in_memory_storage_error, 'r, 'm) accept_xmr_error, 'd, 'j) api_error) result, g')
    \<and> gw_invoices g' = (gw_invoices g)(i := None) \<and> gw_ok im_wf im_invoice_map addr g'
    \<and> api_get_invoice_status A in_memory query g'
        = (Err (InvoiceNotFound i) :: (_, ((in_memory_storage_error, 'r, 'm) accept_xmr_error, 'd, 'j) api_error) result, g')"
proof -
  obtain g' s' where g': "remove_invoice in_memory i g
        = (Ok (gw_invoices g i) :: (_, (in_memory_storage_error, 'r, 'm) accept_xmr_error) result, g')"
      "gw_invoices g' = (gw_invoices g)(i := None)" "gw_ok im_wf im_invoice_map addr g'" "gw_store g' = Some s'"
    using remove_invoice_in_memory [OF ok s, where 'r = 'r and 'm = 'm] by blast
  have "api_delete_invoice A in_memory query g
      = (Ok \<lparr>status_code = (if gw_invoices g i = None then 404 else 200), no_store = True, body = NoBody\<rparr>
          :: (_, ((in_memory_storage_error, 'r, 'm) accept_xmr_error, 'd, 'j) api_error) result, g')"
    by (cases "gw_invoices g i") (simp_all add: api_delete_invoice_def i g'(1))
  moreover have "gw_invoices g' i = None" using g'(2) by simp
  ultimately show ?thesis using get_status_missing [OF g'(3,4) i] g' by blast
qed

section \<open>The stream a websocket client sees\<close>

definition settled :: "invoice \<Rightarrow> bool" where
  "settled v \<longleftrightarrow> is_confirmed v \<or> is_expired v"

text \<open>The updates up to the first that settles the invoice, and then a close frame.\<close>

definition forwarded :: "invoice list \<Rightarrow> ws_message list" where
  "forwarded vs =
     map WsText (takeWhile (\<lambda>v. \<not> settled v) vs) @
     (case dropWhile (\<lambda>v. \<not> settled v) vs of
        [] \<Rightarrow> []
      | v # _ \<Rightarrow> [WsText v, WsClose (if is_confirmed v then ''Invoice Complete'' else ''Invoice Expired'')])"

lemma ws_send_closed: "\<not> ws_open s \<Longrightarrow> ws_send m s = s"
  by (simp add: ws_send_def)

lemma ws_stay_closed: "\<not> ws_open s \<Longrightarrow> s\<lparr>ws_open := False\<rparr> = s"
  by (cases s) simp

lemma handle_websocket_closed: "\<not> ws_open s \<Longrightarrow> handle_websocket vs s = s"
  by (induction vs) (simp_all add: ws_send_closed ws_stay_closed Let_def)

lemma handle_websocket_open:
  "ws_open s \<Longrightarrow> ws_received (handle_websocket vs s) = ws_received s @ forwarded vs"
proof (induction vs arbitrary: s)
  case (Cons v vs)
  let ?s1 = "s\<lparr>ws_received := ws_received s @ [WsText v], ws_open := True\<rparr>"
  show ?case
  proof (cases "settled v")
    case True
    let ?m = "WsClose (if is_confirmed v then ''Invoice Complete'' else ''Invoice Expired'')"
    let ?s2 = "s\<lparr>ws_received := ws_received s @ [WsText v] @ [?m], ws_open := False\<rparr>"
    have "handle_websocket (v # vs) s = handle_websocket vs ?s2"
      using Cons.prems True by (auto simp: ws_send_def Let_def settled_def)
    also have "\<dots> = ?s2" by (rule handle_websocket_closed) simp
    finally show ?thesis using True by (simp add: forwarded_def)
  next
    case False
    then have "handle_websocket (v # vs) s = handle_websocket vs ?s1"
      using Cons.prems by (simp add: ws_send_def Let_def settled_def)
    then show ?thesis using Cons.IH [of ?s1] False by (simp add: forwarded_def)
  qed
qed (simp add: forwarded_def)

section \<open>Properties\<close>

text \<open>
  C32. From creation to status, through the whole server: an invoice created over the internal API is
  served by the external API under the ID in the reply, with the amount, order and callback of the
  request and nothing paid yet.
\<close>

theorem created_invoice_is_served_by_api:
  fixes D :: "('w, 'r) monerod" and A :: "('d, 'j) api_env"
  assumes "\<And>bs. ae_decode A (ae_encode A bs) = Ok bs" and "\<And>d t. ae_to_string A d = Ok t \<Longrightarrow> ae_from_str A t = Ok d"
    and "gw_ok im_wf im_invoice_map addr g" and "gw_store g = Some s"
    and "available_subaddresses (gw_subaddresses g) \<noteq> []" and "draws_in_range gen_range"
    and "creation_height_of D g = (Ok c, w)"
    and "\<And>u. params_callback p = Some u \<Longrightarrow> \<exists>x. ae_uri A u = Ok x"
    and "ae_to_string A \<lparr>order = params_order p, callback_uri = params_callback p\<rparr> = Ok desc"
  shows "\<exists>text g' u. api_new_invoice A in_memory D addr gen_range p g
        = Some (Ok \<lparr>status_code = 200, no_store = True, body = IdBody text\<rparr>
            :: (_, ((in_memory_storage_error, 'r, 'm) accept_xmr_error, 'd, 'j) api_error) result, g')
    \<and> api_get_invoice_status A in_memory text g'
        = (Ok \<lparr>status_code = 200, no_store = True, body = UpdateBody u\<rparr>
            :: (_, ((in_memory_storage_error, 'r, 'm) accept_xmr_error, 'd, 'j) api_error) result, g')
    \<and> upd_id u = text \<and> upd_amount_requested u = piconeros_due p \<and> upd_amount_paid u = 0
    \<and> upd_order u = params_order p \<and> upd_callback u = params_callback p"
proof -
  have "api_codecs A" by (intro api_codecs.intro base64.intro api_codecs_axioms.intro) (rule assms(1), rule assms(2))
  from api_codecs.created_invoice_is_served [OF this assms(3-9)] show ?thesis by blast
qed

definition ex_params :: new_invoice_params where
  "ex_params = \<lparr>piconeros_due = 5, params_confirmations = 2, params_expiration_in = 20, params_order = ''tea'', params_callback = None\<rparr>"

theorem created_invoice_is_served_by_api_witness:
  "\<exists>text g' u. api_new_invoice ex_api in_memory (ex_node 6 6) (\<lambda>_. ''x'') (\<lambda>n r. (n - 1, r)) ex_params (ex_gateway 9)
      = Some (Ok \<lparr>status_code = 200, no_store = True, body = IdBody text\<rparr> :: (_, (ex_error, decode_error, unit) api_error) result, g')
    \<and> fst (api_get_invoice_status ex_api in_memory text g' :: (_, (ex_error, decode_error, unit) api_error) result \<times> _)
      = Ok \<lparr>status_code = 200, no_store = True, body = UpdateBody u\<rparr>
    \<and> upd_order u = ''tea'' \<and> upd_amount_requested u = 5"
proof -
  have s: "gw_store (ex_gateway 9) = Some im_new" by (simp add: ex_gateway_def)
  have h: "creation_height_of (ex_node 6 6) (ex_gateway 9) = (Ok 9, True)"
    by (simp add: creation_height_of_def ex_gateway_def)
  have c: "\<exists>x. ae_uri ex_api u = Ok x" for u by (simp add: ex_api_def)
  have d: "ae_to_string ex_api \<lparr>order = params_order ex_params, callback_uri = params_callback ex_params\<rparr> = Ok ''tea''"
    by (simp add: ex_api_def ex_params_def)
  show ?thesis
    using created_invoice_is_served_by_api [OF ex_codecs.decode_encode ex_codecs.from_to_string ex_gateway_ok s ex_gateway_pool ex_draws h c d, where 'm = unit]
    by (fastforce simp: ex_params_def)
qed

text \<open>
  Deleting over the API: the reply is 200 when the invoice was tracked and 404 when it was not;
  afterwards the external API does not find it, and every other invoice is kept.
\<close>

theorem deleted_invoice_is_gone:
  fixes g :: "(in_memory_store, 'g, 'w) gateway"
  assumes "gw_ok im_wf im_invoice_map addr g" and "gw_store g = Some s"
    and "invoice_id_from_str (ae_decode A) query = Ok i"
  shows "\<exists>g'. api_delete_invoice A in_memory query g
        = (Ok \<lparr>status_code = (if gw_invoices g i = None then 404 else 200), no_store = True, body = NoBody\<rparr>
            :: (_, ((in_memory_storage_error, 'r, 'm) accept_xmr_error, 'd, 'j) api_error) result, g')
    \<and> gw_invoices g' = (gw_invoices g)(i := None) \<and> gw_ok im_wf im_invoice_map addr g'
    \<and> api_get_invoice_status A in_memory query g'
        = (Err (InvoiceNotFound i) :: (_, ((in_memory_storage_error, 'r, 'm) accept_xmr_error, 'd, 'j) api_error) result, g')"
  by (rule delete_in_memory [OF assms])

theorem deleted_invoice_is_gone_witness:
  "fst (api_delete_invoice ex_api in_memory (base64_invoice_id url_safe_encode (InvoiceId (SubIndex 0 3) 7)) (ex_gateway 0)
      :: (_, (ex_error, decode_error, unit) api_error) result \<times> _) = Ok \<lparr>status_code = 404, no_store = True, body = NoBody\<rparr>"
proof -
  have s: "gw_store (ex_gateway 0) = Some im_new" by (simp add: ex_gateway_def)
  have i: "invoice_id_from_str (ae_decode ex_api) (base64_invoice_id url_safe_encode (InvoiceId (SubIndex 0 3) 7)) = Ok (InvoiceId (SubIndex 0 3) 7)"
    by (simp add: ex_api_def url.read_written)
  have "gw_invoices (ex_gateway 0) (InvoiceId (SubIndex 0 3) 7) = None"
    by (simp add: gw_invoices_def ex_gateway_def im_invoice_map_def im_new_def)
  with deleted_invoice_is_gone [OF ex_gateway_ok s i, where 'r = unit and 'm = unit] show ?thesis by fastforce
qed

text \<open>
  What a websocket client receives: the updates of its invoice up to and including the first one
  that is confirmed or expired, then one close frame with the reason, and nothing after it, although
  the task keeps taking updates.
\<close>

theorem websocket_client_sees_updates_until_settled:
  "ws_received (handle_websocket vs \<lparr>ws_open = True, ws_received = []\<rparr>) = forwarded vs"
  by (simp add: handle_websocket_open)

text \<open>
  The watching task reports every update once and removes an invoice only when the configuration
  asks for it and the update says that the invoice is expired and either confirmed or not paid.
\<close>

theorem watcher_removes_only_finished_invoices:
  fixes g :: "(in_memory_store, 'g, 'w) gateway" and q :: "'c callback_queue"
  assumes "gw_ok im_wf im_invoice_map addr g" and "gw_store g = Some s" and "cq_open q" and "length (cq_queue q) < n"
  shows "\<exists>g'. watch_update in_memory n delete v (g, q) = Some (Ok (), (g', q\<lparr>cq_queue := cq_queue q @ [Call v 0 0]\<rparr>))
    \<and> gw_ok im_wf im_invoice_map addr g'
    \<and> gw_invoices g' = (if is_expired v \<and> (is_confirmed v \<or> \<not> is_paid v) \<and> delete
        then (gw_invoices g)(invoice_ident v := None) else gw_invoices g)"
proof -
  obtain g' where "remove_invoice in_memory (invoice_ident v) g
        = (Ok (gw_invoices g (invoice_ident v)) :: (_, (in_memory_storage_error, unit, unit) accept_xmr_error) result, g')"
      and "gw_invoices g' = (gw_invoices g)(invoice_ident v := None)" and "gw_ok im_wf im_invoice_map addr g'"
    using remove_invoice_in_memory [OF assms(1,2), where 'r = unit and 'm = unit] by blast
  then show ?thesis using assms by (auto simp: watch_update_def callback_send_def)
qed

theorem watcher_removes_only_finished_invoices_witness:
  "\<exists>g' q'. watch_update in_memory 1 True ex_sale (ex_gateway 0, callback_queue_init ()) = Some (Ok (), (g', q'))
     \<and> gw_invoices g' = gw_invoices (ex_gateway 0)"
proof -
  have s: "gw_store (ex_gateway 0) = Some im_new" by (simp add: ex_gateway_def)
  have "\<not> is_expired ex_sale" by (simp add: ex_sale_def invoice_new_def is_expired_def)
  then show ?thesis
    using watcher_removes_only_finished_invoices [OF ex_gateway_ok s, of "callback_queue_init ()" 1 True ex_sale]
    by (auto simp: callback_queue_init_def)
qed

end
