(* ===== verification/Tls.thy ===== *)
theory Tls
  imports Config
begin

text \<open>
  Certificates of the server, \<open>server/src/server/tls.rs\<close>: they are loaded from the configured files, or
  generated there first when neither file exists.

  Parameters, in a record: the file system, whose state is part of a world \<open>'w\<close>, and the crates that
  generate (rcgen), read (rustls_pemfile) and check (rustls) certificates and keys.
\<close>

section \<open>Model\<close>

record ('w, 'i, 'x, 'cert, 'c, 'k, 't) tls_env =
  te_exists :: "string \<Rightarrow> 'w \<Rightarrow> (bool, 'i) result"
  te_open :: "string \<Rightarrow> 'w \<Rightarrow> (string, 'i) result"
  te_parent :: "string \<Rightarrow> string option"
  te_create_dir_all :: "string \<Rightarrow> 'w \<Rightarrow> (unit, 'i) result \<times> 'w"
  te_create :: "string \<Rightarrow> 'w \<Rightarrow> (unit, 'i) result \<times> 'w"
  te_write :: "string \<Rightarrow> string \<Rightarrow> 'w \<Rightarrow> (unit, 'i) result \<times> 'w"
  te_generate :: "'w \<Rightarrow> ('cert, 'x) result \<times> 'w"
    \<comment> \<open>\<open>generate_simple_self_signed\<close> for \<open>localhost\<close>\<close>
  te_pem :: "'cert \<Rightarrow> (string, 'x) result"
  te_key_pem :: "'cert \<Rightarrow> string"
  te_certs :: "string \<Rightarrow> ('c, 'i) result list"
  te_pkcs8_keys :: "string \<Rightarrow> ('k, 'i) result list"
  te_single_cert :: "'c list \<Rightarrow> 'k \<Rightarrow> ('t, 'x) result"

datatype exit = Exit nat

text \<open>\<open>expect\<close> and \<open>unwrap\<close>, without and with a state.\<close>

fun expecting :: "('a, 'x) result \<Rightarrow> ('a, 'e) result" where
  "expecting (Ok a) = Ok a"
| "expecting _ = Panic"

lemma expecting_eq_Ok [simp]: "expecting r = Ok a \<longleftrightarrow> r = Ok a"
  by (cases r) auto

definition expecting_st :: "('a, 'x) result \<times> 'w \<Rightarrow> ('a, 'e) result \<times> 'w" where
  "expecting_st r = (expecting (fst r), snd r)"

definition load_tls :: "('w, 'i, 'x, 'cert, 'c, 'k, 't) tls_env \<Rightarrow> tls_config \<Rightarrow> 'w \<Rightarrow> ('c list \<times> 'k list, exit) result" where
  "load_tls E config w =
     and_then (expecting (te_open E (tls_cert config) w)) (\<lambda>cert_file.
     and_then (expecting (te_open E (tls_key config) w)) (\<lambda>key_file.
     and_then (expecting (collect_results (te_certs E cert_file))) (\<lambda>cert_chain.
     map_ok (\<lambda>keys. (cert_chain, keys)) (expecting (collect_results (te_pkcs8_keys E key_file))))))"

definition create_parent ::
  "('w, 'i, 'x, 'cert, 'c, 'k, 't) tls_env \<Rightarrow> string \<Rightarrow> 'w \<Rightarrow> (unit, exit) result \<times> 'w" where
  "create_parent E p w =
     (case te_parent E p of Some d \<Rightarrow> expecting_st (te_create_dir_all E d w) | None \<Rightarrow> (Ok (), w))"

definition generate_tls :: "('w, 'i, 'x, 'cert, 'c, 'k, 't) tls_env \<Rightarrow> tls_config \<Rightarrow> 'w \<Rightarrow> (unit, exit) result \<times> 'w" where
  "generate_tls E config w =
     try_st (expecting_st (te_generate E w)) (\<lambda>c w.
     try_st (create_parent E (tls_cert config) w) (\<lambda>_ w.
     try_st (create_parent E (tls_key config) w) (\<lambda>_ w.
     try_st (expecting_st (te_create E (tls_cert config) w)) (\<lambda>_ w.
     try_st (expecting_st (te_create E (tls_key config) w)) (\<lambda>_ w.
     try_st (expecting (te_pem E c), w) (\<lambda>pem w.
     try_st (expecting_st (te_write E (tls_cert config) pem w)) (\<lambda>_ w.
     expecting_st (te_write E (tls_key config) (te_key_pem E c) w))))))))"

text \<open>\<open>prepare_tls\<close>; the process exits with status 1 when no key is found.\<close>

definition prepare_tls :: "('w, 'i, 'x, 'cert, 'c, 'k, 't) tls_env \<Rightarrow> tls_config \<Rightarrow> 'w \<Rightarrow> ('t, exit) result \<times> 'w" where
  "prepare_tls E config w =
     try_st
       (case (te_exists E (tls_cert config) w, te_exists E (tls_key config) w) of
          (Ok True, Ok True) \<Rightarrow> (load_tls E config w, w)
        | (Ok False, Ok False) \<Rightarrow> try_st (generate_tls E config w) (\<lambda>_ w. (load_tls E config w, w))
        | _ \<Rightarrow> (Panic, w))
       (\<lambda>(cert_chain, keys) w.
          case keys of
            [] \<Rightarrow> (Err (Exit 1), w)
          | k # _ \<Rightarrow> (expecting (te_single_cert E cert_chain k), w))"

section \<open>What the file system promises\<close>

text \<open>
  \<open>files\<close> is what the files contain.  Creating a file makes it empty; writing to an empty file gives it
  the text; directories, lookups and key generation leave all files as they are.
\<close>

locale tls_files =
  fixes E :: "('w, 'i, 'x, 'cert, 'c, 'k, 't) tls_env" and files :: "'w \<Rightarrow> string \<Rightarrow> string option"
  assumes exists: "te_exists E p w = Ok (files w p \<noteq> None)"
    and create_dir_files: "te_create_dir_all E p w = (r, w') \<Longrightarrow> files w' = files w"
    and generate_files: "te_generate E w = (g, w') \<Longrightarrow> files w' = files w"
    and create_files: "te_create E p w = (Ok u, w') \<Longrightarrow> files w' = (files w)(p \<mapsto> [])"
    and write_files: "files w p = Some [] \<Longrightarrow> te_write E p text w = (Ok u, w') \<Longrightarrow> files w' = (files w)(p \<mapsto> text)"
begin

lemma expecting_st_Ok: "expecting_st r = (Ok a, w) \<longleftrightarrow> r = (Ok a, w)"
  by (cases r) (simp add: expecting_st_def)

lemma create_parent_files: "create_parent E p w = (r, w') \<Longrightarrow> files w' = files w"
  using create_dir_files by (auto simp: create_parent_def expecting_st_def split: option.splits) (metis prod.collapse)

lemma generate_tls_files:
  assumes "generate_tls E config w = (Ok u, w')" and "tls_cert config \<noteq> tls_key config"
  obtains c pem where "te_pem E c = Ok pem"
    and "files w' = (files w)(tls_cert config \<mapsto> pem, tls_key config \<mapsto> te_key_pem E c)"
proof -
  obtain c w1 w2 w3 w4 w5 w6 pem where
      g: "te_generate E w = (Ok c, w1)" "create_parent E (tls_cert config) w1 = (Ok (), w2)"
      "create_parent E (tls_key config) w2 = (Ok (), w3)" "te_create E (tls_cert config) w3 = (Ok (), w4)"
      "te_create E (tls_key config) w4 = (Ok (), w5)" "te_pem E c = Ok pem"
      "te_write E (tls_cert config) pem w5 = (Ok (), w6)" "te_write E (tls_key config) (te_key_pem E c) w6 = (Ok (), w')"
    using assms(1) by (auto simp: generate_tls_def try_st_eq_Ok expecting_st_Ok)
  have w5: "files w5 = (files w)(tls_cert config \<mapsto> [], tls_key config \<mapsto> [])"
    using create_files [OF g(4)] create_files [OF g(5)] create_parent_files [OF g(2)] create_parent_files [OF g(3)] generate_files [OF g(1)]
    by simp
  then have "files w6 = (files w5)(tls_cert config \<mapsto> pem)" using write_files [OF _ g(7)] assms(2) by simp
  with w5 have "files w6 (tls_key config) = Some []" using assms(2) by simp
  from write_files [OF this g(8)] \<open>files w6 = _\<close> w5 have "files w' = (files w)(tls_cert config \<mapsto> pem, tls_key config \<mapsto> te_key_pem E c)"
    using assms(2) by (auto simp: fun_eq_iff)
  with g(6) show thesis by (rule that)
qed

lemma prepare_tls_stable:
  assumes ok: "prepare_tls E config w = (Ok t, w')" and ne: "tls_cert config \<noteq> tls_key config"
  shows "prepare_tls E config w' = (Ok t, w')
    \<and> (files w (tls_cert config) = None \<longleftrightarrow> files w (tls_key config) = None)
    \<and> (files w (tls_cert config) \<noteq> None \<longrightarrow> w' = w)
    \<and> (\<forall>p. p \<noteq> tls_cert config \<longrightarrow> p \<noteq> tls_key config \<longrightarrow> files w' p = files w p)"
proof (cases "files w (tls_cert config) \<noteq> None \<and> files w (tls_key config) \<noteq> None")
  case True
  then have "w' = w" using ok by (auto simp: prepare_tls_def exists try_st_eq_Ok neq_Nil_conv split: list.splits prod.splits)
  with ok True show ?thesis by auto
next
  case False
  with ok have none: "files w (tls_cert config) = None" "files w (tls_key config) = None"
    by (auto simp: prepare_tls_def exists split: option.splits bool.splits)
  then obtain u where gen: "generate_tls E config w = (Ok u, w')"
      and load: "try_st (load_tls E config w', w') (\<lambda>(cert_chain, keys) w.
          case keys of [] \<Rightarrow> (Err (Exit 1), w) | k # _ \<Rightarrow> (expecting (te_single_cert E cert_chain k), w)) = (Ok t, w')"
    using ok by (auto simp: prepare_tls_def exists try_st_eq_Ok neq_Nil_conv split: list.splits prod.splits)
  obtain c pem where files: "files w' = (files w)(tls_cert config \<mapsto> pem, tls_key config \<mapsto> te_key_pem E c)"
    by (rule generate_tls_files [OF gen ne])
  then have "prepare_tls E config w' = (Ok t, w')" using load ne by (simp add: prepare_tls_def exists)
  with none files show ?thesis by auto
qed

end

section \<open>An instance\<close>

text \<open>Files as a map; every generation of a key pair has a new serial number.\<close>

type_synonym ex_disk = "(string \<Rightarrow> string option) \<times> nat"

definition ex_tls :: "(ex_disk, unit, unit, nat, string, string, string \<times> string) tls_env" where
  "ex_tls = \<lparr>te_exists = (\<lambda>p w. Ok (fst w p \<noteq> None)), te_open = (\<lambda>p w. ok_or (fst w p) ()), te_parent = (\<lambda>_. None),
     te_create_dir_all = (\<lambda>_ w. (Ok (), w)), te_create = (\<lambda>p w. (Ok (), ((fst w)(p \<mapsto> []), snd w))),
     te_write = (\<lambda>p t w. (Ok (), ((fst w)(p \<mapsto> t), snd w))), te_generate = (\<lambda>w. (Ok (snd w), (fst w, snd w + 1))),
     te_pem = (\<lambda>n. Ok (''cert'' @ replicate n CHR ''I'')), te_key_pem = (\<lambda>n. ''key'' @ replicate n CHR ''I''),
     te_certs = (\<lambda>t. [Ok t]), te_pkcs8_keys = (\<lambda>t. [Ok t]), te_single_cert = (\<lambda>cs k. Ok (concat cs, k))\<rparr>"

interpretation disk: tls_files ex_tls fst
  by unfold_locales (auto simp: ex_tls_def)

definition ex_tls_config :: tls_config where
  "ex_tls_config = \<lparr>tls_cert = ''c.pem'', tls_key = ''k.pem''\<rparr>"

section \<open>Properties\<close>

text \<open>
  The server's certificate is stable.  When \<open>prepare_tls\<close> succeeds, either both files or neither
  existed before; existing files are not touched, no other file ever is; and preparing again, after a
  restart, gives the same certificate and key and changes nothing.
\<close>

theorem tls_certificate_is_stable:
  fixes E :: "('w, 'i, 'x, 'cert, 'c, 'k, 't) tls_env"
  assumes "tls_files E files" and "prepare_tls E config w = (Ok t, w')" and "tls_cert config \<noteq> tls_key config"
  shows "prepare_tls E config w' = (Ok t, w')
    \<and> (files w (tls_cert config) = None \<longleftrightarrow> files w (tls_key config) = None)
    \<and> (files w (tls_cert config) \<noteq> None \<longrightarrow> w' = w)
    \<and> (\<forall>p. p \<noteq> tls_cert config \<longrightarrow> p \<noteq> tls_key config \<longrightarrow> files w' p = files w p)"
  by (rule tls_files.prepare_tls_stable [OF assms])

theorem tls_certificate_is_stable_witness:
  "let w' = snd (prepare_tls ex_tls ex_tls_config (Map.empty, 2))
   in fst (prepare_tls ex_tls ex_tls_config w') = Ok (''certII'', ''keyII'')"
proof -
  have first: "prepare_tls ex_tls ex_tls_config (Map.empty, 2)
      = (Ok (''certII'', ''keyII''), snd (prepare_tls ex_tls ex_tls_config (Map.empty, 2)))"
    by (simp add: prepare_tls_def generate_tls_def load_tls_def create_parent_def expecting_st_def ex_tls_def ex_tls_config_def numeral_2_eq_2)
  from tls_certificate_is_stable [OF disk.tls_files_axioms this] show ?thesis by (simp add: ex_tls_config_def)
qed

end
