(* ===== verification/Http_Server.thy ===== *)
theory Http_Server
  imports Server Tls
begin

text \<open>
  The two HTTP servers, \<open>server/src/server/mod.rs\<close> and the routers of \<open>server/src/server/api\<close>: which
  handler serves which route, the bearer check around them, binding and TLS, and starting both
  servers (\<open>build_server\<close> in \<open>server/src/lib.rs\<close>).

  Parameters, in a record: axum's routing and its extractors, the static files and the pages of the
  Swagger UI.  \<open>serve_request\<close> composes them in the order of the builder calls: the bearer layer wraps
  the routes and the fallback, and the documentation is merged after the layer and is not wrapped.
  The TLS handshake is left to rustls; the loops that accept connections are in \<open>Serving\<close>.
\<close>

section \<open>Routes\<close>

datatype verb = Get | Post | Delete | OtherVerb string

datatype handler = NewInvoice | DeleteInvoice | InvoiceIds | GetInvoiceStatus | Websocket | Pay

type_synonym route = "string \<times> verb \<times> handler"

definition internal :: "route list" where
  "internal = [(''/invoice'', Post, NewInvoice), (''/invoice'', Delete, DeleteInvoice), (''/invoice/ids'', Get, InvoiceIds)]"

definition external :: "route list" where
  "external = [(''/invoice/ws'', Get, Websocket), (''/invoice'', Get, GetInvoiceStatus), (''/pay'', Get, Pay)]"

text \<open>A request, with the values of its headers and what the extractors find in its query and body.\<close>

record request =
  rq_verb :: verb
  rq_path :: string
  rq_authorization :: "string list"
  rq_id :: "string option"
  rq_json :: "new_invoice_params option"

record axum_env =
  ax_route :: "route list \<Rightarrow> request \<Rightarrow> handler option"
  ax_reject :: "handler \<Rightarrow> request \<Rightarrow> reply"
    \<comment> \<open>the reply when an extractor finds no value\<close>
  ax_static :: "string \<Rightarrow> request \<Rightarrow> reply"
  ax_docs :: "bool \<Rightarrow> request \<Rightarrow> reply option"
    \<comment> \<open>the Swagger UI, for a document with or without a security scheme\<close>

section \<open>Handlers\<close>

text \<open>What a client sees: a reply, an open websocket for a channel, or a broken connection.\<close>

datatype response = Reply reply | Upgrade nat | NoReply

fun respond :: "(reply, ('a, 'd, 'j) api_error) result \<Rightarrow> response" where
  "respond (Ok r) = Reply r"
| "respond (Err e) = Reply (error_reply e)"
| "respond Panic = NoReply"

fun respond_ws :: "(reply + nat, ('a, 'd, 'j) api_error) result \<Rightarrow> response" where
  "respond_ws (Ok (Inl r)) = Reply r"
| "respond_ws (Ok (Inr c)) = Upgrade c"
| "respond_ws (Err e) = Reply (error_reply e)"
| "respond_ws Panic = NoReply"

definition with_id :: "axum_env \<Rightarrow> handler \<Rightarrow> request \<Rightarrow> (string \<Rightarrow> response \<times> 'a) \<Rightarrow> 'a \<Rightarrow> (response \<times> 'a) option" where
  "with_id X h rq f g = Some (case rq_id rq of Some t \<Rightarrow> f t | None \<Rightarrow> (Reply (ax_reject X h rq), g))"

text \<open>\<open>sid\<close> and \<open>c\<close> are the random sender ID and the channel of a new subscriber.\<close>

fun run_handler ::
  "axum_env \<Rightarrow> ('d, 'j) api_env \<Rightarrow> ('s, 'e) storage \<Rightarrow> ('w, 'r) monerod \<Rightarrow> (sub_index \<Rightarrow> string) \<Rightarrow> (nat \<Rightarrow> 'g \<Rightarrow> nat \<times> 'g)
     \<Rightarrow> sender_id \<Rightarrow> nat \<Rightarrow> handler \<Rightarrow> request \<Rightarrow> ('s, 'g, 'w) gateway \<Rightarrow> (response \<times> ('s, 'g, 'w) gateway) option" where
  "run_handler X A S D addr gen_range sid c NewInvoice rq g =
     (case rq_json rq of
        Some p \<Rightarrow> map_option (\<lambda>(r :: (_, (('e, 'r, unit) accept_xmr_error, 'd, 'j) api_error) result, g'). (respond r, g'))
          (api_new_invoice A S D addr gen_range p g)
      | None \<Rightarrow> Some (Reply (ax_reject X NewInvoice rq), g))"
| "run_handler X A S D addr gen_range sid c DeleteInvoice rq g =
     with_id X DeleteInvoice rq (\<lambda>t. let (r :: (_, (('e, 'r, unit) accept_xmr_error, 'd, 'j) api_error) result, g') =
       api_delete_invoice A S t g in (respond r, g')) g"
| "run_handler X A S D addr gen_range sid c InvoiceIds rq g =
     (let (r :: (_, (('e, 'r, unit) accept_xmr_error, 'd, 'j) api_error) result, g') = api_invoice_ids A S g in Some (respond r, g'))"
| "run_handler X A S D addr gen_range sid c GetInvoiceStatus rq g =
     with_id X GetInvoiceStatus rq (\<lambda>t. let (r :: (_, (('e, 'r, unit) accept_xmr_error, 'd, 'j) api_error) result, g') =
       api_get_invoice_status A S t g in (respond r, g')) g"
| "run_handler X A S D addr gen_range sid c Websocket rq g =
     with_id X Websocket rq (\<lambda>t. let (r :: (_, (('e, 'r, unit) accept_xmr_error, 'd, 'j) api_error) result, g') =
       api_websocket A t sid c g in (respond_ws r, g')) g"
| "run_handler X A S D addr gen_range sid c Pay rq g =
     with_id X Pay rq (\<lambda>t. let (r :: (_, (('e, 'r, unit) accept_xmr_error, 'd, 'j) api_error) result, g') =
       api_pay A S t g in (respond r, g')) g"

section \<open>The server\<close>

record ('l, 't) http_server =
  srv_ipv4 :: 'l
  srv_ipv6 :: "'l option"
  srv_tls :: "'t option"
  srv_routes :: "route list"
  srv_static :: string
  srv_token :: "string option"
  srv_secured_docs :: bool

datatype 'i start_error = StartIo 'i | StartExit exit

text \<open>\<open>bind\<close> is \<open>TcpListener::bind\<close> for an address and a port.\<close>

definition new_server ::
  "(string \<Rightarrow> 16 word \<Rightarrow> 'w \<Rightarrow> ('l, 'i) result \<times> 'w) \<Rightarrow> ('w, 'f, 'x, 'cert, 'c, 'k, 't) tls_env
     \<Rightarrow> server_config \<Rightarrow> route list \<Rightarrow> 'w \<Rightarrow> (('l, 't) http_server, 'i start_error) result \<times> 'w" where
  "new_server bind E cfg api w =
     try_st (map_err_st StartIo (bind (ipv4 cfg) (port cfg) w)) (\<lambda>v4 w.
     try_st (case ipv6 cfg of
               Some a \<Rightarrow> try_st (map_err_st StartIo (bind a (port cfg) w)) (\<lambda>l w. (Ok (Some l), w))
             | None \<Rightarrow> (Ok None, w)) (\<lambda>v6 w.
     try_st (case tls cfg of
               Some t \<Rightarrow> try_st (map_err_st StartExit (prepare_tls E t w)) (\<lambda>acc w. (Ok (Some acc), w))
             | None \<Rightarrow> (Ok None, w)) (\<lambda>acceptor w.
       (Ok \<lparr>srv_ipv4 = v4, srv_ipv6 = v6, srv_tls = acceptor, srv_routes = api, srv_static = static_dir cfg,
            srv_token = token cfg, srv_secured_docs = (token cfg \<noteq> None)\<rparr>, w))))"

text \<open>
  \<open>build_server\<close>: an error of either server is a panic, and the exit of \<open>prepare_tls\<close> ends the process.
  The two futures of \<open>try_join!\<close> run one after the other.
\<close>

definition build_server ::
  "(string \<Rightarrow> 16 word \<Rightarrow> 'w \<Rightarrow> ('l, 'i) result \<times> 'w) \<Rightarrow> ('w, 'f, 'x, 'cert, 'c, 'k, 't) tls_env
     \<Rightarrow> ('a, 'u) config \<Rightarrow> 'w \<Rightarrow> (('l, 't) http_server \<times> ('l, 't) http_server, exit) result \<times> 'w" where
  "build_server bind E c w =
     (case try_st (new_server bind E (external_api c) external w) (\<lambda>ext w.
         try_st (new_server bind E (internal_api c) internal w) (\<lambda>int w. (Ok (ext, int), w))) of
        (Ok p, w') \<Rightarrow> (Ok p, w')
      | (Err (StartExit x), w') \<Rightarrow> (Err x, w')
      | (_, w') \<Rightarrow> (Panic, w'))"

text \<open>One request to a running server.\<close>

definition unauthorized :: "nat \<Rightarrow> reply" where
  "unauthorized st = \<lparr>status_code = st, no_store = False, body = NoBody\<rparr>"

definition serve_request ::
  "axum_env \<Rightarrow> ('d, 'j) api_env \<Rightarrow> ('s, 'e) storage \<Rightarrow> ('w, 'r) monerod \<Rightarrow> (sub_index \<Rightarrow> string) \<Rightarrow> (nat \<Rightarrow> 'g \<Rightarrow> nat \<times> 'g)
     \<Rightarrow> sender_id \<Rightarrow> nat \<Rightarrow> ('l, 't) http_server \<Rightarrow> request \<Rightarrow> ('s, 'g, 'w) gateway \<Rightarrow> (response \<times> ('s, 'g, 'w) gateway) option" where
  "serve_request X A S D addr gen_range sid c srv rq g =
     (case ax_docs X (srv_secured_docs srv) rq of
        Some page \<Rightarrow> Some (Reply page, g)
      | None \<Rightarrow>
          (case bearer_validate (srv_token srv) (rq_authorization rq) of
             Err st \<Rightarrow> Some (Reply (unauthorized st), g)
           | Panic \<Rightarrow> Some (NoReply, g)
           | Ok _ \<Rightarrow>
               (case ax_route X (srv_routes srv) rq of
                  Some h \<Rightarrow> run_handler X A S D addr gen_range sid c h rq g
                | None \<Rightarrow> Some (Reply (ax_static X (srv_static srv) rq), g))))"

section \<open>Sequences of requests\<close>

fun serve_all ::
  "axum_env \<Rightarrow> ('d, 'j) api_env \<Rightarrow> ('s, 'e) storage \<Rightarrow> ('w, 'r) monerod \<Rightarrow> (sub_index \<Rightarrow> string) \<Rightarrow> (nat \<Rightarrow> 'g \<Rightarrow> nat \<times> 'g)
     \<Rightarrow> ('l, 't) http_server \<Rightarrow> (request \<times> sender_id \<times> nat) list \<Rightarrow> ('s, 'g, 'w) gateway
     \<Rightarrow> (response list \<times> ('s, 'g, 'w) gateway) option" where
  "serve_all X A S D addr gen_range srv [] g = Some ([], g)"
| "serve_all X A S D addr gen_range srv ((rq, sid, c) # rqs) g =
     (case serve_request X A S D addr gen_range sid c srv rq g of
        None \<Rightarrow> None
      | Some (r, g1) \<Rightarrow> map_option (\<lambda>(rs, g2). (r # rs, g2)) (serve_all X A S D addr gen_range srv rqs g1))"

text \<open>
  One accepted connection: with TLS the handshake comes first, and a connection that fails it is closed.
  \<open>handshake\<close> and \<open>plain\<close> give the requests hyper reads from the stream, in order.
\<close>

definition serve_connection ::
  "axum_env \<Rightarrow> ('d, 'j) api_env \<Rightarrow> ('s, 'e) storage \<Rightarrow> ('w, 'r) monerod \<Rightarrow> (sub_index \<Rightarrow> string) \<Rightarrow> (nat \<Rightarrow> 'g \<Rightarrow> nat \<times> 'g)
     \<Rightarrow> ('t \<Rightarrow> 'cnx \<Rightarrow> ((request \<times> sender_id \<times> nat) list, 'h) result) \<Rightarrow> ('cnx \<Rightarrow> (request \<times> sender_id \<times> nat) list)
     \<Rightarrow> ('l, 't) http_server \<Rightarrow> 'cnx \<Rightarrow> ('s, 'g, 'w) gateway \<Rightarrow> (response list \<times> ('s, 'g, 'w) gateway) option" where
  "serve_connection X A S D addr gen_range handshake plain srv cnx g =
     (case srv_tls srv of
        Some t \<Rightarrow>
          (case handshake t cnx of
             Ok rqs \<Rightarrow> serve_all X A S D addr gen_range srv rqs g
           | _ \<Rightarrow> Some ([], g))
      | None \<Rightarrow> serve_all X A S D addr gen_range srv (plain cnx) g)"

lemma build_server_Ok:
  assumes "build_server bind E c w = (Ok (ext, inn), w')"
  shows "srv_routes ext = external \<and> srv_routes inn = internal
    \<and> srv_token ext = token (external_api c) \<and> srv_token inn = token (internal_api c)
    \<and> srv_secured_docs inn = (token (internal_api c) \<noteq> None)
    \<and> (srv_tls ext = None \<longleftrightarrow> tls (external_api c) = None) \<and> (srv_tls inn = None \<longleftrightarrow> tls (internal_api c) = None)"
proof -
  obtain w1 where "new_server bind E (external_api c) external w = (Ok ext, w1)" "new_server bind E (internal_api c) internal w1 = (Ok inn, w')"
    using assms by (auto simp: build_server_def try_st_eq_Ok split: prod.splits result.splits start_error.splits)
  moreover have "srv_routes srv = api \<and> srv_token srv = token cfg \<and> srv_secured_docs srv = (token cfg \<noteq> None)
      \<and> (srv_tls srv = None \<longleftrightarrow> tls cfg = None)" if "new_server bind E cfg api w = (Ok srv, w')" for cfg api srv w w'
    using that by (auto simp: new_server_def try_st_eq_Ok map_ok_eq_Ok split: option.splits prod.splits)
  ultimately show ?thesis by metis
qed

definition authorized :: "string \<Rightarrow> request \<Rightarrow> bool" where
  "authorized t rq \<longleftrightarrow> (\<exists>hs. rq_authorization rq = (''Bearer '' @ t) # hs)"

lemma refused:
  assumes "srv_token srv = Some t" and "\<not> authorized t rq"
  shows "\<exists>r. serve_request X A S D addr gen_range sid c srv rq g = Some (r, g)
    \<and> ((\<exists>page. ax_docs X (srv_secured_docs srv) rq = Some page \<and> r = Reply page) \<or> r = Reply (unauthorized 401))"
proof -
  have "bearer_validate (srv_token srv) (rq_authorization rq) = Err 401"
    using assms by (auto simp: bearer_validate_def authorized_def split: list.splits)
  then show ?thesis by (cases "ax_docs X (srv_secured_docs srv) rq") (simp_all add: serve_request_def)
qed

lemma all_refused:
  assumes "srv_token srv = Some t" and "\<forall>(rq, x) \<in> set rqs. \<not> authorized t rq"
  shows "\<exists>rs. serve_all X A S D addr gen_range srv rqs g = Some (rs, g) \<and> length rs = length rqs
    \<and> (\<forall>i < length rqs. (\<exists>page. ax_docs X (srv_secured_docs srv) (fst (rqs ! i)) = Some page \<and> rs ! i = Reply page)
         \<or> rs ! i = Reply (unauthorized 401))"
  using assms(2)
proof (induction rqs)
  case (Cons q rqs)
  obtain rq sid c where q: "q = (rq, sid, c)" by (metis prod_cases3)
  with Cons.prems have "\<not> authorized t rq" by simp
  from refused [OF assms(1) this, of X A S D addr gen_range sid c g] obtain r where
      r: "serve_request X A S D addr gen_range sid c srv rq g = Some (r, g)"
        "(\<exists>page. ax_docs X (srv_secured_docs srv) rq = Some page \<and> r = Reply page) \<or> r = Reply (unauthorized 401)"
    by blast
  from Cons obtain rs where "serve_all X A S D addr gen_range srv rqs g = Some (rs, g)" "length rs = length rqs"
      "\<forall>i < length rqs. (\<exists>page. ax_docs X (srv_secured_docs srv) (fst (rqs ! i)) = Some page \<and> rs ! i = Reply page)
         \<or> rs ! i = Reply (unauthorized 401)"
    by auto
  with r q show ?case by (auto simp: nth_Cons split: nat.splits)
qed simp

section \<open>What handlers may do\<close>

text \<open>The reads keep pool and store, up to the end of the store's manager by a panic.\<close>

definition only_read :: "('s, 'g, 'w) gateway \<Rightarrow> ('s, 'g, 'w) gateway \<Rightarrow> bool" where
  "only_read g g' \<longleftrightarrow> (gw_store g' = gw_store g \<or> gw_store g' = None) \<and> gw_subaddresses g' = gw_subaddresses g"

lemma only_read_refl [simp]: "only_read g g"
  by (simp add: only_read_def)

lemma only_read_trans: "only_read g g' \<Longrightarrow> only_read g' g'' \<Longrightarrow> only_read g g''"
  by (auto simp: only_read_def)

lemma reading_store: "direct (reading f) m = (r, m') \<Longrightarrow> m' = m \<or> m' = None"
  by (cases m) (auto simp: direct_def reading_def split: result.splits)

lemma gw_get_only_read:
  "gw_get_invoice S i g = (r, g') \<Longrightarrow> only_read g g'"
  "gw_get_invoice_ids S g = (r', g') \<Longrightarrow> only_read g g'"
  by (auto simp: gw_get_invoice_def gw_get_invoice_ids_def only_read_def dest: reading_store split: prod.splits)

lemma gw_subscribe_only_read: "gw_subscribe i sid c g = (r, g') \<Longrightarrow> only_read g g'"
  by (auto simp: gw_subscribe_def only_read_def split: prod.splits)

definition reads :: "handler \<Rightarrow> bool" where
  "reads h \<longleftrightarrow> h \<notin> {NewInvoice, DeleteInvoice}"

lemma only_read_try: "(\<And>a. only_read g (snd (k a g'))) \<Longrightarrow> only_read g g' \<Longrightarrow> only_read g (snd (try_st (r, g') k))"
  by (cases r) simp_all

lemma api_only_readD:
  fixes S :: "('s, 'e) storage" and A :: "('d, 'j) api_env"
  shows "api_get_invoice_status A S t g = (r :: (_, (('e, 'r, 'm) accept_xmr_error, 'd, 'j) api_error) result, g') \<Longrightarrow> only_read g g'"
    and "api_pay A S t g = (r, g') \<Longrightarrow> only_read g g'"
    and "api_invoice_ids A S g = (r, g') \<Longrightarrow> only_read g g'"
    and "api_websocket A t sid c g = (r4 :: (_, (('e, 'r, 'm) accept_xmr_error, 'd, 'j) api_error) result, g') \<Longrightarrow> only_read g g'"
proof -
  have get: "only_read g (snd (gw_get_invoice S i g :: (_, ('e, 'r, 'm) accept_xmr_error) result \<times> _))" for i
    by (rule gw_get_only_read(1)) (rule prod.collapse [symmetric])
  have ids: "only_read g (snd (gw_get_invoice_ids S g :: (_, ('e, 'r, 'm) accept_xmr_error) result \<times> _))"
    by (rule gw_get_only_read(2)) (rule prod.collapse [symmetric])
  have sub: "only_read g (snd (gw_subscribe i sid c g))" for i
    by (rule gw_subscribe_only_read) (rule prod.collapse [symmetric])
  have "only_read g (snd (api_get_invoice_status A S t g :: (_, (('e, 'r, 'm) accept_xmr_error, 'd, 'j) api_error) result \<times> _))"
    unfolding api_get_invoice_status_def by (auto intro!: only_read_try get simp: split_beta split: option.split)
  then show "api_get_invoice_status A S t g = (r, g') \<Longrightarrow> only_read g g'" by (metis snd_conv)
  have "only_read g (snd (api_pay A S t g :: (_, (('e, 'r, 'm) accept_xmr_error, 'd, 'j) api_error) result \<times> _))"
    unfolding api_pay_def by (auto intro!: only_read_try get simp: Let_def split_beta split: option.split result.split)
  then show "api_pay A S t g = (r, g') \<Longrightarrow> only_read g g'" by (metis snd_conv)
  have "only_read g (snd (api_invoice_ids A S g :: (_, (('e, 'r, 'm) accept_xmr_error, 'd, 'j) api_error) result \<times> _))"
    unfolding api_invoice_ids_def by (auto intro!: only_read_try ids simp: split_beta)
  then show "api_invoice_ids A S g = (r, g') \<Longrightarrow> only_read g g'" by (metis snd_conv)
  have "only_read g (snd (api_websocket A t sid c g :: (_, (('e, 'r, 'm) accept_xmr_error, 'd, 'j) api_error) result \<times> _))"
    unfolding api_websocket_def by (auto intro!: only_read_try sub simp: split_beta)
  then show "api_websocket A t sid c g = (r4, g') \<Longrightarrow> only_read g g'" by (metis snd_conv)
qed

lemma handler_only_reads:
  assumes "reads h" and "run_handler X A S D addr gen_range sid c h rq g = Some (r, g')"
  shows "only_read g g'"
  using assms
  by (cases h; cases "rq_id rq") (auto simp: reads_def with_id_def intro: api_only_readD split: prod.splits)

lemma serve_only_reads:
  assumes "\<And>rs rq h. ax_route X rs rq = Some h \<Longrightarrow> \<exists>p v. (p, v, h) \<in> set rs" and "\<forall>(p, v, h) \<in> set (srv_routes srv). reads h"
    and "serve_all X A S D addr gen_range srv rqs g = Some (rs, g')"
  shows "only_read g g'"
  using assms(3)
proof (induction rqs arbitrary: g rs)
  case (Cons q rqs)
  obtain rq sid c where q: "q = (rq, sid, c)" by (metis prod_cases3)
  with Cons.prems obtain r g1 rs' where r: "serve_request X A S D addr gen_range sid c srv rq g = Some (r, g1)"
      "serve_all X A S D addr gen_range srv rqs g1 = Some (rs', g')"
    by (auto split: option.splits prod.splits)
  have "reads h" if "ax_route X (srv_routes srv) rq = Some h" for h using assms(1) [OF that] assms(2) by blast
  then have "only_read g g1"
    using r(1) handler_only_reads by (auto simp: serve_request_def split: option.splits result.splits)
  with Cons.IH [OF r(2)] only_read_trans show ?case by blast
qed simp

section \<open>The form of replies\<close>

text \<open>The reply of a handler that returns \<open>Ok\<close>.\<close>

fun reply_shape :: "handler \<Rightarrow> reply \<Rightarrow> bool" where
  "reply_shape NewInvoice r \<longleftrightarrow> status_code r = 200 \<and> no_store r \<and> (case body r of IdBody _ \<Rightarrow> True | _ \<Rightarrow> False)"
| "reply_shape DeleteInvoice r \<longleftrightarrow> status_code r \<in> {200, 404} \<and> no_store r \<and> body r = NoBody"
| "reply_shape InvoiceIds r \<longleftrightarrow> status_code r = 200 \<and> no_store r \<and> (case body r of IdsBody _ \<Rightarrow> True | _ \<Rightarrow> False)"
| "reply_shape GetInvoiceStatus r \<longleftrightarrow> status_code r = 200 \<and> no_store r \<and> (case body r of UpdateBody _ \<Rightarrow> True | _ \<Rightarrow> False)"
| "reply_shape Websocket r \<longleftrightarrow> status_code r = 404 \<and> \<not> no_store r \<and> body r = NoBody"
| "reply_shape Pay r \<longleftrightarrow> status_code r \<in> {200, 404, 500} \<and> no_store r \<and> (case body r of Page _ \<Rightarrow> True | _ \<Rightarrow> False)"

definition error_shape :: "reply \<Rightarrow> bool" where
  "error_shape r \<longleftrightarrow> status_code r \<in> {400, 404, 500} \<and> \<not> no_store r \<and> (case body r of Message _ \<Rightarrow> True | _ \<Rightarrow> False)"

lemma error_reply_shape: "error_shape (error_reply e)"
  by (cases e) (simp_all add: error_shape_def error_reply_def)

text \<open>\<open>Ok\<close> has the right form, and an error for a bad request has changed nothing.\<close>

definition outcome_ok :: "handler \<Rightarrow> 'a \<Rightarrow> (reply, ('x, 'd, 'j) api_error) result \<times> 'a \<Rightarrow> bool" where
  "outcome_ok h g p \<longleftrightarrow> (case fst p of Ok r \<Rightarrow> reply_shape h r | Err e \<Rightarrow> api_status e = 400 \<longrightarrow> snd p = g | Panic \<Rightarrow> True)"

lemma outcome_ok_simps [simp]:
  "outcome_ok h g (Ok r, g') \<longleftrightarrow> reply_shape h r"
  "outcome_ok h g (Err e, g') \<longleftrightarrow> (api_status e = 400 \<longrightarrow> g' = g)"
  "outcome_ok h g (Panic, g')"
  by (simp_all add: outcome_ok_def)

lemma outcome_try: "(\<And>a. r = Ok a \<Longrightarrow> outcome_ok h g (k a g')) \<Longrightarrow> (\<And>e. r = Err e \<Longrightarrow> api_status e = 400 \<Longrightarrow> g' = g)
    \<Longrightarrow> outcome_ok h g (try_st (r, g') k)"
  by (cases r) simp_all

lemma api_outcomes:
  "outcome_ok DeleteInvoice g (api_delete_invoice A S t g)" "outcome_ok InvoiceIds g (api_invoice_ids A S g)"
  "outcome_ok GetInvoiceStatus g (api_get_invoice_status A S t g)"
  unfolding api_delete_invoice_def api_invoice_ids_def api_get_invoice_status_def
  by (auto intro!: outcome_try simp: split_beta Let_def map_err_eq_Err split: option.split)

lemma page_outcome: "st \<in> {200, 404, 500} \<Longrightarrow> outcome_ok Pay g
    (map_ok (\<lambda>html. \<lparr>status_code = st, no_store = True, body = Page html\<rparr>) (map_err TemplatingError r), g')"
  by (cases r) auto

lemma api_pay_outcome: "outcome_ok Pay g (api_pay A S t g)"
  unfolding api_pay_def
  by (auto intro!: outcome_try page_outcome simp: split_beta Let_def map_err_eq_Err split: option.split result.split)

lemma api_new_invoice_outcome:
  assumes "api_new_invoice A S D addr gen_range p g = Some (r :: (_, (('e, 'r, 'm) accept_xmr_error, 'd, 'j) api_error) result, g')"
  shows "outcome_ok NewInvoice g (r, g')"
proof -
  define d :: "(_, (('e, 'r, 'm) accept_xmr_error, 'd, 'j) api_error) result" where
    "d = and_then (case params_callback p of Some u \<Rightarrow> map_err InvalidCallback (map_ok (\<lambda>_. ()) (ae_uri A u)) | None \<Rightarrow> Ok ())
      (\<lambda>_. map_err DescriptionSerialization (ae_to_string A \<lparr>order = params_order p, callback_uri = params_callback p\<rparr>))"
  show ?thesis
  proof (cases d)
    case (Ok t)
    with assms obtain ri :: "(_, ('e, 'r, 'm) accept_xmr_error) result" where
        "r = map_ok (\<lambda>i. \<lparr>status_code = 200, no_store = True, body = IdBody (base64_invoice_id (ae_encode A) i)\<rparr>) (map_err AcceptXmr ri)"
      by (auto simp: api_new_invoice_def Let_def d_def)
    then show ?thesis by (cases ri) simp_all
  qed (use assms in \<open>auto simp: api_new_invoice_def Let_def d_def\<close>)
qed

definition response_ok :: "axum_env \<Rightarrow> handler \<Rightarrow> request \<Rightarrow> 'a \<Rightarrow> response \<times> 'a \<Rightarrow> bool" where
  "response_ok X h rq g p \<longleftrightarrow> (case fst p of
     Reply r \<Rightarrow> (r = ax_reject X h rq \<and> snd p = g) \<or> reply_shape h r \<or> (error_shape r \<and> (status_code r = 400 \<longrightarrow> snd p = g))
   | _ \<Rightarrow> True)"

lemma respond_ok: "outcome_ok h g (r, g') \<Longrightarrow> response_ok X h rq g (respond r, g')"
  using error_reply_shape by (cases r) (auto simp: response_ok_def error_reply_def)

lemma with_id_ok: "(\<And>t. response_ok X h rq g (f t)) \<Longrightarrow> with_id X h rq f g = Some p \<Longrightarrow> response_ok X h rq g p"
  by (auto simp: with_id_def response_ok_def split: option.splits)

lemma websocket_ok: "response_ok X Websocket rq g (respond_ws (fst (api_websocket A t sid c g)), snd (api_websocket A t sid c g))"
  by (cases "invoice_id_from_str (ae_decode A) t")
    (auto simp: api_websocket_def response_ok_def error_reply_def error_shape_def split_beta split: option.split)

lemma handler_outcome:
  assumes "run_handler X A S D addr gen_range sid c h rq g = Some p"
  shows "response_ok X h rq g p"
proof (cases h)
  case NewInvoice
  with assms show ?thesis
    by (auto simp: response_ok_def [where p = "(Reply _, _)"] intro!: respond_ok api_new_invoice_outcome split: option.splits)
next
  case InvoiceIds
  with assms api_outcomes(2) show ?thesis by (auto simp: split_beta intro!: respond_ok)
qed (use assms api_outcomes(1,3) api_pay_outcome websocket_ok in \<open>auto simp: split_beta intro!: respond_ok elim!: with_id_ok [rotated]\<close>)

section \<open>Properties\<close>

text \<open>
  C9. The token guards the internal API.  With a token in a configuration that was loaded, the internal
  server serves a connection only after a TLS handshake, and a connection none of whose requests carries
  the token as bearer leaves the gateway exactly as it was; each request is answered by 401, or by the
  documentation, which is public.
\<close>

theorem token_guards_internal_api:
  fixes from_file_result :: "(('a, 'u) config, ('i, 'y) config_error) result"
  assumes "load_config parse_key env from_file_result = Ok c" and "build_server bind E c w = (Ok (esrv, isrv), w')"
    and "token (internal_api c) = Some t"
    and "\<forall>acceptor rqs. handshake acceptor cnx = Ok rqs \<longrightarrow> (\<forall>(rq, x) \<in> set rqs. \<not> authorized t rq)"
  shows "\<exists>acceptor rs. srv_tls isrv = Some acceptor
    \<and> serve_connection X A S D addr gen_range handshake plain isrv cnx g = Some (rs, g)
    \<and> (case handshake acceptor cnx of
         Ok rqs \<Rightarrow> length rs = length rqs
           \<and> (\<forall>i < length rqs. (\<exists>page. ax_docs X True (fst (rqs ! i)) = Some page \<and> rs ! i = Reply page)
                \<or> rs ! i = Reply (unauthorized 401))
       | _ \<Rightarrow> rs = [])"
proof -
  have "config_ok parse_key c" using assms(1) by (rule load_config_Ok)
  with assms(3) have "tls (internal_api c) \<noteq> None" by (auto simp: config_ok_def)
  with build_server_Ok [OF assms(2)] assms(3)
  obtain acc where acc: "srv_tls isrv = Some acc" and tok: "srv_token isrv = Some t" and docs: "srv_secured_docs isrv" by auto
  show ?thesis
  proof (cases "handshake acc cnx")
    case (Ok rqs)
    with assms(4) have "\<forall>(rq, x) \<in> set rqs. \<not> authorized t rq" by blast
    from all_refused [OF tok this, of X A S D addr gen_range g] acc docs Ok show ?thesis by (simp add: serve_connection_def)
  qed (use acc in \<open>simp_all add: serve_connection_def\<close>)
qed

definition ex_axum :: axum_env where
  "ex_axum = \<lparr>ax_route = (\<lambda>rs rq. map_option (snd \<circ> snd) (find (\<lambda>r. fst r = rq_path rq \<and> fst (snd r) = rq_verb rq) rs)),
     ax_reject = (\<lambda>_ _. \<lparr>status_code = 422, no_store = False, body = NoBody\<rparr>),
     ax_static = (\<lambda>_ _. \<lparr>status_code = 404, no_store = False, body = NoBody\<rparr>), ax_docs = (\<lambda>_ _. None)\<rparr>"

lemma ex_axum_routes: "ax_route ex_axum rs rq = Some h \<Longrightarrow> \<exists>p v. (p, v, h) \<in> set rs"
  by (auto simp: ex_axum_def find_Some_iff) (metis nth_mem prod.collapse)

definition ex_bind :: "string \<Rightarrow> 16 word \<Rightarrow> ex_disk \<Rightarrow> (string \<times> 16 word, unit) result \<times> ex_disk" where
  "ex_bind a p w = (Ok (a, p), w)"

definition ex_guarded :: "(string, string) config" where
  "ex_guarded = ex_loaded\<lparr>internal_api := (internal_api ex_loaded)\<lparr>token := Some ''secret''\<rparr>\<rparr>"

definition ex_env2 :: env where
  "ex_env2 name = (if name = ''INTERNAL_API_TOKEN'' then Ok ''secret'' else ex_env name)"

lemma ex_guarded_load: "load_config (Ok :: _ \<Rightarrow> (string, string) result) ex_env2 (Ok ex_config :: (_, (unit, unit) config_error) result) = Ok ex_guarded"
  by (simp add: load_config_def config_env_overrides_def wallet_env_overrides_def daemon_env_overrides_def with_var_def ex_env_def ex_env2_def
      config_validate_def wallet_validate_def daemon_validate_def server_validate_def check_def ex_config_def ex_loaded_def ex_guarded_def
      config_default_def server_config_default_def daemon_config_default_def Let_def)

definition ex_servers where
  "ex_servers = build_server ex_bind ex_tls ex_guarded (Map.empty, 0)"

lemma ex_servers_Ok: "\<exists>esrv isrv. ex_servers = (Ok (esrv, isrv), snd ex_servers) \<and> srv_routes esrv = external"
  by (simp add: ex_servers_def build_server_def new_server_def ex_bind_def ex_guarded_def ex_loaded_def ex_config_def config_default_def
      server_config_default_def prepare_tls_def generate_tls_def load_tls_def create_parent_def expecting_st_def ex_tls_def Let_def)

definition ex_handshake :: "'t \<Rightarrow> 'cnx \<Rightarrow> ('cnx, unit) result" where
  "ex_handshake acceptor cnx = Ok cnx"

definition ex_request :: "verb \<Rightarrow> string \<Rightarrow> request" where
  "ex_request v p = \<lparr>rq_verb = v, rq_path = p, rq_authorization = [''Bearer guess''], rq_id = None, rq_json = None\<rparr>"

theorem token_guards_internal_api_witness:
  "\<exists>esrv isrv w'. ex_servers = (Ok (esrv, isrv), w')
     \<and> serve_connection ex_axum ex_api in_memory (ex_node 6 6) (\<lambda>_. ''x'') (\<lambda>n r. (n - 1, r)) ex_handshake id isrv
         [(ex_request Get ''/invoice/ids'', 0, 0)] (ex_gateway 9) = Some ([Reply (unauthorized 401)], ex_gateway 9)"
proof -
  let ?cnx = "[(ex_request Get ''/invoice/ids'', 0 :: sender_id, 0 :: nat)]"
  obtain esrv isrv where b: "build_server ex_bind ex_tls ex_guarded (Map.empty, 0) = (Ok (esrv, isrv), snd ex_servers)"
    using ex_servers_Ok unfolding ex_servers_def by blast
  have t: "token (internal_api ex_guarded) = Some ''secret''" by (simp add: ex_guarded_def)
  have h: "\<forall>acceptor rqs. ex_handshake acceptor ?cnx = Ok rqs \<longrightarrow> (\<forall>(rq, x) \<in> set rqs. \<not> authorized ''secret'' rq)"
    by (simp add: authorized_def ex_request_def ex_handshake_def)
  from token_guards_internal_api [OF ex_guarded_load b t, of ex_handshake ?cnx ex_axum ex_api in_memory "ex_node 6 6" "\<lambda>_. ''x''"
      "\<lambda>n r. (n - 1, r)" id "ex_gateway 9", OF h]
  have "serve_connection ex_axum ex_api in_memory (ex_node 6 6) (\<lambda>_. ''x'') (\<lambda>n r. (n - 1, r)) ex_handshake id isrv
      ?cnx (ex_gateway 9) = Some ([Reply (unauthorized 401)], ex_gateway 9)"
    by (auto simp: ex_axum_def ex_handshake_def length_Suc_conv)
  with b show ?thesis unfolding ex_servers_def by blast
qed

text \<open>
  C10. The external API cannot change invoices: any number of requests to the external server leaves the
  store and the pool of subaddresses as they were, unless a panicking store ends its manager.  Routing
  is assumed to choose only handlers that are registered.
\<close>

theorem external_api_only_reads:
  assumes "\<And>rs rq h. ax_route X rs rq = Some h \<Longrightarrow> \<exists>p v. (p, v, h) \<in> set rs"
    and "build_server bind E c w = (Ok (esrv, isrv), w')" and "serve_all X A S D addr gen_range esrv rqs g = Some (rs, g')"
  shows "(gw_store g' = gw_store g \<or> gw_store g' = None) \<and> gw_subaddresses g' = gw_subaddresses g"
proof -
  have "\<forall>(p, v, h) \<in> set (srv_routes esrv). reads h"
    using build_server_Ok [OF assms(2)] by (simp add: external_def reads_def)
  from serve_only_reads [OF assms(1) this assms(3)] show ?thesis by (simp add: only_read_def)
qed

theorem external_api_only_reads_witness:
  "\<exists>esrv isrv w' g'. ex_servers = (Ok (esrv, isrv), w') \<and> serve_all ex_axum ex_api in_memory (ex_node 6 6) (\<lambda>_. ''x'') (\<lambda>n r. (n - 1, r)) esrv
     [(ex_request Get ''/pay'', 0, 0)] (ex_gateway 9) = Some ([Reply \<lparr>status_code = 422, no_store = False, body = NoBody\<rparr>], g')
     \<and> gw_subaddresses g' = gw_subaddresses (ex_gateway 9)"
proof -
  obtain esrv isrv where b: "build_server ex_bind ex_tls ex_guarded (Map.empty, 0) = (Ok (esrv, isrv), snd ex_servers)" "srv_routes esrv = external"
    using ex_servers_Ok unfolding ex_servers_def by blast
  have "srv_token esrv = None" using build_server_Ok [OF b(1)]
    by (simp add: ex_guarded_def ex_loaded_def ex_config_def config_default_def server_config_default_def)
  then obtain g' where run: "serve_all ex_axum ex_api in_memory (ex_node 6 6) (\<lambda>_. ''x'') (\<lambda>n r. (n - 1, r)) esrv [(ex_request Get ''/pay'', 0, 0)] (ex_gateway 9)
      = Some ([Reply \<lparr>status_code = 422, no_store = False, body = NoBody\<rparr>], g')"
    by (simp add: serve_request_def ex_axum_def bearer_validate_def b(2) external_def ex_request_def with_id_def)
  have "(gw_store g' = gw_store (ex_gateway 9) \<or> gw_store g' = None) \<and> gw_subaddresses g' = gw_subaddresses (ex_gateway 9)"
    by (rule external_api_only_reads [OF _ b(1) run]) (rule ex_axum_routes)
  with run b(1) show ?thesis unfolding ex_servers_def by blast
qed

text \<open>
  C35. The type of replies.  Whatever the store does, a handler's reply is that of a failed extractor, or
  has the status and body of its route, or is an error with status 400, 404 or 500 and a message.
\<close>

theorem replies_are_well_formed:
  assumes "run_handler X A S D addr gen_range sid c h rq g = Some (Reply r, g')"
  shows "r = ax_reject X h rq \<or> reply_shape h r \<or> error_shape r"
  using handler_outcome [OF assms] by (auto simp: response_ok_def)

theorem replies_are_well_formed_witness:
  "\<exists>r. fst (the (run_handler ex_axum ex_api in_memory (ex_node 6 6) (\<lambda>_. ''x'') (\<lambda>n r. (n - 1, r)) 0 0 InvoiceIds (ex_request Get ''/invoice/ids'') (ex_gateway 9)))
     = Reply r \<and> (r = ax_reject ex_axum InvoiceIds (ex_request Get ''/invoice/ids'') \<or> reply_shape InvoiceIds r \<or> error_shape r)"
proof -
  let ?run = "run_handler ex_axum ex_api in_memory (ex_node 6 6) (\<lambda>_. ''x'') (\<lambda>n r. (n - 1, r)) 0 0 InvoiceIds (ex_request Get ''/invoice/ids'') (ex_gateway 9)"
  obtain r g' where "?run = Some (Reply r, g')"
    by (simp add: api_invoice_ids_def gw_get_invoice_ids_def ex_gateway_def direct_def reading_def im_get_ids_def)
  from this replies_are_well_formed [OF this] show ?thesis by simp
qed

text \<open>
  Bad requests change nothing: a handler that replies with status 400 (an invoice ID that is no ID,
  a callback that is no URI, a description that cannot be written) leaves the gateway as it was.
\<close>

theorem bad_requests_change_nothing:
  assumes "run_handler X A S D addr gen_range sid c h rq g = Some (Reply r, g')" and "status_code r = 400"
  shows "g' = g"
  using handler_outcome [OF assms(1)] assms(2) by (cases h) (auto simp: response_ok_def)

theorem bad_requests_change_nothing_witness:
  "run_handler ex_axum ex_api in_memory (ex_node 6 6) (\<lambda>_. ''x'') (\<lambda>n r. (n - 1, r)) 0 0 DeleteInvoice
     ((ex_request Delete ''/invoice'')\<lparr>rq_id := Some ''short''\<rparr>) (ex_gateway 9)
   = Some (Reply \<lparr>status_code = 400, no_store = False, body = Message ''Invalid invoice ID''\<rparr>, ex_gateway 9)"
proof -
  let ?rq = "(ex_request Delete ''/invoice'')\<lparr>rq_id := Some ''short''\<rparr>"
  let ?run = "run_handler ex_axum ex_api in_memory (ex_node 6 6) (\<lambda>_. ''x'') (\<lambda>n r. (n - 1, r)) 0 0 DeleteInvoice ?rq (ex_gateway 9)"
  have "case invoice_id_from_str url_safe_decode ''short'' of Err _ \<Rightarrow> True | _ \<Rightarrow> False" by code_simp
  then obtain g' where run: "?run = Some (Reply \<lparr>status_code = 400, no_store = False, body = Message ''Invalid invoice ID''\<rparr>, g')"
    by (cases "invoice_id_from_str url_safe_decode ''short''")
      (auto simp: with_id_def ex_request_def api_delete_invoice_def ex_api_def error_reply_def)
  with bad_requests_change_nothing [OF run] show ?thesis by simp
qed

end
