(* ===== verification/Backpressure.thy ===== *)
theory Backpressure
  imports Scanner_Correct
begin

text \<open>
  Waiting in \<open>library/src/pubsub.rs\<close>: the channels hold \<open>SUBSCRIPTION_BUFFER_LEN\<close> updates and
  \<open>Sender::send\<close> waits while its channel is full.  \<open>send_updates\<close> of \<open>Pubsub\<close> is the loop with every
  send completed; here it is cut at its sends, and \<open>sending_step\<close> interleaves the turns of the loop with
  what receivers do.  Then the receiving side, and what a new scanner does to the subscribers.
\<close>

section \<open>Sending, turn by turn\<close>

definition SUBSCRIPTION_BUFFER_LEN :: nat where
  "SUBSCRIPTION_BUFFER_LEN = 2048"

text \<open>
  The variables of \<open>send_updates\<close>.  \<open>sd_target\<close> is the invoice in the first loop and \<open>None\<close> in the
  second; \<open>sd_done\<close> holds after the second loop.
\<close>

record sending =
  sd_target :: "invoice_id option"
  sd_index :: nat
  sd_closed :: bool
  sd_pub :: publisher
  sd_chans :: channels
  sd_done :: bool

definition send_start :: "invoice \<Rightarrow> publisher \<Rightarrow> channels \<Rightarrow> sending" where
  "send_start v pub chans =
     \<lparr>sd_target = Some (invoice_ident v), sd_index = 0, sd_closed = False, sd_pub = pub, sd_chans = chans, sd_done = False\<rparr>"

text \<open>One turn of the current loop, or leaving it; \<open>None\<close> while the send waits for room.\<close>

definition send_turn :: "invoice \<Rightarrow> sending \<Rightarrow> sending option" where
  "send_turn v s =
     (case get_sender_by_index (sd_target s) (sd_index s) (sd_pub s) of
        None \<Rightarrow>
          (case sd_target s of
             Some _ \<Rightarrow> Some (s\<lparr>sd_target := None, sd_index := 0, sd_closed := False\<rparr>)
           | None \<Rightarrow> Some (s\<lparr>sd_done := True\<rparr>))
      | Some (sid, c) \<Rightarrow>
          (if \<not> closed (sd_chans s c) \<and> SUBSCRIPTION_BUFFER_LEN \<le> length (queue (sd_chans s c)) then None
           else
             (let (ok, chans') = chan_send c v (sd_chans s);
                  is_closed = (sd_closed s \<or> \<not> ok)
              in Some (if is_closed
                       then s\<lparr>sd_closed := True, sd_chans := chans', sd_pub := remove_sender (sd_target s) sid (sd_pub s)\<rparr>
                       else s\<lparr>sd_index := sd_index s + 1, sd_chans := chans'\<rparr>))))"

text \<open>
  The loop interleaved with receivers: a receiver takes an update or is dropped.  The receivers of
  \<open>idle\<close> do neither.
\<close>

inductive sending_step :: "nat set \<Rightarrow> invoice \<Rightarrow> sending \<Rightarrow> sending \<Rightarrow> bool" for idle v where
  turn: "\<not> sd_done s \<Longrightarrow> send_turn v s = Some s' \<Longrightarrow> sending_step idle v s s'"
| take: "c \<notin> idle \<Longrightarrow> queue (sd_chans s c) = x # xs
    \<Longrightarrow> sending_step idle v s (s\<lparr>sd_chans := (sd_chans s)(c := (sd_chans s c)\<lparr>queue := xs\<rparr>)\<rparr>)"
| leave: "c \<notin> idle \<Longrightarrow> sending_step idle v s (s\<lparr>sd_chans := (sd_chans s)(c := (sd_chans s c)\<lparr>closed := True\<rparr>)\<rparr>)"

section \<open>Receiving\<close>

datatype subscriber_error = RecvTimeout | TryRecv try_recv_error

text \<open>\<open>recv\<close>, \<open>blocking_recv\<close> and polling the subscriber; \<open>None\<close> while there is nothing to receive.\<close>

definition recv :: "nat \<Rightarrow> publisher \<Rightarrow> channels \<Rightarrow> (invoice option \<times> channels) option" where
  "recv c pub chans =
     (case queue (chans c) of
        v # vs \<Rightarrow> Some (Some v, chans(c := (chans c)\<lparr>queue := vs\<rparr>))
      | [] \<Rightarrow> if has_sender c pub then None else Some (None, chans))"

text \<open>\<open>recv_timeout\<close>, with the state at the moment the call ends.\<close>

definition recv_timeout :: "nat \<Rightarrow> publisher \<Rightarrow> channels \<Rightarrow> (invoice option, subscriber_error) result \<times> channels" where
  "recv_timeout c pub chans =
     (case recv c pub chans of Some (r, chans') \<Rightarrow> (Ok r, chans') | None \<Rightarrow> (Err RecvTimeout, chans))"

section \<open>Sending completes when there is room\<close>

definition has_room :: "channels \<Rightarrow> (sender_id, nat) index_map \<Rightarrow> bool" where
  "has_room chans m \<longleftrightarrow> (\<forall>p \<in> set m. closed (chans (snd p)) \<or> length (queue (chans (snd p))) < SUBSCRIPTION_BUFFER_LEN)"

abbreviation turns :: "invoice \<Rightarrow> sending \<Rightarrow> sending \<Rightarrow> bool" where
  "turns v \<equiv> (sending_step UNIV v)\<^sup>*\<^sup>*"

lemma one_turn: "\<not> sd_done s \<Longrightarrow> send_turn v s = Some s' \<Longrightarrow> turns v s' s'' \<Longrightarrow> turns v s s''"
  by (rule converse_rtranclp_into_rtranclp [where b = s']) (rule turn)

lemma has_room_deliver: "has_room chans m \<Longrightarrow> c \<notin> snd ` set m \<Longrightarrow> has_room (deliver v {c} chans) m"
proof -
  have "deliver v {c} chans x = chans x" if "x \<noteq> c" for x using that by (simp add: deliver_def)
  then show "has_room chans m \<Longrightarrow> c \<notin> snd ` set m \<Longrightarrow> ?thesis" unfolding has_room_def by (metis image_eqI)
qed

text \<open>
  One loop by turns does what \<open>send_loop\<close> does: the same induction as the one that characterises
  \<open>send_loop\<close>.
\<close>

definition at_turn :: "invoice_id option \<Rightarrow> nat \<Rightarrow> bool \<Rightarrow> publisher \<times> channels \<Rightarrow> sending" where
  "at_turn i idx is_closed r =
     \<lparr>sd_target = i, sd_index = idx, sd_closed = is_closed, sd_pub = fst r, sd_chans = snd r, sd_done = False\<rparr>"

definition loop_reaches :: "invoice_id option \<Rightarrow> invoice \<Rightarrow> sending \<Rightarrow> publisher \<times> channels \<Rightarrow> bool" where
  "loop_reaches i v s r \<longleftrightarrow> (\<exists>idx is_closed. get_sender_by_index i idx (fst r) = None \<and> turns v s (at_turn i idx is_closed r))"

lemma loop_reaches_turn: "\<not> sd_done s \<Longrightarrow> send_turn v s = Some s' \<Longrightarrow> loop_reaches i v s' r \<Longrightarrow> loop_reaches i v s r"
  unfolding loop_reaches_def by (meson one_turn)

lemma loop_by_turns:
  assumes "distinct (map fst (senders i pub))" and "distinct (map snd (senders i pub))"
    and "idx \<le> length (senders i pub)" and "has_room chans (drop idx (senders i pub))"
  shows "loop_reaches i v (at_turn i idx is_closed (pub, chans)) (send_loop i v idx is_closed pub chans)"
  using assms
proof (induction i v idx is_closed pub chans rule: send_loop.induct)
  case (1 i v idx is_closed pub chans)
  let ?m = "senders i pub" and ?s = "at_turn i idx is_closed (pub, chans)"
  note eq = send_loop.simps [of i v idx is_closed pub chans]
  show ?case
  proof (cases "idx < length ?m")
    case False
    then have none: "get_sender_by_index i idx pub = None" by (simp add: get_sender_by_index_def)
    then have "send_loop i v idx is_closed pub chans = (pub, chans)" by (simp add: eq)
    with none show ?thesis by (auto simp: loop_reaches_def)
  next
    case True
    obtain sid c where nth: "?m ! idx = (sid, c)" by force
    have get: "get_sender_by_index i idx pub = Some (sid, c)" using True nth by (simp add: get_sender_by_index_def)
    have drop: "drop idx ?m = (sid, c) # drop (Suc idx) ?m" using True nth by (metis Cons_nth_drop_Suc)
    have "distinct (map snd (drop idx ?m))" using "1.prems"(2) by (simp add: distinct_drop flip: drop_map)
    then have c: "c \<notin> snd ` set (drop (Suc idx) ?m)" by (simp add: drop)
    have free: "closed (chans c) \<or> \<not> SUBSCRIPTION_BUFFER_LEN \<le> length (queue (chans c))"
      and room: "has_room (deliver v {c} chans) (drop (Suc idx) ?m)"
      using "1.prems"(4) has_room_deliver [OF _ c] by (auto simp: has_room_def drop)
    show ?thesis
    proof (cases "is_closed \<or> closed (chans c)")
      case rm: True
      let ?pub = "remove_sender i sid pub" and ?ch = "deliver v {c} chans"
      have swap: "senders i ?pub = swap_remove_index idx ?m"
        using True nth "1.prems"(1) index_of_nth [of ?m idx] by (auto simp: senders_remove_sender swap_remove_def)
      have "set (drop idx (swap_remove_index idx ?m)) = set (drop (Suc idx) ?m)"
        using swap_remove_index_drop [OF True] by (metis set_mset_mset)
      then have "has_room ?ch (drop idx (senders i ?pub))" using room by (simp add: has_room_def swap)
      then have IH: "loop_reaches i v (at_turn i idx True (?pub, ?ch)) (send_loop i v idx True ?pub ?ch)"
        using "1.IH"(1) [OF get] "1.prems"(1-3) True rm by (simp add: chan_send_eq swap distinct_swap_remove_index)
      have loop: "send_loop i v idx is_closed pub chans = send_loop i v idx True ?pub ?ch"
        by (subst eq) (use rm in \<open>auto simp: get chan_send_eq\<close>)
      have "send_turn v ?s = Some (at_turn i idx True (?pub, ?ch))"
        using free rm by (auto simp: at_turn_def send_turn_def get chan_send_eq)
      from loop_reaches_turn [OF _ this IH] show ?thesis unfolding loop by (simp add: at_turn_def)
    next
      case False
      let ?ch = "deliver v {c} chans"
      have IH: "loop_reaches i v (at_turn i (idx + 1) False (pub, ?ch)) (send_loop i v (idx + 1) False pub ?ch)"
        using "1.IH"(2) [OF get] "1.prems"(1,2) True False room by (force simp: chan_send_eq)
      have loop: "send_loop i v idx is_closed pub chans = send_loop i v (idx + 1) False pub ?ch"
        by (subst eq) (use False in \<open>simp add: get chan_send_eq\<close>)
      have "send_turn v ?s = Some (at_turn i (idx + 1) False (pub, ?ch))"
        using free False by (auto simp: at_turn_def send_turn_def get chan_send_eq)
      from loop_reaches_turn [OF _ this IH] show ?thesis unfolding loop by (simp add: at_turn_def)
    qed
  qed
qed

lemma sending_completes:
  assumes "publisher_wf pub" and "has_room chans (senders (Some (invoice_ident v)) pub)" and "has_room chans (senders None pub)"
  shows "\<exists>s. turns v (send_start v pub chans) s \<and> sd_done s \<and> (sd_pub s, sd_chans s) = send_updates v pub chans"
proof -
  let ?i = "Some (invoice_ident v)"
  obtain p1 c1 where l1: "send_loop ?i v 0 False pub chans = (p1, c1)" by force
  note wf = publisher_wf_distinct [OF assms(1)]
  from send_loop_post [OF wf, of 0 ?i v False chans] l1
  have p1: "senders None p1 = senders None pub" and c1: "c1 = deliver v (sender_chans ?i pub) chans"
    by (simp_all add: send_post_def sender_chans_def)
  have "sender_chans ?i pub \<inter> sender_chans None pub = {}" using assms(1) by (simp add: publisher_wf_def)
  then have "c1 (snd p) = chans (snd p)" if "p \<in> set (senders None pub)" for p
    using that by (auto simp: c1 deliver_def sender_chans_def)
  then have room: "has_room c1 (senders None p1)" using assms(3) by (simp add: has_room_def p1)
  have "loop_reaches ?i v (at_turn ?i 0 False (pub, chans)) (p1, c1)"
    using loop_by_turns [OF wf, of 0 ?i chans v False] assms(2) by (simp add: l1)
  then obtain idx cl where first: "get_sender_by_index ?i idx p1 = None" "turns v (send_start v pub chans) (at_turn ?i idx cl (p1, c1))"
    by (auto simp: loop_reaches_def at_turn_def send_start_def)
  have "send_turn v (at_turn ?i idx cl (p1, c1)) = Some (at_turn None 0 False (p1, c1))"
    using first(1) by (simp add: send_turn_def at_turn_def)
  then have second: "turns v (send_start v pub chans) (at_turn None 0 False (p1, c1))"
    using first(2) turn [of "at_turn ?i idx cl (p1, c1)" v _ UNIV]
    by (simp add: at_turn_def rtranclp.rtrancl_into_rtrancl)
  have "loop_reaches None v (at_turn None 0 False (p1, c1)) (send_loop None v 0 False p1 c1)"
    using loop_by_turns [of None p1 0 c1 v False] wf room by (simp add: p1)
  then obtain idx cl where third: "get_sender_by_index None idx (fst (send_updates v pub chans)) = None"
      "turns v (at_turn None 0 False (p1, c1)) (at_turn None idx cl (send_updates v pub chans))"
    by (auto simp: loop_reaches_def send_updates_def l1)
  let ?final = "(at_turn None idx cl (send_updates v pub chans))\<lparr>sd_done := True\<rparr>"
  have "sending_step UNIV v (at_turn None idx cl (send_updates v pub chans)) ?final"
    by (rule turn) (use third(1) in \<open>simp_all add: send_turn_def at_turn_def\<close>)
  with second third(2) have "turns v (send_start v pub chans) ?final" by (meson rtranclp.rtrancl_into_rtrancl rtranclp_trans)
  moreover have "sd_done ?final" "(sd_pub ?final, sd_chans ?final) = send_updates v pub chans" by (simp_all add: at_turn_def)
  ultimately show ?thesis by blast
qed
section \<open>A full channel stops the loop\<close>

text \<open>
  The channel \<open>c\<close> is full, nobody takes from it, and the loop has yet to send to it: in the first loop
  when \<open>first\<close>, else in the second.
\<close>

definition before_channel :: "nat \<Rightarrow> invoice_id option \<Rightarrow> sending \<Rightarrow> bool" where
  "before_channel c i s \<longleftrightarrow>
     \<not> sd_done s \<and> \<not> closed (sd_chans s c) \<and> SUBSCRIPTION_BUFFER_LEN \<le> length (queue (sd_chans s c))
     \<and> (\<forall>j. distinct (map fst (senders j (sd_pub s))))
     \<and> (if sd_target s = i then c \<in> snd ` set (drop (sd_index s) (senders i (sd_pub s)))
        else i = None \<and> c \<in> snd ` set (senders None (sd_pub s)))"

lemma chan_send_keeps_full:
  "\<not> closed (chans c) \<Longrightarrow> n \<le> length (queue (chans c)) \<Longrightarrow> chan_send d v chans = (ok, chans')
     \<Longrightarrow> \<not> closed (chans' c) \<and> n \<le> length (queue (chans' c))"
  by (auto simp: chan_send_def split: if_splits)

lemma turn_before_channel:
  assumes "before_channel c i s" and "send_turn v s = Some s'"
  shows "before_channel c i s'"
proof (cases "get_sender_by_index (sd_target s) (sd_index s) (sd_pub s)")
  case None
  then have "sd_target s \<noteq> i" using assms(1) by (auto simp: before_channel_def get_sender_by_index_def split: if_splits)
  with None assms show ?thesis by (cases "sd_target s") (auto simp: before_channel_def send_turn_def)
next
  case (Some p)
  obtain sid d where p: "p = (sid, d)" by force
  let ?t = "sd_target s" and ?k = "sd_index s" and ?m = "senders (sd_target s) (sd_pub s)"
  have k: "?k < length ?m" and nth: "?m ! ?k = (sid, d)" using Some p by (auto simp: get_sender_by_index_def split: if_splits)
  have drop: "drop ?k ?m = (sid, d) # drop (Suc ?k) ?m" using k nth by (metis Cons_nth_drop_Suc)
  obtain ok chans' where send: "chan_send d v (sd_chans s) = (ok, chans')" by force
  have dist: "distinct (map fst (senders j (sd_pub s)))" for j using assms(1) by (simp add: before_channel_def)
  have full: "\<not> closed (sd_chans s c)" "SUBSCRIPTION_BUFFER_LEN \<le> length (queue (sd_chans s c))"
    using assms(1) by (auto simp: before_channel_def)
  have full': "\<not> closed (chans' c) \<and> SUBSCRIPTION_BUFFER_LEN \<le> length (queue (chans' c))"
    by (rule chan_send_keeps_full [OF full send])
  have "d \<noteq> c" using assms(2) full by (auto simp: send_turn_def Some p)
  then have next_in: "?t = i \<Longrightarrow> c \<in> snd ` set (drop (Suc ?k) ?m)" using assms(1) drop by (auto simp: before_channel_def)
  have s': "s' = (if sd_closed s \<or> \<not> ok then s\<lparr>sd_closed := True, sd_chans := chans', sd_pub := remove_sender ?t sid (sd_pub s)\<rparr>
      else s\<lparr>sd_index := ?k + 1, sd_chans := chans'\<rparr>)"
    using assms(2) by (auto simp: send_turn_def Some p send split: if_splits)
  show ?thesis
  proof (cases "sd_closed s \<or> \<not> ok")
    case True
    let ?pub = "remove_sender ?t sid (sd_pub s)"
    have swap: "senders ?t ?pub = swap_remove_index ?k ?m"
      using k nth index_of_nth [OF dist k] by (auto simp: senders_remove_sender swap_remove_def)
    have "set (drop ?k (swap_remove_index ?k ?m)) = set (drop (Suc ?k) ?m)"
      using swap_remove_index_drop [OF k] by (metis set_mset_mset)
    moreover have "distinct (map fst (senders j ?pub))" for j
      using dist distinct_swap_remove_index [OF dist k] swap senders_remove_other [of j ?t] by (cases "j = ?t") simp_all
    ultimately show ?thesis
      using True assms(1) full' next_in swap senders_remove_other [of i ?t sid "sd_pub s"] by (auto simp: s' before_channel_def)
  next
    case False
    then show ?thesis using assms(1) full' next_in by (auto simp: s' before_channel_def)
  qed
qed

lemma step_before_channel:
  assumes "sending_step idle v s s'" and "c \<in> idle" and "before_channel c i s"
  shows "before_channel c i s'"
  using assms
proof (induction rule: sending_step.induct)
  case (turn s s')
  then show ?case using turn_before_channel by blast
next
  case (take d s x xs)
  then have "d \<noteq> c" by blast
  with take show ?case by (auto simp: before_channel_def)
next
  case (leave d s)
  then have "d \<noteq> c" by blast
  with leave show ?case by (auto simp: before_channel_def)
qed

section \<open>A new scanner\<close>

lemma senders_inserted: "i \<in> set ids \<Longrightarrow> senders (Some i) (foldl (\<lambda>p i. publisher_insert_invoice i p) pub ids) = []"
proof (induction ids arbitrary: pub rule: rev_induct)
  case (snoc j ids)
  then show ?case by (cases "i = j") auto
qed simp

lemma direct_reading_store: "direct (reading f) m = (r, m') \<Longrightarrow> m' = m \<or> m' = None"
  by (cases m) (auto simp: direct_def reading_def split: result.splits)

lemma last_height_store:
  assumes "last_height S m = (r, m')"
  shows "m' = m \<or> m' = None"
proof -
  obtain rh m1 where h: "direct (reading (height_get S)) m = (rh, m1)" by force
  obtain rl m2 where l: "direct (reading (lowest_height S)) m1 = (rl, m2)" by force
  have "m1 = m \<or> m1 = None" "m2 = m1 \<or> m2 = None" using direct_reading_store h l by blast+
  moreover have "m' = m1 \<or> m' = m2"
    using assms h l by (cases rh) (auto simp: last_height_def split: option.splits)
  ultimately show ?thesis by auto
qed

lemma scanner_new_unsubscribes:
  assumes "scanner_new in_memory D n h pub chans (Some s, w)
      = (Ok sc :: (_, (in_memory_storage_error, 'r, 'm) scanner_error) result, pub', st')"
    and "im_invoice_map s i = Some v"
  shows "senders (Some i) pub' = [] \<and> sc_publisher sc = pub'"
proof -
  obtain ids m1 m2 where ids: "client_get_invoice_ids in_memory m1 = (Ok ids, m2)" "m1 = Some s \<or> m1 = None"
      "pub' = foldl (\<lambda>p i. publisher_insert_invoice i p) pub ids" "sc_publisher sc = pub'"
    using assms(1)
    by (auto simp: scanner_new_def Let_def and_then_eq_Ok map_ok_eq_Ok dest: last_height_store split: prod.splits result.splits)
  then have "ids = map fst (im_invoices s)"
    by (auto simp: direct_def reading_def im_get_ids_def split: result.splits)
  then have "i \<in> set ids" using assms(2) by (metis im_invoice_map_def map_of_eq_None_iff option.distinct(1) list.set_map)
  then show ?thesis using ids senders_inserted by simp
qed

section \<open>Properties\<close>

text \<open>
  Sending an update ends when there is room for it: if every open channel of the invoice's
  subscribers and of the global subscribers is below its bound, then the turns of the loop alone, with
  no help of a receiver, reach its end with the publisher and the channels of \<open>send_updates\<close>.
\<close>

theorem send_updates_by_turns:
  assumes "publisher_wf pub" and "has_room chans (senders (Some (invoice_ident v)) pub)" and "has_room chans (senders None pub)"
  shows "\<exists>s. (sending_step UNIV v)\<^sup>*\<^sup>* (send_start v pub chans) s \<and> sd_done s \<and> (sd_pub s, sd_chans s) = send_updates v pub chans"
  by (rule sending_completes [OF assms])

definition ex_watched :: publisher where
  "ex_watched = \<lparr>invoice_subs = [], global_subs = [(5, 0), (6, 1)]\<rparr>"

lemma ex_watched_wf: "publisher_wf ex_watched"
  by (auto simp: ex_watched_def publisher_wf_def senders_def sender_chans_def split: option.splits)

definition ex_update :: invoice where
  "ex_update = invoice_new ''a'' (SubIndex 0 1) 3 10 2 20 ''d''"

theorem send_updates_by_turns_witness:
  "\<exists>s. (sending_step UNIV ex_update)\<^sup>*\<^sup>* (send_start ex_update ex_watched (\<lambda>c. \<lparr>closed = (c = 0), queue = []\<rparr>)) s \<and> sd_done s"
  using send_updates_by_turns [OF ex_watched_wf, of "\<lambda>c. \<lparr>closed = (c = 0), queue = []\<rparr>" ex_update]
  by (auto simp: has_room_def senders_def ex_watched_def SUBSCRIPTION_BUFFER_LEN_def)

text \<open>
  C39. One subscriber that does not read stops the scanner: once the channel of an open subscriber is
  full and its receiver takes nothing, \<open>send_updates\<close> for its invoice (for any invoice, if it is a
  global subscriber) never ends, whatever all other receivers do.
\<close>

theorem full_subscriber_stops_sending:
  assumes "publisher_wf pub" and "c \<in> sender_chans (Some (invoice_ident v)) pub \<union> sender_chans None pub"
    and "\<not> closed (chans c)" and "SUBSCRIPTION_BUFFER_LEN \<le> length (queue (chans c))"
    and "(sending_step {c} v)\<^sup>*\<^sup>* (send_start v pub chans) s"
  shows "\<not> sd_done s"
proof -
  have "\<exists>i. before_channel c i (send_start v pub chans)"
  proof (cases "c \<in> sender_chans (Some (invoice_ident v)) pub")
    case True
    with assms publisher_wf_distinct(1) [OF assms(1)] show ?thesis
      by (intro exI [of _ "Some (invoice_ident v)"]) (simp add: before_channel_def send_start_def sender_chans_def)
  next
    case False
    with assms publisher_wf_distinct(1) [OF assms(1)] show ?thesis
      by (intro exI [of _ None]) (simp add: before_channel_def send_start_def sender_chans_def)
  qed
  then obtain i where start: "before_channel c i (send_start v pub chans)" by blast
  from assms(5) have "before_channel c i s"
  proof (induction rule: rtranclp_induct)
    case base
    show ?case by (rule start)
  next
    case (step s s')
    then show ?case using step_before_channel [of "{c}" v s s' c i] by simp
  qed
  then show ?thesis by (simp add: before_channel_def)
qed

definition ex_backlog :: channels where
  "ex_backlog = (\<lambda>c. \<lparr>closed = False, queue = (if c = 1 then replicate 2048 ex_update else [])\<rparr>)"

theorem full_subscriber_stops_sending_witness:
  "(sending_step {1} ex_update)\<^sup>*\<^sup>* (send_start ex_update ex_watched ex_backlog) (send_start ex_update ex_watched ex_backlog)
   \<and> \<not> (\<exists>s. (sending_step {1} ex_update)\<^sup>*\<^sup>* (send_start ex_update ex_watched ex_backlog) s \<and> sd_done s)"
proof -
  have "1 \<in> sender_chans (Some (invoice_ident ex_update)) ex_watched \<union> sender_chans None ex_watched"
    by (simp add: ex_watched_def sender_chans_def senders_def)
  from full_subscriber_stops_sending [OF ex_watched_wf this, of ex_backlog] show ?thesis
    by (auto simp: ex_backlog_def SUBSCRIPTION_BUFFER_LEN_def)
qed

text \<open>
  Starting the scanner again unsubscribes: \<open>Scanner::new\<close> registers every stored invoice with the
  publisher it is given, and registering replaces the subscribers of the invoice by none.
\<close>

theorem restart_unsubscribes:
  assumes "scanner_new in_memory D n h pub chans (Some s, w)
      = (Ok sc :: (_, (in_memory_storage_error, 'r, 'm) scanner_error) result, pub', st')"
    and "im_invoice_map s i = Some v"
  shows "senders (Some i) pub' = [] \<and> sc_publisher sc = pub'"
  by (rule scanner_new_unsubscribes [OF assms])

definition ex_subscribed :: publisher where
  "ex_subscribed = \<lparr>invoice_subs = [(InvoiceId (SubIndex 0 1) 3, [(7, 0)])], global_subs = []\<rparr>"

definition ex_restart where
  "ex_restart = (scanner_new in_memory (ex_node 6 6) 3 None ex_subscribed (\<lambda>_. \<lparr>closed = False, queue = []\<rparr>)
     (Some (ex_store ex_update), False) :: (_, (in_memory_storage_error, unit, unit) scanner_error) result \<times> _)"

theorem restart_unsubscribes_witness:
  "senders (Some (InvoiceId (SubIndex 0 1) 3)) ex_subscribed = [(7, 0)]
   \<and> senders (Some (InvoiceId (SubIndex 0 1) 3)) (fst (snd ex_restart)) = []"
proof -
  have "case fst ex_restart of Ok _ \<Rightarrow> True | _ \<Rightarrow> False" by code_simp
  then obtain sc where "ex_restart = (Ok sc, fst (snd ex_restart), snd (snd ex_restart))"
    by (cases "fst ex_restart") (auto simp: prod_eq_iff)
  moreover have "im_invoice_map (ex_store ex_update) (InvoiceId (SubIndex 0 1) 3) = Some ex_update" by code_simp
  ultimately have "senders (Some (InvoiceId (SubIndex 0 1) 3)) (fst (snd ex_restart)) = []"
    unfolding ex_restart_def by (metis restart_unsubscribes)
  then show ?thesis by (simp add: ex_subscribed_def senders_def)
qed

end
