(* ===== verification/Lifecycle.thy ===== *)
theory Lifecycle
  imports Gateway
begin

text \<open>
  Starting, watching and stopping the scanning task: \<open>run\<close>, \<open>status\<close> and \<open>stop\<close> of
  \<open>library/src/payment_gateway.rs\<close> and the loop the task runs.

  These are the gateway's concurrent operations.  Each is cut into the parts between two points where
  it can wait, and \<open>life_step\<close> interleaves the parts of any number of calls with the steps of the
  tasks.  \<open>None\<close> as a result of a part means that the call waits.
\<close>

section \<open>The loop of the scanning task\<close>

datatype message_to_scanner = Stop

text \<open>
  \<open>SubKeyChecker::new\<close> makes a table with one entry per subaddress index of two ranges; the model
  keeps the indices.
\<close>

definition word_range :: "u32 \<Rightarrow> u32 \<Rightarrow> u32 list" where
  "word_range a b = map of_nat [unat a ..< unat b]"

definition checker_for :: "u32 \<Rightarrow> u32 \<Rightarrow> sub_index list" where
  "checker_for maj highest_minor =
     concat (map (\<lambda>a. map (SubIndex a) (word_range 0 (saturating_add highest_minor 1)))
       (word_range maj (saturating_add maj 1)))"

definition refresh_checker :: "u32 \<Rightarrow> u32 \<Rightarrow> sub_index list \<Rightarrow> sub_index list" where
  "refresh_checker maj highest_minor table =
     (if length table \<le> unat highest_minor then checker_for maj highest_minor else table)"

datatype ('s, 'w) loop_result =
    Break
  | Again "sub_index list" "('s, 'w) scanner"
  | Aborted

text \<open>
  One turn of the loop.  A failed scan is logged and the loop goes on; whether it waits for the scan
  interval first does not change its effect.
\<close>

definition scan_turn ::
  "('s, 'e) storage \<Rightarrow> ('w, 'r) monerod \<Rightarrow> (sub_index list \<Rightarrow> transaction \<Rightarrow> (owned_tx_out list, 'm) result)
     \<Rightarrow> u32 \<Rightarrow> u32 \<Rightarrow> bool \<Rightarrow> message_to_scanner list \<Rightarrow> sub_index list \<Rightarrow> ('s, 'w) scanner
     \<Rightarrow> ('s, 'w) loop_result \<times> message_to_scanner list" where
  "scan_turn S D check maj highest_minor connected commands table sc =
     (case commands of
        Stop # rest \<Rightarrow> (Break, rest)
      | [] \<Rightarrow>
          (if \<not> connected then (Break, [])
           else let table' = refresh_checker maj highest_minor table;
                    (r, sc') = (scan S D (check table') sc
                      :: (_, ('e, 'r, 'm) scanner_error) result \<times> _)
                in (case r of Panic \<Rightarrow> Aborted | _ \<Rightarrow> Again table' sc', [])))"

section \<open>Running, watching, stopping\<close>

datatype task = Running | Returned | Panicked

datatype lock = Free | HeldByStop nat | HeldByStatus

datatype ('e, 'r, 'm) gateway_status =
    StatusRunning
  | StatusNotRunning
  | StatusError "('e, 'r, 'm) accept_xmr_error"

text \<open>
  \<open>lc_starting\<close> counts the calls of \<open>run\<close> that have passed the check and not yet stored their
  handle.  The lock is the mutex around the handle.
\<close>

record lifecycle =
  lc_handle :: "nat option"
  lc_lock :: lock
  lc_tasks :: "task list"
  lc_commands :: "message_to_scanner list"
  lc_starting :: nat

definition lc_init :: lifecycle where
  "lc_init = \<lparr>lc_handle = None, lc_lock = Free, lc_tasks = [], lc_commands = [], lc_starting = 0\<rparr>"

definition is_finished :: "lifecycle \<Rightarrow> nat \<Rightarrow> bool" where
  "is_finished l t \<longleftrightarrow> lc_tasks l ! t \<noteq> Running"

definition task_join :: "lifecycle \<Rightarrow> nat \<Rightarrow> (unit, ('e, 'r, 'm) scanner_error) result" where
  "task_join l t = (case lc_tasks l ! t of Panicked \<Rightarrow> Err Threading | _ \<Rightarrow> Ok ())"

definition run_check :: "lifecycle \<Rightarrow> (unit, ('e, 'r, 'm) accept_xmr_error) result" where
  "run_check l =
     (case lc_handle l of
        Some t \<Rightarrow> if is_finished l t then Ok () else Err AlreadyRunning
      | None \<Rightarrow> Ok ())"

definition run_spawn :: "lifecycle \<Rightarrow> lifecycle" where
  "run_spawn l =
     l\<lparr>lc_tasks := lc_tasks l @ [Running], lc_handle := Some (length (lc_tasks l)),
       lc_starting := lc_starting l - 1\<rparr>"

text \<open>
  The arm for a finished handle asks for the mutex again while the guard of the first line is still
  alive.  The mutex is not reentrant: the call waits for itself.
\<close>

definition status :: "lifecycle \<Rightarrow> ('e, 'r, 'm) gateway_status option \<times> lifecycle" where
  "status l =
     (case lc_handle l of
        None \<Rightarrow> (Some StatusNotRunning, l)
      | Some t \<Rightarrow>
          if is_finished l t then (None, l\<lparr>lc_lock := HeldByStatus\<rparr>) else (Some StatusRunning, l))"

text \<open>
  \<open>stop\<close>: the guard lives to the end of the \<open>match\<close>, so the mutex is held while the task is joined.
  The receiver lives as long as the gateway, so \<open>send\<close> does not fail.
\<close>

definition stop_begin :: "lifecycle \<Rightarrow> (unit, ('e, 'r, 'm) accept_xmr_error) result option \<times> lifecycle" where
  "stop_begin l =
     (case lc_handle l of
        None \<Rightarrow> (Some (Ok ()), l)
      | Some t \<Rightarrow>
          if is_finished l t then (Some (map_err Scanner (task_join l t)), l\<lparr>lc_handle := None\<rparr>)
          else (None, l\<lparr>lc_handle := None, lc_commands := lc_commands l @ [Stop], lc_lock := HeldByStop t\<rparr>))"

definition stop_end :: "nat \<Rightarrow> lifecycle \<Rightarrow> (unit, ('e, 'r, 'm) accept_xmr_error) result \<times> lifecycle" where
  "stop_end t l = (map_err Scanner (task_join l t), l\<lparr>lc_lock := Free\<rparr>)"

text \<open>
  All interleavings.  With \<open>overlap = False\<close> no call of \<open>run\<close> begins while another is between its
  check and storing its handle.
\<close>

inductive life_step :: "bool \<Rightarrow> lifecycle \<Rightarrow> lifecycle \<Rightarrow> bool" for overlap where
  run_begin: "lc_lock l = Free \<Longrightarrow> (run_check l :: (unit, (unit, unit, unit) accept_xmr_error) result) = Ok ()
    \<Longrightarrow> overlap \<or> lc_starting l = 0 \<Longrightarrow> life_step overlap l (l\<lparr>lc_starting := lc_starting l + 1\<rparr>)"
| run_failed: "0 < lc_starting l \<Longrightarrow> life_step overlap l (l\<lparr>lc_starting := lc_starting l - 1\<rparr>)"
| run_spawned: "lc_lock l = Free \<Longrightarrow> 0 < lc_starting l \<Longrightarrow> life_step overlap l (run_spawn l)"
| task_stop: "t < length (lc_tasks l) \<Longrightarrow> lc_tasks l ! t = Running \<Longrightarrow> lc_commands l = Stop # rest
    \<Longrightarrow> life_step overlap l (l\<lparr>lc_tasks := (lc_tasks l)[t := Returned], lc_commands := rest\<rparr>)"
| task_panic: "t < length (lc_tasks l) \<Longrightarrow> lc_tasks l ! t = Running
    \<Longrightarrow> life_step overlap l (l\<lparr>lc_tasks := (lc_tasks l)[t := Panicked]\<rparr>)"
| status_called: "lc_lock l = Free
    \<Longrightarrow> status l = (r :: (unit, unit, unit) gateway_status option, l') \<Longrightarrow> life_step overlap l l'"
| stop_called: "lc_lock l = Free
    \<Longrightarrow> stop_begin l = (rs :: (unit, (unit, unit, unit) accept_xmr_error) result option, l') \<Longrightarrow> life_step overlap l l'"
| stop_returns: "lc_lock l = HeldByStop t \<Longrightarrow> is_finished l t
    \<Longrightarrow> stop_end t l = (ru :: (unit, (unit, unit, unit) accept_xmr_error) result, l') \<Longrightarrow> life_step overlap l l'"

definition running :: "lifecycle \<Rightarrow> nat set" where
  "running l = {t. t < length (lc_tasks l) \<and> lc_tasks l ! t = Running}"

text \<open>The invariant when calls of \<open>run\<close> do not overlap.\<close>

definition lc_ok :: "lifecycle \<Rightarrow> bool" where
  "lc_ok l \<longleftrightarrow> (\<forall>t. lc_handle l = Some t \<longrightarrow> t < length (lc_tasks l))
     \<and> (\<forall>t. lc_lock l = HeldByStop t \<longrightarrow> t < length (lc_tasks l) \<and> lc_handle l = None)
     \<and> (\<forall>t \<in> running l. lc_handle l = Some t \<or> lc_lock l = HeldByStop t)
     \<and> lc_starting l \<le> 1 \<and> (lc_starting l = 1 \<longrightarrow> running l = {})"

lemma running_simps [simp]:
  "running (l\<lparr>lc_handle := h\<rparr>) = running l" "running (l\<lparr>lc_lock := k\<rparr>) = running l"
  "running (l\<lparr>lc_commands := c\<rparr>) = running l" "running (l\<lparr>lc_starting := n\<rparr>) = running l"
  by (simp_all add: running_def)

lemma running_finish:
  "t < length (lc_tasks l) \<Longrightarrow> x \<noteq> Running \<Longrightarrow> running (l\<lparr>lc_tasks := (lc_tasks l)[t := x]\<rparr>) = running l - {t}"
  by (auto simp: running_def nth_list_update)

lemma running_spawn: "running (run_spawn l) = insert (length (lc_tasks l)) (running l)"
  by (auto simp: running_def run_spawn_def nth_append)

lemma finished_iff: "t < length (lc_tasks l) \<Longrightarrow> is_finished l t \<longleftrightarrow> t \<notin> running l"
  by (simp add: is_finished_def running_def)

lemma run_check_Ok: "run_check l = Ok () \<longleftrightarrow> (\<forall>t. lc_handle l = Some t \<longrightarrow> is_finished l t)"
  by (simp add: run_check_def split: option.splits)

lemma lc_ok_step: "life_step False l l' \<Longrightarrow> lc_ok l \<Longrightarrow> lc_ok l'"
proof (induction rule: life_step.induct)
  case (run_begin l)
  then have "running l = {}" by (auto simp: lc_ok_def run_check_Ok finished_iff)
  with run_begin show ?case by (simp add: lc_ok_def)
next
  case (run_spawned l)
  then have "running l = {}" "lc_starting l = 1" by (auto simp: lc_ok_def)
  with run_spawned show ?case by (simp add: lc_ok_def running_spawn) (simp add: run_spawn_def)
next
  case (status_called l r l')
  then show ?case by (auto simp: status_def lc_ok_def split: option.splits if_splits)
next
  case (stop_called l rs l')
  show ?case
  proof (cases "lc_handle l")
    case None
    with stop_called show ?thesis by (simp add: stop_begin_def)
  next
    case (Some t)
    from stop_called.prems Some have t: "t < length (lc_tasks l)" and starting: "lc_starting l \<le> 1"
        "lc_starting l = 1 \<longrightarrow> running l = {}" and only: "running l \<subseteq> {t}"
      using stop_called.hyps(1) by (auto simp: lc_ok_def)
    show ?thesis
    proof (cases "is_finished l t")
      case True
      with t only have "running l = {}" by (auto simp: finished_iff)
      moreover have "l' = l\<lparr>lc_handle := None\<rparr>" using stop_called.hyps(2) Some True by (simp add: stop_begin_def)
      ultimately show ?thesis using starting stop_called.hyps(1) by (simp add: lc_ok_def)
    next
      case False
      have "l' = l\<lparr>lc_handle := None, lc_commands := lc_commands l @ [Stop], lc_lock := HeldByStop t\<rparr>"
        using stop_called.hyps(2) Some False by (simp add: stop_begin_def)
      then show ?thesis using starting only t by (auto simp: lc_ok_def)
    qed
  qed
next
  case (stop_returns l t ru l')
  then show ?case by (auto simp: stop_end_def lc_ok_def finished_iff)
qed (auto simp: lc_ok_def running_finish)

lemma lc_ok_steps: "(life_step False)\<^sup>*\<^sup>* l l' \<Longrightarrow> lc_ok l \<Longrightarrow> lc_ok l'"
  by (induction rule: rtranclp_induct) (auto intro: lc_ok_step)

lemma lc_ok_init: "lc_ok lc_init"
  by (simp add: lc_ok_def lc_init_def running_def)

lemma lc_ok_at_most_one: "lc_ok l \<Longrightarrow> t \<in> running l \<Longrightarrow> t' \<in> running l \<Longrightarrow> t = t'"
  unfolding lc_ok_def by (metis lock.inject option.distinct(1) option.inject)

text \<open>A finished task's handle is never looked at by \<open>status\<close> without the call waiting for itself.\<close>

lemma deadlock_stays:
  assumes "(life_step overlap)\<^sup>*\<^sup>* l l'" and "lc_lock l = HeldByStatus"
  shows "lc_lock l' = HeldByStatus"
  using assms by (induction rule: rtranclp_induct) (auto elim: life_step.cases)

section \<open>What the task looks for\<close>

lemma set_word_range: "set (word_range a b) = {x. a \<le> x \<and> x < b}"
proof -
  have "x \<in> set (word_range a b) \<longleftrightarrow> a \<le> x \<and> x < b" for x
  proof
    assume "x \<in> set (word_range a b)"
    then obtain n where n: "x = of_nat n" "unat a \<le> n" "n < unat b" by (auto simp: word_range_def)
    have "unat x = n" unfolding n(1) using n(3) unat_u32_less [of b] by (intro unat_of_nat_u32) simp
    with n show "a \<le> x \<and> x < b" by (simp add: word_le_nat_alt word_less_nat_alt)
  next
    assume "a \<le> x \<and> x < b"
    then show "x \<in> set (word_range a b)"
      by (auto simp: word_range_def word_le_nat_alt word_less_nat_alt intro!: image_eqI [of _ _ "unat x"])
  qed
  then show ?thesis by blast
qed

lemma length_word_range: "length (word_range a b) = unat b - unat a"
  by (simp add: word_range_def)

lemma saturating_add_1: "x \<noteq> - 1 \<Longrightarrow> saturating_add x (1 :: u32) = x + 1"
  by (simp add: saturating_add_def word_le_nat_alt unat_plus_1)

lemma less_plus_1: "b \<noteq> - 1 \<Longrightarrow> x < b + 1 \<longleftrightarrow> x \<le> (b :: u32)"
  by (simp add: word_less_nat_alt word_le_nat_alt unat_plus_1 less_Suc_eq_le)

lemma set_checker_for:
  assumes "maj \<noteq> - 1" and "hi \<noteq> - 1"
  shows "set (checker_for maj hi) = {i. major i = maj \<and> minor i \<le> hi}"
proof -
  have "i \<in> set (checker_for maj hi) \<longleftrightarrow> major i = maj \<and> minor i \<le> hi" for i
    using assms by (cases i) (auto simp: checker_for_def set_word_range saturating_add_1 less_plus_1)
  then show ?thesis by blast
qed

lemma length_checker_for:
  assumes "maj \<noteq> - 1" and "hi \<noteq> - 1"
  shows "length (checker_for maj hi) = Suc (unat hi)"
  using assms by (simp add: checker_for_def word_range_def saturating_add_1 unat_plus_1)

lemma refresh_checker_covers:
  assumes "maj \<noteq> - 1" and "hi \<noteq> - 1" and "h0 \<le> hi"
  shows "refresh_checker maj hi (checker_for maj h0) = checker_for maj hi"
proof (cases "unat hi \<le> unat h0")
  case True
  then have "hi \<le> h0" by (simp add: word_le_nat_alt)
  with assms(3) have "h0 = hi" by (rule order_antisym)
  then show ?thesis by (simp add: refresh_checker_def)
next
  case False
  moreover have "h0 \<noteq> - 1" using assms(2,3) by (metis word_order.extremum_uniqueI)
  ultimately show ?thesis using assms(1) by (simp add: refresh_checker_def length_checker_for)
qed

section \<open>Properties\<close>

text \<open>
  C25. As long as calls of \<open>run\<close> do not overlap, at most one scanning task runs at any time, whatever
  the order of \<open>run\<close>, \<open>status\<close>, \<open>stop\<close> and the tasks' own steps, panics included.
\<close>

theorem at_most_one_scanner:
  assumes "(life_step False)\<^sup>*\<^sup>* lc_init l" and "t \<in> running l" and "t' \<in> running l"
  shows "t = t'"
  using lc_ok_at_most_one [OF lc_ok_steps [OF assms(1) lc_ok_init] assms(2,3)] .

definition ex_running :: lifecycle where
  "ex_running = \<lparr>lc_handle = Some 0, lc_lock = Free, lc_tasks = [Running], lc_commands = [], lc_starting = 0\<rparr>"

lemma ex_start_run: "(life_step overlap)\<^sup>*\<^sup>* lc_init ex_running"
proof -
  have "life_step overlap lc_init (lc_init\<lparr>lc_starting := 1\<rparr>)"
    using run_begin [of lc_init overlap] by (simp add: lc_init_def run_check_def)
  moreover have "life_step overlap (lc_init\<lparr>lc_starting := 1\<rparr>) ex_running"
    using run_spawned [of "lc_init\<lparr>lc_starting := 1\<rparr>" overlap] by (simp add: lc_init_def run_spawn_def ex_running_def)
  ultimately show ?thesis by (meson converse_rtranclp_into_rtranclp rtranclp.rtrancl_refl)
qed

theorem at_most_one_scanner_witness:
  "\<exists>l. (life_step False)\<^sup>*\<^sup>* lc_init l \<and> running l = {0}"
proof -
  have "0 \<in> running ex_running" by (simp add: running_def ex_running_def)
  with at_most_one_scanner [OF ex_start_run] ex_start_run show ?thesis
    by (intro exI [of _ ex_running]) blast
qed

text \<open>
  Two overlapping calls of \<open>run\<close> both pass the check before either stores its handle, and two
  tasks scan; the first one's handle is overwritten, so \<open>stop\<close> ends with a scanner still running.
\<close>

theorem overlapping_runs_start_two_scanners:
  "\<exists>l. (life_step True)\<^sup>*\<^sup>* lc_init l \<and> running l = {0, 1} \<and> lc_handle l = Some 1"
proof -
  let ?l1 = "lc_init\<lparr>lc_starting := 1\<rparr>" and ?l2 = "lc_init\<lparr>lc_starting := 2\<rparr>"
  have "life_step True lc_init ?l1" using run_begin [of lc_init True] by (simp add: lc_init_def run_check_def)
  moreover have "life_step True ?l1 ?l2"
    using run_begin [of ?l1 True] by (simp add: lc_init_def run_check_def numeral_2_eq_2)
  moreover have "life_step True ?l2 (run_spawn ?l2)" by (rule run_spawned) (simp_all add: lc_init_def)
  moreover have "life_step True (run_spawn ?l2) (run_spawn (run_spawn ?l2))"
    by (rule run_spawned) (simp_all add: lc_init_def run_spawn_def)
  ultimately have "(life_step True)\<^sup>*\<^sup>* lc_init (run_spawn (run_spawn ?l2))"
    by (meson converse_rtranclp_into_rtranclp rtranclp.rtrancl_refl)
  moreover have "running (run_spawn (run_spawn ?l2)) = {0, 1}" "lc_handle (run_spawn (run_spawn ?l2)) = Some 1"
    by (auto simp: running_def run_spawn_def lc_init_def nth_append less_Suc_eq)
  ultimately show ?thesis by blast
qed

text \<open>
  \<open>stop\<close> ends scanning.  With calls of \<open>run\<close> not overlapping and no stop signal left over, a call
  either returns at once with no task running, or waits for the one running task: the task's next
  turn takes the signal and ends, and the call then returns \<open>Ok\<close> with no task running, no signal
  left over and the mutex free.
\<close>

theorem stop_ends_scanning:
  assumes ok: "lc_ok l" and free: "lc_lock l = Free" and no_cmd: "lc_commands l = []"
    and stop: "stop_begin l = (rs, l1)"
  shows "case rs of
      Some r \<Rightarrow> running l1 = {} \<and> lc_lock l1 = Free \<and> lc_handle l1 = None
    | None \<Rightarrow> (\<exists>t l2. running l1 = {t} \<and> life_step False l1 l2 \<and> running l2 = {}
        \<and> stop_end t l2 = (Ok (), l2\<lparr>lc_lock := Free\<rparr>) \<and> lc_commands l2 = [] \<and> lc_handle l2 = None)"
proof (cases "lc_handle l")
  case None
  with ok free have "running l = {}" by (auto simp: lc_ok_def)
  with None free stop show ?thesis by (auto simp: stop_begin_def)
next
  case (Some t)
  with ok free have t: "t < length (lc_tasks l)" and only: "running l \<subseteq> {t}" by (auto simp: lc_ok_def)
  show ?thesis
  proof (cases "is_finished l t")
    case True
    with t only have "running l = {}" by (auto simp: finished_iff)
    with True Some free stop show ?thesis by (auto simp: stop_begin_def)
  next
    case False
    define l2 where "l2 = l1\<lparr>lc_tasks := (lc_tasks l1)[t := Returned], lc_commands := []\<rparr>"
    have l1: "rs = None" "l1 = l\<lparr>lc_handle := None, lc_commands := [Stop], lc_lock := HeldByStop t\<rparr>"
      using stop Some False no_cmd by (simp_all add: stop_begin_def)
    have r1: "running l1 = {t}" using False t only by (auto simp: l1 finished_iff)
    have "life_step False l1 l2"
      unfolding l2_def by (rule task_stop) (use False t in \<open>simp_all add: l1 is_finished_def\<close>)
    moreover have "running l2 = running l1 - {t}"
      using t by (auto simp: l2_def l1 running_def nth_list_update)
    ultimately show ?thesis
      using r1 t l1 by (auto simp: l2_def stop_end_def task_join_def intro!: exI [of _ l2])
  qed
qed

theorem stop_ends_scanning_witness:
  "\<exists>l2. life_step False (snd (stop_begin ex_running :: (unit, (unit, unit, unit) accept_xmr_error) result option \<times> _)) l2
     \<and> running l2 = {} \<and> lc_handle l2 = None"
proof -
  have ok: "lc_ok ex_running" by (rule lc_ok_steps [OF ex_start_run lc_ok_init])
  obtain l1 where l1: "stop_begin ex_running = (None :: (unit, (unit, unit, unit) accept_xmr_error) result option, l1)"
    by (simp add: stop_begin_def ex_running_def is_finished_def)
  have "\<exists>t l2. running l1 = {t} \<and> life_step False l1 l2 \<and> running l2 = {}
      \<and> stop_end t l2 = (Ok () :: (_, (unit, unit, unit) accept_xmr_error) result, l2\<lparr>lc_lock := Free\<rparr>)
      \<and> lc_commands l2 = [] \<and> lc_handle l2 = None"
    using stop_ends_scanning [OF ok _ _ l1] by (simp add: ex_running_def)
  then show ?thesis unfolding l1 by auto
qed



text \<open>
  C26. The scanning task looks for every subaddress that matters.  At each turn its table, made for an
  earlier highest index, is brought up to the pool's highest index; below the saturated indices it
  then has the subaddress of every tracked invoice and every subaddress a new invoice may get.
\<close>

theorem task_watches_every_subaddress:
  assumes "gw_ok im_wf im_invoice_map addr g" and "gw_store g = Some s"
    and "maj = major_index (gw_subaddresses g)" and "hi = highest_minor_index (gw_subaddresses g)"
    and "maj \<noteq> - 1" and "hi \<noteq> - 1" and "h0 \<le> hi"
  shows "available (gw_subaddresses g) \<union> sub_index ` dom (gw_invoices g)
    \<subseteq> set (refresh_checker maj hi (checker_for maj h0))"
proof -
  have "pool_ok addr (im_invoice_map s) (gw_subaddresses g)" using assms(1,2) by (simp add: gw_ok_def)
  then show ?thesis
    unfolding refresh_checker_covers [OF assms(5-7)] set_checker_for [OF assms(5,6)]
    using assms(2-4) by (auto simp: gw_invoices_def pool_ok_def sc_wf_def)
qed

theorem task_watches_every_subaddress_witness:
  "SubIndex 0 99 \<in> set (refresh_checker 0 99 (checker_for 0 7))"
proof -
  have hi: "highest_minor_index (gw_subaddresses (ex_gateway 0)) = 99"
    by (simp add: ex_gateway_def cache_from_used_def max_sub_index_def MIN_AVAILABLE_SUBADDRESSES_def Let_def max_def)
  have "SubIndex 0 99 \<in> available (gw_subaddresses (ex_gateway 0))"
    using hi by (simp add: ex_gateway_def cache_from_used_available)
  moreover have "gw_store (ex_gateway 0) = Some im_new" "0 = major_index (gw_subaddresses (ex_gateway 0))"
    by (simp_all add: ex_gateway_def major_cache_from_used)
  ultimately show ?thesis
    using task_watches_every_subaddress [OF ex_gateway_ok _ _ hi [symmetric], of im_new 0 7] by auto
qed

end
