(* ===== verification/System.thy ===== *)
theory System
  imports Http_Server Backpressure Lifecycle
begin

text \<open>
  The running server: the gateway with its scanner, the two HTTP servers, the task that watches all
  updates and the callback queue, as \<open>entrypoint\<close> and \<open>spawn_gateway\<close> of \<open>server/src/lib.rs\<close> put them
  together.

  \<open>sys_step\<close> interleaves requests, scans, turns of the watching task, the tasks of the callback queue
  and the receivers of websockets.  A request and a scan are one step each; their parts are interleaved
  in \<open>Interleaving\<close>.
\<close>

section \<open>The system\<close>

record ('s, 'g, 'w, 'c) system =
  sys_gateway :: "('s, 'g, 'w) gateway"
  sys_scanner :: "('s, 'w) scanner"
  sys_queue :: "'c callback_queue"
  sys_watcher :: "nat option"
    \<comment> \<open>the channel of the watching task, once it has subscribed\<close>

text \<open>The scanner holds the store, the publisher and the cached heights of the gateway.\<close>

definition share :: "('s, 'g, 'w) gateway \<Rightarrow> ('s, 'w) scanner \<Rightarrow> ('s, 'w) scanner" where
  "share g sc = sc\<lparr>sc_store := gw_store g, sc_publisher := gw_publisher g, sc_channels := gw_channels g, sc_world := gw_world g\<rparr>"

definition publish :: "('s, 'w) scanner \<Rightarrow> ('s, 'g, 'w) gateway \<Rightarrow> ('s, 'g, 'w) gateway" where
  "publish sc g = g\<lparr>gw_store := sc_store sc, gw_publisher := sc_publisher sc, gw_channels := sc_channels sc,
     gw_cached_daemon_height := bc_daemon_height (sc_block_cache sc), gw_block_cache_height := bc_height (sc_block_cache sc),
     gw_world := sc_world sc\<rparr>"

text \<open>The scanner that \<open>run\<close> creates before it spawns the scanning task.\<close>

definition create_scanner ::
  "('s, 'e) storage \<Rightarrow> ('w, 'r) monerod \<Rightarrow> ('s, 'g, 'w) gateway
     \<Rightarrow> (('s, 'w) scanner, ('e, 'r, 'm) scanner_error) result \<times> publisher \<times> ('s option \<times> 'w)" where
  "create_scanner S D g =
     scanner_new S D DEFAULT_BLOCK_CACHE_SIZE (gw_initial_height g) (gw_publisher g) (gw_channels g) (gw_store g, gw_world g)"

text \<open>
  \<open>spawn_gateway\<close>: \<open>run\<close> of a gateway that is not running creates the scanner.  The watching task is
  spawned; it subscribes to all updates when it first runs, which may be after the first scans.
\<close>

definition spawn_gateway ::
  "('s, 'e) storage \<Rightarrow> ('w, 'r) monerod \<Rightarrow> 'c \<Rightarrow> ('s, 'g, 'w) gateway
     \<Rightarrow> (('s, 'g, 'w, 'c) system, unit) result" where
  "spawn_gateway S D cw g =
     (case create_scanner S D g :: (_, ('e, 'r, unit) scanner_error) result \<times> _ of
        (Ok sc, _) \<Rightarrow>
          Ok \<lparr>sys_gateway = publish sc g, sys_scanner = sc, sys_queue = callback_queue_init cw, sys_watcher = None\<rparr>
      | _ \<Rightarrow> Panic)"

text \<open>A new subscription has a sender identifier and a channel of its own.\<close>

definition fresh_sender :: "sender_id \<Rightarrow> nat \<Rightarrow> publisher \<Rightarrow> bool" where
  "fresh_sender sid c pub \<longleftrightarrow> (\<forall>j. sid \<notin> fst ` set (senders j pub)) \<and> (\<forall>j. c \<notin> sender_chans j pub)"

text \<open>
  \<open>entrypoint\<close>: load the configuration, build and spawn the gateway, build both servers.  Any failure on
  the way ends the process.
\<close>

definition entrypoint ::
  "(string \<Rightarrow> ('k, 'p) result) \<Rightarrow> env \<Rightarrow> (('a, 'u) config, ('i, 'y) config_error) result
     \<Rightarrow> (('a, 'u) config \<Rightarrow> (('s, 'g, 'w) gateway, unit) result) \<Rightarrow> ('s, 'e) storage \<Rightarrow> ('w, 'r) monerod \<Rightarrow> 'c
     \<Rightarrow> (string \<Rightarrow> 16 word \<Rightarrow> 'f \<Rightarrow> ('l, 'o) result \<times> 'f) \<Rightarrow> ('f, 'fe, 'x, 'cert, 'ch, 'key, 't) tls_env \<Rightarrow> 'f
     \<Rightarrow> (('s, 'g, 'w, 'c) system \<times> ('a, 'u) config \<times> ('l, 't) http_server \<times> ('l, 't) http_server, exit) result" where
  "entrypoint parse_key env file build_gw S D cw bind T fs =
     and_then (expecting (load_config parse_key env file)) (\<lambda>c.
     and_then (expecting (build_gw c)) (\<lambda>g.
     and_then (expecting (spawn_gateway S D cw g)) (\<lambda>s.
     map_ok (\<lambda>(esrv, isrv). (s, c, esrv, isrv)) (fst (build_server bind T c fs)))))"

inductive sys_step ::
  "axum_env \<Rightarrow> ('d, 'j) api_env \<Rightarrow> ('s, 'e) storage \<Rightarrow> ('w, 'r) monerod \<Rightarrow> (sub_index \<Rightarrow> string) \<Rightarrow> (nat \<Rightarrow> 'g \<Rightarrow> nat \<times> 'g)
     \<Rightarrow> (transaction \<Rightarrow> (owned_tx_out list, unit) result) \<Rightarrow> ('c, 'q, 'x) callback_env \<Rightarrow> (nat \<Rightarrow> nat)
     \<Rightarrow> ('a, 'u) config \<Rightarrow> ('l, 't) http_server set
     \<Rightarrow> ('s, 'g, 'w, 'c) system \<Rightarrow> ('s, 'g, 'w, 'c) system \<Rightarrow> bool"
  for X A S D addr gen_range owned E grow cfg servers where
  subscribed: "sys_watcher s = None \<Longrightarrow> fresh_sender sid c (gw_publisher (sys_gateway s))
    \<Longrightarrow> gw_subscribe_all sid c (sys_gateway s) = (w, g')
    \<Longrightarrow> sys_step X A S D addr gen_range owned E grow cfg servers s (s\<lparr>sys_gateway := g', sys_watcher := Some w\<rparr>)"
| request: "srv \<in> servers \<Longrightarrow> sys_watcher s \<noteq> Some c \<Longrightarrow> fresh_sender sid c (gw_publisher (sys_gateway s))
    \<Longrightarrow> serve_request X A S D addr gen_range sid c srv rq (sys_gateway s) = Some (r, g')
    \<Longrightarrow> sys_step X A S D addr gen_range owned E grow cfg servers s (s\<lparr>sys_gateway := g'\<rparr>)"
| scanned: "scan S D owned (share (sys_gateway s) (sys_scanner s)) = (r :: (_, ('e, 'r, unit) scanner_error) result, sc)
    \<Longrightarrow> sys_step X A S D addr gen_range owned E grow cfg servers s
          (s\<lparr>sys_gateway := publish sc (sys_gateway s), sys_scanner := sc\<rparr>)"
| watched: "sys_watcher s = Some w \<Longrightarrow> recv w (gw_publisher (sys_gateway s)) (gw_channels (sys_gateway s)) = Some (Some v, chans)
    \<Longrightarrow> watch_update S (queue_size (callback_cfg cfg)) (delete_expired (database cfg)) v
          ((sys_gateway s)\<lparr>gw_channels := chans\<rparr>, sys_queue s) = Some (Ok (), (g', q'))
    \<Longrightarrow> sys_step X A S D addr gen_range owned E grow cfg servers s (s\<lparr>sys_gateway := g', sys_queue := q'\<rparr>)"
| called_back: "cq_task E grow (queue_size (callback_cfg cfg)) (max_retries (callback_cfg cfg)) (sys_queue s) q'
    \<Longrightarrow> sys_step X A S D addr gen_range owned E grow cfg servers s (s\<lparr>sys_queue := q'\<rparr>)"
| client_took: "sys_watcher s \<noteq> Some c \<Longrightarrow> recv c (gw_publisher (sys_gateway s)) (gw_channels (sys_gateway s)) = Some (v, chans)
    \<Longrightarrow> sys_step X A S D addr gen_range owned E grow cfg servers s (s\<lparr>sys_gateway := (sys_gateway s)\<lparr>gw_channels := chans\<rparr>\<rparr>)"
| client_left: "sys_watcher s \<noteq> Some c
    \<Longrightarrow> sys_step X A S D addr gen_range owned E grow cfg servers s
          (s\<lparr>sys_gateway := (sys_gateway s)\<lparr>gw_channels := (gw_channels (sys_gateway s))(c := (gw_channels (sys_gateway s) c)\<lparr>closed := True\<rparr>)\<rparr>\<rparr>)"

section \<open>What requests do to the gateway\<close>

lemma api_new_invoice_gw:
  assumes "api_new_invoice A S D addr gen_range p g = Some (r :: (_, (('e, 'r, 'm) accept_xmr_error, 'd, 'j) api_error) result, g')"
  shows "g' = g \<or> (\<exists>d ri. new_invoice S D addr gen_range (piconeros_due p) (params_confirmations p) (params_expiration_in p) d g
      = Some (ri :: (_, ('e, 'r, 'm) accept_xmr_error) result, g'))"
  using assms by (auto simp: api_new_invoice_def Let_def split: result.splits)

lemma api_delete_invoice_gw:
  assumes "api_delete_invoice A S t g = (r :: (_, (('e, 'r, 'm) accept_xmr_error, 'd, 'j) api_error) result, g')"
  shows "g' = g \<or> (\<exists>i ri. remove_invoice S i g = (ri :: (_, ('e, 'r, 'm) accept_xmr_error) result, g'))"
proof (cases "invoice_id_from_str (ae_decode A) t")
  case (Ok i)
  obtain ri g1 where rm: "remove_invoice S i g = (ri :: (_, ('e, 'r, 'm) accept_xmr_error) result, g1)" by force
  then have "g' = g1" using assms Ok by (cases ri) (auto simp: api_delete_invoice_def rm)
  with rm show ?thesis by blast
qed (use assms in \<open>simp_all add: api_delete_invoice_def\<close>)

lemma handler_gw:
  fixes S :: "('s, 'e) storage" and D :: "('w, 'r) monerod"
  assumes "run_handler X A S D addr gen_range sid c h rq g = Some (r, g')"
  shows "only_read g g'
    \<or> (\<exists>amt confs ex d ri. new_invoice S D addr gen_range amt confs ex d g = Some (ri :: (_, ('e, 'r, unit) accept_xmr_error) result, g'))
    \<or> (\<exists>i ri. remove_invoice S i g = (ri :: (_, ('e, 'r, unit) accept_xmr_error) result, g'))"
proof (cases h)
  case NewInvoice
  with assms show ?thesis by (auto dest!: api_new_invoice_gw split: option.splits)
next
  case DeleteInvoice
  with assms show ?thesis by (auto simp: with_id_def dest!: api_delete_invoice_gw split: option.splits prod.splits)
qed (use assms handler_only_reads [OF _ assms] in \<open>auto simp: reads_def\<close>)

lemma watch_update_gw:
  fixes S :: "('s, 'e) storage"
  assumes "watch_update S n del v (g, q) = Some (Ok (), (g', q'))"
  shows "callback_send n (Call v 0 0) q = Some (Ok (), q')"
    and "g' = g \<or> (\<exists>ri. remove_invoice S (invoice_ident v) g = (ri :: (_, ('e, unit, unit) accept_xmr_error) result, g'))"
proof -
  show "callback_send n (Call v 0 0) q = Some (Ok (), q')"
    using assms by (auto simp: watch_update_def split: option.splits result.splits if_splits prod.splits)
  have "g' = g \<or> g' = snd (remove_invoice S (invoice_ident v) g :: (_, ('e, unit, unit) accept_xmr_error) result \<times> _)"
    using assms by (auto simp: watch_update_def split: option.splits result.splits if_splits prod.splits)
  then show "g' = g \<or> (\<exists>ri. remove_invoice S (invoice_ident v) g = (ri :: (_, ('e, unit, unit) accept_xmr_error) result, g'))"
    by (metis prod.collapse)
qed

context full_storage
begin

lemma only_read_ok: "only_read g g' \<Longrightarrow> gw_ok wf invoices addr g \<Longrightarrow> gw_ok wf invoices addr g'"
  by (auto simp: only_read_def gw_ok_def)

lemma serve_request_ok:
  assumes "serve_request X A S D addr gen_range sid c srv rq g = Some (r, g')"
    and "gw_ok wf invoices addr g" and "draws_in_range gen_range"
  shows "gw_ok wf invoices addr g'"
proof (cases "g' = g")
  case False
  then obtain h where "run_handler X A S D addr gen_range sid c h rq g = Some (r, g')"
    using assms(1) by (auto simp: serve_request_def split: option.splits result.splits)
  from handler_gw [OF this] show ?thesis
    using assms(2,3) only_read_ok new_invoice_ok remove_invoice_ok by blast
qed (use assms in simp)

lemma sys_step_ok:
  assumes "sys_step X A S D addr gen_range owned E grow cfg servers s s'"
    and ok: "gw_ok wf invoices addr (sys_gateway s)" and gen: "draws_in_range gen_range"
  shows "gw_ok wf invoices addr (sys_gateway s')"
  using assms(1)
proof (cases rule: sys_step.cases)
  case (subscribed sid c w g')
  then show ?thesis using ok by (auto simp: gw_ok_def gw_subscribe_all_def subscribe_all_def Let_def split: prod.splits)
next
  case (request srv c sid rq r g')
  then show ?thesis using serve_request_ok ok gen by simp
next
  case (scanned r sc)
  let ?g = "sys_gateway s"
  have "gw_step S D addr gen_range owned ?g (publish sc ?g)"
    unfolding publish_def by (rule step_scan [OF _ scanned(2)]) (simp add: share_def)
  from gw_step_ok [OF this ok gen] scanned show ?thesis by simp
next
  case (watched w v chans g' q')
  have "gw_ok wf invoices addr ((sys_gateway s)\<lparr>gw_channels := chans\<rparr>)" using ok by (simp add: gw_ok_def)
  with watch_update_gw(2) [OF watched(4)] have "gw_ok wf invoices addr g'" using remove_invoice_ok by blast
  with watched(1) show ?thesis by simp
qed (use ok in \<open>auto simp: gw_ok_def\<close>)

end

section \<open>The way of an update to the callbacks\<close>

text \<open>
  Once it has subscribed, the watching task is the one subscriber to all updates, and its receiver is
  alive; before that there is none.
\<close>

definition wired :: "nat option \<Rightarrow> publisher \<times> channels \<Rightarrow> bool" where
  "wired wo pc \<longleftrightarrow> publisher_wf (fst pc)
     \<and> (case wo of None \<Rightarrow> senders None (fst pc) = []
        | Some w \<Rightarrow> (\<exists>sid. senders None (fst pc) = [(sid, w)]) \<and> \<not> closed (snd pc w))"

text \<open>The updates the task has not received yet.\<close>

definition waiting :: "nat option \<Rightarrow> channels \<Rightarrow> invoice list" where
  "waiting wo chans = (case wo of None \<Rightarrow> [] | Some w \<Rightarrow> queue (chans w))"

lemma waiting_simps [simp]: "waiting None chans = []" "waiting (Some w) chans = queue (chans w)"
  by (simp_all add: waiting_def)

text \<open>Nothing is taken out of the channel: what was queued is still queued, in front of what came.\<close>

definition wired_le :: "nat option \<Rightarrow> publisher \<times> channels \<Rightarrow> publisher \<times> channels \<Rightarrow> bool" where
  "wired_le wo pc pc' \<longleftrightarrow> (wired wo pc \<longrightarrow> wired wo pc' \<and> (\<exists>us. waiting wo (snd pc') = waiting wo (snd pc) @ us))"

lemma wired_le_refl [simp]: "wired_le w pc pc"
  by (simp add: wired_le_def)

lemma wired_le_trans: "wired_le w a b \<Longrightarrow> wired_le w b c \<Longrightarrow> wired_le w a c"
  by (auto simp: wired_le_def)

lemma wired_le_publisher [simp]:
  "wired_le w (pub, chans) (publisher_insert_invoice i pub, chans)" "wired_le w (pub, chans) (publisher_remove_invoice i pub, chans)"
  by (auto simp: wired_le_def wired_def intro: publisher_wf_insert_invoice publisher_wf_remove_invoice split: option.splits)

lemma wired_le_subscribe:
  assumes "subscribe i sid c pub chans = (r, pub', chans')" and "w \<noteq> Some c" and "fresh_sender sid c pub"
  shows "wired_le w (pub, chans) (pub', chans')"
proof -
  have fresh: "sid \<notin> fst ` set (senders (Some i) pub)" "\<And>j. c \<notin> sender_chans j pub" using assms(3) by (auto simp: fresh_sender_def)
  have "publisher_wf pub \<Longrightarrow> publisher_wf pub'" using publisher_wf_subscribe [OF _ fresh, of chans] assms(1) by simp
  moreover have "senders None pub' = senders None pub" using senders_subscribe [OF fresh(1) assms(1), of None] by simp
  moreover have "\<And>x. w = Some x \<Longrightarrow> chans' x = chans x" using assms(1,2) by (auto simp: subscribe_def Let_def split: option.splits)
  ultimately show ?thesis by (auto simp: wired_le_def wired_def split: option.splits)
qed

lemma wired_send:
  assumes "wired wo (pub, chans)" and "send_updates v pub chans = (pub', chans')"
  shows "wired wo (pub', chans') \<and> waiting wo chans' = waiting wo chans @ (if wo = None then [] else [v])"
proof -
  have wf: "publisher_wf pub" using assms(1) by (simp add: wired_def)
  note kept = send_updates_senders_chans(1) [OF wf assms(2), of None]
  have wf': "publisher_wf pub'" using publisher_wf_send_updates [OF wf, of v chans] assms(2) by simp
  show ?thesis
  proof (cases wo)
    case None
    with assms(1) wf' kept show ?thesis by (simp add: wired_def)
  next
    case (Some w)
    with assms(1) obtain sid where s: "senders None pub = [(sid, w)]" and o: "\<not> closed (chans w)" by (auto simp: wired_def)
    then have "w \<in> sender_chans None pub" by (simp add: sender_chans_def)
    then show ?thesis
      using send_updates_senders_chans(2) [OF wf assms(2)] kept s o wf' Some by (simp add: wired_def deliver_def)
  qed
qed

abbreviation wires :: "('s, 'w) scanner \<Rightarrow> publisher \<times> channels" where
  "wires sc \<equiv> (sc_publisher sc, sc_channels sc)"

lemma save_invoices_wired: "wired_le w (wires self) (wires (save_invoices S vs self))"
proof (induction vs arbitrary: self)
  case (Cons v vs)
  obtain r mgr where upd: "client_update_invoice S v (sc_store self) = (r, mgr)" by force
  obtain p c where sent: "send_updates v (sc_publisher self) (sc_channels self) = (p, c)" by force
  have "wired_le w (wires self) (p, c)" using wired_send [OF _ sent] by (auto simp: wired_le_def)
  from wired_le_trans [OF this] Cons [of "self\<lparr>sc_store := mgr, sc_publisher := p, sc_channels := c\<rparr>"]
    Cons [of "self\<lparr>sc_store := mgr\<rparr>"]
  show ?case using upd sent by (cases r) (simp_all del: client_calls)
qed simp

lemma on_store_wires [simp]: "wires (snd (on_store f self)) = wires self"
  by (simp add: on_store_def split: prod.splits)

lemma apply_transfers_wired: "wired_le w (wires self) (wires (snd (apply_transfers S ts k self)))"
proof -
  let ?P = "\<lambda>s. wired_le w (wires self) (wires s)"
  have save: "?P (save_invoices S vs s)" if "?P s" for vs s using wired_le_trans [OF that save_invoices_wired] .
  show ?thesis
    unfolding apply_transfers_def Let_def
    by (auto split: prod.splits intro!: try_st_snd [where P = ?P] save simp del: client_calls)
qed

lemma update_caches_wires [simp]: "wires (snd (update_caches D self)) = wires self"
proof -
  have "wires (snd (update_caches D self)) = wires self \<and> True"
    unfolding update_caches_def Let_def
    by (auto split: prod.splits intro!: try_st_snd [where P = "\<lambda>s. sc_publisher s = sc_publisher self"]
        try_st_snd [where P = "\<lambda>s. sc_channels s = sc_channels self"])
  then show ?thesis by simp
qed

lemma find_transfers_wires [simp]: "wires (snd (find_transfers S owned k txs self)) = wires self"
proof -
  have "wires (snd (find_transfers S owned k txs self)) = wires self \<and> True"
    unfolding find_transfers_def Let_def
    by (auto split: prod.splits intro!: try_st_snd [where P = "\<lambda>s. sc_publisher s = sc_publisher self"]
        try_st_snd [where P = "\<lambda>s. sc_channels s = sc_channels self"])
  then show ?thesis by simp
qed

lemma scan_wired: "wired_le w (wires self) (wires (snd (scan S D owned self)))"
proof -
  let ?P = "\<lambda>s. wired_le w (wires self) (wires s)"
  have find: "?P (snd (find_transfers S owned k txs s))" if "?P s" for k txs s using that by simp
  have app: "?P (snd (apply_transfers S ts k s))" if "?P s" for ts k s using wired_le_trans [OF that apply_transfers_wired] .
  show ?thesis
    unfolding scan_def by (intro try_st_snd [where P = ?P]) (auto intro!: try_st_snd [where P = ?P] find app split: prod.split)
qed

abbreviation gw_wires :: "('s, 'g, 'w) gateway \<Rightarrow> publisher \<times> channels" where
  "gw_wires g \<equiv> (gw_publisher g, gw_channels g)"

lemma new_invoice_wired:
  assumes "new_invoice S D addr gen_range amt confs ex d g = Some (r, g')"
  shows "wired_le w (gw_wires g) (gw_wires g')"
proof -
  obtain rr pool where rr: "remove_random addr gen_range (gw_subaddresses g) = Some (rr, pool)"
    using assms by (auto simp: new_invoice_def split: option.splits)
  obtain rh w where h: "creation_height_of D g = (rh, w)" by force
  show ?thesis
  proof (cases rr)
    case (Ok p)
    with rr obtain idx a where d: "remove_random addr gen_range (gw_subaddresses g) = Some (Ok (idx, a), pool)" by (cases p) simp
    show ?thesis using assms unfolding new_invoice_after_draw [OF d h] by (auto simp: Let_def split: result.splits prod.splits)
  qed (use assms rr in \<open>auto simp: new_invoice_def Let_def\<close>)
qed

lemma remove_invoice_wired:
  assumes "remove_invoice S i g = (r, g')"
  shows "wired_le w (gw_wires g) (gw_wires g')"
proof -
  obtain rr m where rm: "client_remove_invoice S i (gw_store g) = (rr, m)" by force
  show ?thesis using assms rm by (cases rr) (auto simp: remove_invoice_def Let_def simp del: client_calls split: option.splits)
qed

lemma websocket_wired:
  assumes "api_websocket A t sid c g = (r, g')" and "w \<noteq> Some c" and "fresh_sender sid c (gw_publisher g)"
  shows "wired_le w (gw_wires g) (gw_wires g')"
proof (cases "invoice_id_from_str (ae_decode A) t")
  case (Ok i)
  obtain r' p ch where sub: "subscribe i sid c (gw_publisher g) (gw_channels g) = (r', p, ch)" by (metis prod_cases3)
  from assms(1) Ok have "gw_wires g' = (p, ch)" by (auto simp: api_websocket_def gw_subscribe_def sub)
  then show ?thesis using wired_le_subscribe [OF sub assms(2,3)] by simp
qed (use assms(1) in \<open>simp_all add: api_websocket_def\<close>)

lemma reading_wires [simp]:
  "gw_publisher (snd (gw_get_invoice S i g)) = gw_publisher g" "gw_publisher (snd (gw_get_invoice_ids S g)) = gw_publisher g"
  "gw_channels (snd (gw_get_invoice S i g)) = gw_channels g" "gw_channels (snd (gw_get_invoice_ids S g)) = gw_channels g"
  by (simp_all add: gw_get_invoice_def gw_get_invoice_ids_def split: prod.splits)

lemma try_field: "(\<And>a. f (snd (k a g')) = f g) \<Longrightarrow> f g' = f g \<Longrightarrow> f (snd (try_st (r, g') k)) = f g"
  by (cases r) simp_all

lemma api_publisher:
  "gw_publisher (snd (api_get_invoice_status A S t g)) = gw_publisher g" "gw_publisher (snd (api_invoice_ids A S g)) = gw_publisher g"
  "gw_publisher (snd (api_pay A S t g)) = gw_publisher g"
  unfolding api_get_invoice_status_def api_invoice_ids_def api_pay_def
  by (auto intro!: try_field [where f = gw_publisher] simp: split_beta Let_def split: option.split result.split)

lemma api_channels:
  "gw_channels (snd (api_get_invoice_status A S t g)) = gw_channels g" "gw_channels (snd (api_invoice_ids A S g)) = gw_channels g"
  "gw_channels (snd (api_pay A S t g)) = gw_channels g"
  unfolding api_get_invoice_status_def api_invoice_ids_def api_pay_def
  by (auto intro!: try_field [where f = gw_channels] simp: split_beta Let_def split: option.split result.split)

lemma api_wired:
  "api_get_invoice_status A S t g = (r1, g') \<Longrightarrow> wired_le w (gw_wires g) (gw_wires g')"
  "api_invoice_ids A S g = (r2, g') \<Longrightarrow> wired_le w (gw_wires g) (gw_wires g')"
  "api_pay A S t g = (r3, g') \<Longrightarrow> wired_le w (gw_wires g) (gw_wires g')"
  by (metis api_publisher(1) api_channels(1) snd_conv wired_le_refl, metis api_publisher(2) api_channels(2) snd_conv wired_le_refl,
      metis api_publisher(3) api_channels(3) snd_conv wired_le_refl)

lemma api_new_wired: "api_new_invoice A S D addr gen_range p g = Some (r, g') \<Longrightarrow> wired_le w (gw_wires g) (gw_wires g')"
  using new_invoice_wired by (auto dest!: api_new_invoice_gw)

lemma api_delete_wired: "api_delete_invoice A S t g = (r, g') \<Longrightarrow> wired_le w (gw_wires g) (gw_wires g')"
  using remove_invoice_wired by (auto dest!: api_delete_invoice_gw)

lemma handler_wired:
  assumes "run_handler X A S D addr gen_range sid c h rq g = Some (r, g')" and "w \<noteq> Some c" and "fresh_sender sid c (gw_publisher g)"
  shows "wired_le w (gw_wires g) (gw_wires g')"
  using assms(1) api_wired api_new_wired api_delete_wired websocket_wired [OF _ assms(2,3)]
  by (cases h) (auto simp: with_id_def split: option.splits prod.splits)

lemma serve_request_wired:
  assumes "serve_request X A S D addr gen_range sid c srv rq g = Some (r, g')" and "w \<noteq> Some c" and "fresh_sender sid c (gw_publisher g)"
  shows "wired_le w (gw_wires g) (gw_wires g')"
  using assms(1) handler_wired [OF _ assms(2,3)] by (auto simp: serve_request_def split: option.splits result.splits)

section \<open>Conservation of updates\<close>

definition sys_wired :: "('s, 'g, 'w, 'c) system \<Rightarrow> bool" where
  "sys_wired s \<longleftrightarrow> wired (sys_watcher s) (gw_wires (sys_gateway s)) \<and> in_service (sys_queue s)"

text \<open>The updates on their way: those the watching task has not received, and those not yet reported.\<close>

definition under_way :: "('s, 'g, 'w, 'c) system \<Rightarrow> invoice multiset" where
  "under_way s = mset (waiting (sys_watcher s) (gw_channels (sys_gateway s))) + pending (sys_queue s)"

lemma wired_leD:
  assumes "wired_le w pc pc'" and "wired w pc"
  shows "wired w pc'" and "mset (waiting w (snd pc)) \<subseteq># mset (waiting w (snd pc'))"
  using assms by (auto simp: wired_le_def)

lemma grows:
  assumes "wired_le (sys_watcher s) (gw_wires (sys_gateway s)) (gw_wires g')" and "sys_wired s"
  shows "sys_wired (s\<lparr>sys_gateway := g'\<rparr>) \<and> under_way s \<subseteq># under_way (s\<lparr>sys_gateway := g'\<rparr>)"
  using wired_leD [OF assms(1)] assms(2) by (auto simp: sys_wired_def under_way_def)

lemma wired_subscribe_all:
  assumes "wired None (gw_wires g)" and "fresh_sender sid c (gw_publisher g)" and "gw_subscribe_all sid c g = (w, g')"
  shows "wired (Some w) (gw_wires g')"
proof -
  let ?pub = "gw_publisher g"
  have wf: "publisher_wf ?pub" and none: "senders None ?pub = []" using assms(1) by (simp_all add: wired_def)
  obtain r p ch where sub: "subscribe_all sid c ?pub (gw_channels g) = (r, p, ch)" by (metis prod_cases3)
  have fresh: "sid \<notin> fst ` set (senders None ?pub)" "\<And>j. c \<notin> sender_chans j ?pub" using assms(2) by (simp_all add: fresh_sender_def)
  have "publisher_wf p" using publisher_wf_subscribe_all [OF wf fresh, of "gw_channels g"] sub by simp
  moreover have "senders None p = [(sid, c)]" using senders_subscribe_all [OF fresh(1) sub, of None] none by simp
  moreover have "gw_wires g' = (p, ch)" "w = c" "\<not> closed (ch c)"
    using assms(3) sub by (auto simp: gw_subscribe_all_def subscribe_all_def)
  ultimately show ?thesis by (simp add: wired_def)
qed

lemma sys_step_conserves:
  assumes "sys_step X A S D addr gen_range owned E grow cfg servers s s'" and ok: "sys_wired s"
  shows "sys_wired s' \<and> (under_way s \<subseteq># under_way s'
    \<or> (\<exists>v b w'. under_way s = add_mset v (under_way s') \<and> callback E v (cq_world (sys_queue s)) = (Ok b, w')))"
  using assms(1)
proof (cases rule: sys_step.cases)
  case (subscribed sid c w g')
  from wired_subscribe_all [OF _ subscribed(3,4)] ok subscribed(1,2) show ?thesis by (simp add: sys_wired_def under_way_def)
next
  case (request srv c sid rq r g')
  from grows [OF serve_request_wired [OF request(5,3,4)] ok] request(1) show ?thesis by blast
next
  case (scanned r sc)
  have "wired_le (sys_watcher s) (gw_wires (sys_gateway s)) (gw_wires (publish sc (sys_gateway s)))"
    using scan_wired [of "sys_watcher s" "share (sys_gateway s) (sys_scanner s)" S D owned] scanned(2)
    by (simp add: share_def publish_def)
  from grows [OF this ok] scanned(1) show ?thesis by (simp add: sys_wired_def under_way_def)
next
  case (watched w v chans g' q')
  let ?w = "sys_watcher s" and ?g = "(sys_gateway s)\<lparr>gw_channels := chans\<rparr>"
  have q: "queue (gw_channels (sys_gateway s) w) = v # queue (chans w)" "closed (chans w) = closed (gw_channels (sys_gateway s) w)"
    using watched(3) by (auto simp: recv_def split: list.splits if_splits)
  have w: "wired ?w (gw_wires ?g)" using ok q(2) watched(2) by (simp add: sys_wired_def wired_def)
  from watch_update_gw(2) [OF watched(4)] have "wired_le ?w (gw_wires ?g) (gw_wires g')"
  proof (elim disjE exE)
    assume "g' = ?g"
    then show ?thesis by simp
  qed (rule remove_invoice_wired)
  from wired_leD [OF this w] accepted [OF watch_update_gw(1) [OF watched(4)]] ok q(1) watched(1,2)
  show ?thesis by (auto simp: sys_wired_def under_way_def)
next
  case (called_back q')
  from pending_task [OF called_back(2)] in_service_task [OF called_back(2)] ok called_back(1)
  show ?thesis by (auto simp: sys_wired_def under_way_def)
next
  case (client_took c v chans)
  then have "\<And>w. sys_watcher s = Some w \<Longrightarrow> chans w = gw_channels (sys_gateway s) w"
    by (auto simp: recv_def split: list.splits if_splits)
  with client_took ok show ?thesis by (auto simp: sys_wired_def under_way_def wired_def split: option.splits)
next
  case (client_left c)
  with ok show ?thesis by (auto simp: sys_wired_def under_way_def wired_def split: option.splits)
qed

section \<open>Scans report what they change\<close>

context reliable_storage
begin

lemma save_invoices_reports:
  assumes "wf s" and "sc_store self = Some s" and "wired (Some w) (wires self)"
  shows "queue (sc_channels (save_invoices S vs self) w) = queue (sc_channels self w) @ vs"
  using assms
proof (induction vs arbitrary: self s)
  case (Cons v vs)
  obtain old s1 where u: "inv_update S v s = (Ok old, s1)" using update_returns [OF Cons.prems(1)] by blast
  have wf1: "wf s1" using update_wf [OF Cons.prems(1), of v] u by simp
  obtain p c where sent: "send_updates v (sc_publisher self) (sc_channels self) = (p, c)" by force
  let ?self = "self\<lparr>sc_store := Some s1, sc_publisher := p, sc_channels := c\<rparr>"
  have "save_invoices S (v # vs) self = save_invoices S vs ?self" using Cons.prems(2) by (simp add: direct_def u sent)
  moreover have "wired (Some w) (wires ?self)" "queue (sc_channels ?self w) = queue (sc_channels self w) @ [v]"
    using wired_send [OF Cons.prems(3) sent] by simp_all
  ultimately show ?case using Cons.IH [OF wf1, of ?self] by simp
qed simp

lemma apply_transfers_reports:
  assumes wf: "wf s" and store: "sc_store self = Some s" and w: "wired (Some w) (wires self)"
    and run: "apply_transfers S ts k self = (Ok () :: (_, ('e, 'r, 'm) scanner_error) result, self')"
  shows "\<exists>us s'. sc_store self' = Some s' \<and> queue (sc_channels self' w) = queue (sc_channels self w) @ us
    \<and> (\<forall>i v v'. invoices s i = Some v \<longrightarrow> invoices s' i = Some v' \<longrightarrow> v' \<noteq> v \<longrightarrow> v' \<in> set us)"
proof -
  let ?H = "bc_height (sc_block_cache self)"
  let ?d = "?H - of_nat k + 1"
  obtain olds where rows: "inv_rows S s = Ok (map Ok olds)" using rows_return [OF wf] by blast
  let ?vs = "updated_invoices ts ?d ?H olds"
  have self: "self\<lparr>sc_store := Some s\<rparr> = self" using store by (cases self) simp
  have "wires self' = wires (save_invoices S ?vs self)"
    using run by (auto simp: apply_transfers_def store update_invoices_rows [OF rows] self Let_def try_st_eq_Ok simp del: client_calls)
      (metis on_store_wires snd_conv prod.inject)+
  then have q: "queue (sc_channels self' w) = queue (sc_channels self w) @ ?vs"
    using save_invoices_reports [OF wf store w] by simp
  obtain s' where s': "sc_store self' = Some s'" "invoices s' = (\<lambda>i. map_option (refresh ts ?d ?H) (invoices s i))"
    using apply_transfers_effect [OF wf store run refl] by blast
  have "v' \<in> set ?vs" if "invoices s i = Some v" "invoices s' i = Some v'" "v' \<noteq> v" for i v v'
  proof -
    have "v \<in> set olds" using rows_complete [OF wf rows that(1)] by auto
    moreover have "update_one ts ?d ?H v = Some v'" using that s'(2) by (auto simp: refresh_def split: option.splits)
    ultimately show ?thesis by (force simp: updated_invoices_def map_filter_def)
  qed
  with q s'(1) show ?thesis by blast
qed

lemma scan_reports:
  fixes self :: "('s, 'w) scanner" and D :: "('w, 'r) monerod"
    and owned :: "transaction \<Rightarrow> (owned_tx_out list, 'm) result"
  assumes wf: "wf s" and store: "sc_store self = Some s" and run: "scan S D owned self = (Ok (), self')"
    and w: "wired (Some w) (wires self)"
  shows "\<exists>us s'. sc_store self' = Some s' \<and> queue (sc_channels self' w) = queue (sc_channels self w) @ us
    \<and> (\<forall>i v v'. invoices s i = Some v \<longrightarrow> invoices s' i = Some v' \<longrightarrow> v' \<noteq> v \<longrightarrow> v' \<in> set us)"
proof -
  obtain k txs self1 ts self2 s2 where
      parts: "update_caches D self = (Ok (k, txs) :: (_, ('e, 'r, 'm) scanner_error) result, self1)"
        "find_transfers S owned k txs self1 = (Ok ts :: (_, ('e, 'r, 'm) scanner_error) result, self2)"
      and at: "apply_transfers S ts k self2 = (Ok () :: (_, ('e, 'r, 'm) scanner_error) result, self')"
      and s2: "sc_store self2 = Some s2" "wf s2" "invoices s2 = invoices s"
    by (rule scan_parts [OF wf store run])
  have "wires self2 = wires self" by (metis parts find_transfers_wires update_caches_wires snd_conv)
  with w apply_transfers_reports [OF s2(2,1) _ at, of w] show ?thesis by (simp add: s2(3))
qed

end

section \<open>Starting\<close>

lemma scanner_new_shared:
  fixes S :: "('s, 'e) storage" and D :: "('w, 'r) monerod"
  assumes "scanner_new S D n h pub chans (m, w) = (Ok sc :: (_, ('e, 'r, 'm) scanner_error) result, st')"
  shows "(sc_store sc = m \<or> sc_store sc = None) \<and> sc_channels sc = chans
    \<and> (\<exists>ids. sc_publisher sc = foldl (\<lambda>p i. publisher_insert_invoice i p) pub ids)"
proof -
  obtain rl m1 where l: "last_height S m = (rl :: (_, ('e, 'r, 'm) scanner_error) result, m1)" by force
  obtain ri m2 where i: "direct (reading (inv_get_ids S)) m1 = (ri, m2)" by force
  have "m1 = m \<or> m1 = None" "m2 = m1 \<or> m2 = None" using last_height_store l direct_reading_store i by blast+
  moreover have "sc_store sc = m2 \<and> sc_channels sc = chans
      \<and> (\<exists>ids. sc_publisher sc = foldl (\<lambda>p i. publisher_insert_invoice i p) pub ids)"
    using assms l i by (auto simp: scanner_new_def Let_def and_then_eq_Ok map_ok_eq_Ok split: prod.splits result.splits)
  ultimately show ?thesis by auto
qed

lemma inserted_wf: "publisher_wf pub \<Longrightarrow> publisher_wf (foldl (\<lambda>p i. publisher_insert_invoice i p) pub ids)"
  by (induction ids arbitrary: pub) (auto intro: publisher_wf_insert_invoice)

lemma inserted_none: "(\<And>j. senders j pub = []) \<Longrightarrow> senders j (foldl (\<lambda>p i. publisher_insert_invoice i p) pub ids) = []"
proof (induction ids arbitrary: pub)
  case (Cons i ids)
  have "senders j' (publisher_insert_invoice i pub) = []" for j' using Cons.prems by (cases j') auto
  then show ?case using Cons.IH by simp
qed simp

lemma spawned:
  fixes S :: "('s, 'e) storage" and D :: "('w, 'r) monerod"
  assumes "spawn_gateway S D cw g = Ok s"
  shows "gw_subaddresses (sys_gateway s) = gw_subaddresses g" and "sys_watcher s = None"
    and "sys_queue s = callback_queue_init cw"
    and "gw_store (sys_gateway s) = gw_store g \<or> gw_store (sys_gateway s) = None"
    and "\<exists>ids. gw_publisher (sys_gateway s) = foldl (\<lambda>p i. publisher_insert_invoice i p) (gw_publisher g) ids"
proof -
  obtain sc x where new: "scanner_new S D DEFAULT_BLOCK_CACHE_SIZE (gw_initial_height g) (gw_publisher g) (gw_channels g) (gw_store g, gw_world g)
      = (Ok sc :: (_, ('e, 'r, unit) scanner_error) result, x)"
    and "s = \<lparr>sys_gateway = publish sc g, sys_scanner = sc, sys_queue = callback_queue_init cw, sys_watcher = None\<rparr>"
    using assms by (auto simp: spawn_gateway_def create_scanner_def split: prod.splits result.splits)
  with scanner_new_shared [OF new]
  show "gw_subaddresses (sys_gateway s) = gw_subaddresses g" "sys_watcher s = None" "sys_queue s = callback_queue_init cw"
      "gw_store (sys_gateway s) = gw_store g \<or> gw_store (sys_gateway s) = None"
      "\<exists>ids. gw_publisher (sys_gateway s) = foldl (\<lambda>p i. publisher_insert_invoice i p) (gw_publisher g) ids"
    by (auto simp: publish_def)
qed

lemma spawned_ok:
  assumes "spawn_gateway S D cw g = Ok s" and "gw_ok sok invs addr g"
  shows "gw_ok sok invs addr (sys_gateway s)"
  using spawned(1,4) [OF assms(1)] assms(2) by (auto simp: gw_ok_def)

lemma spawned_fresh:
  assumes "spawn_gateway S D cw g = Ok s" and "gw_publisher g = publisher_new"
  shows "fresh_sender sid c (gw_publisher (sys_gateway s))"
proof -
  obtain ids where "gw_publisher (sys_gateway s) = foldl (\<lambda>p i. publisher_insert_invoice i p) publisher_new ids"
    using spawned(5) [OF assms(1)] assms(2) by auto
  then show ?thesis using inserted_none [of publisher_new] by (simp add: fresh_sender_def sender_chans_def)
qed

lemma spawned_wired:
  assumes "spawn_gateway S D cw g = Ok s" and "gw_publisher g = publisher_new"
  shows "sys_wired s"
proof -
  obtain ids where "gw_publisher (sys_gateway s) = foldl (\<lambda>p i. publisher_insert_invoice i p) publisher_new ids"
    using spawned(5) [OF assms(1)] assms(2) by auto
  then have "senders None (gw_publisher (sys_gateway s)) = []" "publisher_wf (gw_publisher (sys_gateway s))"
    using inserted_none [of publisher_new] inserted_wf [OF publisher_wf_new] by simp_all
  then show ?thesis
    by (simp add: sys_wired_def wired_def in_service_def callback_queue_init_def spawned(2,3) [OF assms(1)])
qed

lemma reachable_wired:
  assumes "(sys_step X A S D addr gen_range owned E grow cfg servers)\<^sup>*\<^sup>* s0 s" and "sys_wired s0"
  shows "sys_wired s"
  using assms by (induction rule: rtranclp_induct) (auto dest: sys_step_conserves)

text \<open>A gateway that was just built has a new publisher.\<close>

lemma build_publisher:
  "build S parse_uri parse_key parse_address get_subaddress ent fs b w = Ok g \<Longrightarrow> gw_publisher g = publisher_new"
  by (auto simp: build_def build_inner_def and_then_eq_Ok map_ok_eq_Ok split_beta)

lemma unwrapped: "(case r of Ok a \<Rightarrow> Ok a | _ \<Rightarrow> Panic) = Ok b \<longleftrightarrow> r = Ok b"
  by (cases r) auto

lemma build_gateway_publisher:
  assumes "build_gateway S parse_uri parse_key parse_address get_subaddress ent fs show_address show_uri dir opened c w = Ok g"
  shows "gw_publisher g = publisher_new"
  using assms by (cases opened) (auto simp: build_gateway_def and_then_eq_Ok unwrapped intro: build_publisher)

section \<open>Examples\<close>

text \<open>A gateway that tracks one invoice, and the server started with it; then its watching task runs.\<close>

definition ex_sold :: invoice where
  "ex_sold = invoice_new ''x'' (SubIndex 0 1) 3 10 2 20 ''d''"

definition ex_seller :: "invoice \<Rightarrow> (in_memory_store, unit, bool) gateway" where
  "ex_seller v = (ex_gateway 0)\<lparr>gw_store := Some (ex_store v), gw_subaddresses := cache_from_used (\<lambda>_. ''x'') 0 () [SubIndex 0 1],
     gw_world := False\<rparr>"

definition ex_booted :: "(in_memory_store, bool) scanner" where
  "ex_booted = (case fst (scanner_new in_memory (ex_node 6 6) DEFAULT_BLOCK_CACHE_SIZE None publisher_new (\<lambda>_. \<lparr>closed = False, queue = []\<rparr>)
       (Some (ex_store ex_sold), False) :: (_, (_, _, unit) scanner_error) result \<times> _) of
     Ok sc \<Rightarrow> sc | _ \<Rightarrow> ex_scanner False)"

definition ex_spawned :: "(in_memory_store, unit, bool, unit) system" where
  "ex_spawned = \<lparr>sys_gateway = publish ex_booted (ex_seller ex_sold), sys_scanner = ex_booted, sys_queue = callback_queue_init (), sys_watcher = None\<rparr>"

definition ex_listening :: "(in_memory_store, unit, bool, unit) system" where
  "ex_listening = ex_spawned\<lparr>sys_gateway := snd (gw_subscribe_all 0 1 (sys_gateway ex_spawned)), sys_watcher := Some 1\<rparr>"

lemma ex_seller_publisher: "gw_publisher (ex_seller v) = publisher_new"
  by (simp add: ex_seller_def ex_gateway_def)

lemma ex_seller_ok:
  assumes "address v = ''x''" and "invoice_ident v = InvoiceId (SubIndex 0 1) 3"
  shows "gw_ok im_wf im_invoice_map (\<lambda>_. ''x'') (ex_seller v)"
proof -
  have inv: "im_invoice_map (ex_store v) = [InvoiceId (SubIndex 0 1) 3 \<mapsto> v]"
    by (simp add: im_invoice_map_def ex_store_def assms(2))
  show ?thesis
    using ex_store_wf [of v] cache_from_used_highest [of "[SubIndex 0 1]" 0 "SubIndex 0 1" "\<lambda>_. ''x''" "()"] assms(1)
    by (simp add: gw_ok_def ex_seller_def pool_ok_def inv cache_from_used_wf cache_from_used_available major_cache_from_used)
qed

lemma ex_sold_ok: "gw_ok im_wf im_invoice_map (\<lambda>_. ''x'') (ex_seller ex_sold)"
  by (rule ex_seller_ok) (simp_all add: ex_sold_def invoice_new_def invoice_ident_def)

lemma ex_spawn: "spawn_gateway in_memory (ex_node 6 6) () (ex_seller ex_sold) = Ok ex_spawned"
proof -
  let ?new = "scanner_new in_memory (ex_node 6 6) DEFAULT_BLOCK_CACHE_SIZE None publisher_new (\<lambda>_. \<lparr>closed = False, queue = []\<rparr>)
    (Some (ex_store ex_sold), False) :: (_, (in_memory_storage_error, unit, unit) scanner_error) result \<times> _"
  have "(case fst ?new of Ok _ \<Rightarrow> True | _ \<Rightarrow> False)" by code_simp
  then obtain x where "?new = (Ok ex_booted, x)" unfolding ex_booted_def by (cases ?new; cases "fst ?new") simp_all
  then show ?thesis by (simp add: spawn_gateway_def create_scanner_def ex_seller_def ex_gateway_def ex_spawned_def)
qed

lemma ex_listens: "sys_step X A in_memory (ex_node 6 6) addr gen_range owned E grow cfg servers ex_spawned ex_listening"
proof -
  have w: "sys_watcher ex_spawned = None" by (rule spawned(2) [OF ex_spawn])
  have "gw_subscribe_all 0 1 (sys_gateway ex_spawned) = (1, snd (gw_subscribe_all 0 1 (sys_gateway ex_spawned)))"
    by (simp add: gw_subscribe_all_def subscribe_all_def)
  from sys_step.subscribed [OF w spawned_fresh [OF ex_spawn ex_seller_publisher] this] show ?thesis by (simp add: ex_listening_def)
qed

text \<open>The scan of the listening server.\<close>

definition ex_shared :: "(in_memory_store, bool) scanner" where
  "ex_shared = (let (_, pub, chans) = subscribe_all 0 1 (sc_publisher ex_booted) (sc_channels ex_booted)
     in ex_booted\<lparr>sc_publisher := pub, sc_channels := chans\<rparr>)"

definition ex_scanned :: "(in_memory_store, bool) scanner" where
  "ex_scanned = snd (ex_scan 6 6 ex_shared)"

lemma ex_shares: "share (sys_gateway ex_listening) (sys_scanner ex_listening) = ex_shared"
  by (cases ex_booted)
    (simp add: ex_listening_def ex_spawned_def share_def publish_def gw_subscribe_all_def ex_shared_def subscribe_all_def)

lemma ex_scans: "scan in_memory (ex_node 6 6) ex_check (share (sys_gateway ex_listening) (sys_scanner ex_listening)) = (Ok () :: ex_result, ex_scanned)"
proof -
  have "fst (ex_scan 6 6 ex_shared) = Ok ()" by code_simp
  then show ?thesis unfolding ex_shares ex_scanned_def ex_scan_def [symmetric] by (metis prod.collapse)
qed

text \<open>A server started from a file.\<close>

abbreviation ex_build_gw :: "(string, string) config \<Rightarrow> ((in_memory_store, unit, bool) gateway, unit) result" where
  "ex_build_gw c \<equiv> build_gateway in_memory (Ok :: _ \<Rightarrow> (string, string) result) Ok (Ok :: _ \<Rightarrow> (string, string) result)
     (\<lambda>_ _ _. ''x'') () (\<lambda>_. ()) id id True (Ok im_new :: (_, unit) result) c False"

lemma ex_starts:
  "\<exists>s esrv isrv. entrypoint (Ok :: _ \<Rightarrow> (string, string) result) ex_env2 (Ok ex_config :: (_, (unit, unit) config_error) result)
     ex_build_gw in_memory (ex_node 26 26) () ex_bind ex_tls (Map.empty, 0) = Ok (s, ex_guarded, esrv, isrv)"
proof -
  obtain g where g: "ex_build_gw ex_guarded = Ok g" "gw_store g = Some im_new" "gw_initial_height g = Some 9"
      "gw_publisher g = publisher_new" "gw_channels g = (\<lambda>_. \<lparr>closed = False, queue = []\<rparr>)" "gw_world g = False"
    by (simp add: build_gateway_def check_def gateway_builder_def ex_guarded_def ex_loaded_def ex_config_def config_default_def
        daemon_config_default_def build_def build_inner_def builder_new_def set_daemon_url_def set_account_index_def set_initial_height_def
        subaddress_cache_init_def im_new_def im_rows_def in_memory_def try_for_each_def direct_def Let_def)
  let ?new = "scanner_new in_memory (ex_node 26 26) DEFAULT_BLOCK_CACHE_SIZE (Some 9) publisher_new (\<lambda>_. \<lparr>closed = False, queue = []\<rparr>)
    (Some im_new, False) :: (_, (in_memory_storage_error, unit, unit) scanner_error) result \<times> _"
  have "(case fst ?new of Ok _ \<Rightarrow> True | _ \<Rightarrow> False)" by code_simp
  then obtain sc x where "?new = (Ok sc, x)" by (cases ?new; cases "fst ?new") simp_all
  with g obtain s where "spawn_gateway in_memory (ex_node 26 26) () g = Ok s" by (simp add: spawn_gateway_def create_scanner_def)
  moreover obtain esrv isrv where "fst (build_server ex_bind ex_tls ex_guarded (Map.empty, 0)) = Ok (esrv, isrv)"
    using ex_servers_Ok unfolding ex_servers_def by (metis fst_conv)
  ultimately show ?thesis using g(1) ex_guarded_load by (simp add: entrypoint_def)
qed

lemma ex_scanned_paid: "paid_in ex_scanned = Some 4"
  by code_simp

text \<open>The steps of the example server.\<close>

definition ex_both where
  "ex_both = (case fst ex_servers of Ok (esrv, isrv) \<Rightarrow> {esrv, isrv} | _ \<Rightarrow> {})"

abbreviation ex_step where
  "ex_step \<equiv> sys_step ex_axum ex_api in_memory (ex_node 6 6) (\<lambda>_. ''x'') (\<lambda>n r. (n - 1, r)) ex_check ex_unreachable (\<lambda>n. n) ex_guarded ex_both"

lemma ex_run_listening: "ex_step\<^sup>*\<^sup>* ex_spawned ex_listening"
  using ex_listens by blast

lemma ex_booted_store: "sc_store ex_booted = Some (ex_store ex_sold)"
  by code_simp

section \<open>Properties\<close>



text \<open>
  C5. The whole server keeps subaddresses apart.  For every store that keeps the contract, from the
  start of the server and through any interleaving of requests to both APIs, scans, removals by the
  watching task, callbacks and websocket clients, two tracked invoices never share a subaddress, and
  the subaddress of a tracked invoice is not available.
\<close>

theorem system_keeps_subaddresses_apart:
  assumes "full_storage S sok invoices out_keys stored_height" and "gw_ok sok invoices addr g" and "draws_in_range gen_range"
    and "spawn_gateway S D cw g = Ok s0"
    and "(sys_step X A S D addr gen_range owned E grow cfg servers)\<^sup>*\<^sup>* s0 s"
    and "gw_store (sys_gateway s) = Some st" and "invoices st i = Some v"
  shows "address v = addr (sub_index i) \<and> sub_index i \<notin> available (gw_subaddresses (sys_gateway s))
    \<and> (\<forall>j. invoices st j \<noteq> None \<and> sub_index j = sub_index i \<longrightarrow> j = i)"
proof -
  have "gw_ok sok invoices addr (sys_gateway s0)"
    by (rule spawned_ok [OF assms(4,2)])
  with assms(5) have "gw_ok sok invoices addr (sys_gateway s)"
    by (induction rule: rtranclp_induct) (auto intro: full_storage.sys_step_ok [OF assms(1)] assms(3))
  with assms(6) have "pool_ok addr (invoices st) (gw_subaddresses (sys_gateway s))" by (simp add: gw_ok_def)
  from this have "address v = addr (sub_index i)" "sub_index i \<notin> available (gw_subaddresses (sys_gateway s))"
    using assms(7) by (auto simp: pool_ok_def)
  moreover have "\<forall>j. invoices st j \<noteq> None \<and> sub_index j = sub_index i \<longrightarrow> j = i"
    using \<open>pool_ok addr (invoices st) (gw_subaddresses (sys_gateway s))\<close> assms(7) unfolding pool_ok_def by (metis domI domIff)
  ultimately show ?thesis by blast
qed

theorem system_keeps_subaddresses_apart_witness:
  "ex_step\<^sup>*\<^sup>* ex_spawned ex_listening \<and> gw_invoices (sys_gateway ex_listening) (InvoiceId (SubIndex 0 1) 3) = Some ex_sold
     \<and> SubIndex 0 1 \<notin> available (gw_subaddresses (sys_gateway ex_listening))"
proof -
  have st: "gw_store (sys_gateway ex_listening) = Some (ex_store ex_sold)"
    by (simp add: ex_listening_def ex_spawned_def gw_subscribe_all_def subscribe_all_def publish_def ex_booted_store)
  have v: "im_invoice_map (ex_store ex_sold) (InvoiceId (SubIndex 0 1) 3) = Some ex_sold"
    by (simp add: im_invoice_map_def ex_store_def ex_sold_def invoice_new_def invoice_ident_def)
  from system_keeps_subaddresses_apart [OF im.full_storage_axioms ex_sold_ok ex_draws ex_spawn ex_run_listening st v] st v ex_run_listening
  show ?thesis by (simp add: gw_invoices_def)
qed



text \<open>
  C7. Every change is reported: in every run of the server on the in-memory store, a scan that succeeds
  puts the new state of every invoice it changed on the way to the callbacks.
\<close>

theorem changed_invoices_are_reported:
  assumes "spawn_gateway in_memory D cw g = Ok s0" and "gw_publisher g = publisher_new"
    and "gw_ok im_wf im_invoice_map addr g" and "draws_in_range gen_range"
    and "(sys_step X A in_memory D addr gen_range owned E grow cfg servers)\<^sup>*\<^sup>* s0 s"
    and "scan in_memory D owned (share (sys_gateway s) (sys_scanner s)) = (Ok (), sc)"
    and "sys_watcher s = Some w" and "gw_invoices (sys_gateway s) i = Some v" and "gw_invoices (publish sc (sys_gateway s)) i = Some v'" and "v' \<noteq> v"
  shows "v' \<in># under_way (s\<lparr>sys_gateway := publish sc (sys_gateway s), sys_scanner := sc\<rparr>)"
proof -
  have wired: "sys_wired s" by (rule reachable_wired [OF assms(5) spawned_wired [OF assms(1,2)]])
  have "gw_ok im_wf im_invoice_map addr (sys_gateway s0)"
    by (rule spawned_ok [OF assms(1,3)])
  with assms(5) have ok: "gw_ok im_wf im_invoice_map addr (sys_gateway s)"
    by (induction rule: rtranclp_induct) (auto intro: im.sys_step_ok assms(4))
  obtain st where st: "gw_store (sys_gateway s) = Some st" "im_invoice_map st i = Some v"
    using assms(8) by (auto simp: gw_invoices_def split: option.splits)
  with ok have "im_wf st" by (simp add: gw_ok_def)
  let ?sc = "share (sys_gateway s) (sys_scanner s)"
  have "sc_store ?sc = Some st" "wired (Some w) (wires ?sc)" using st wired assms(7) by (simp_all add: share_def sys_wired_def)
  from imr.scan_reports [OF \<open>im_wf st\<close> this(1) assms(6) this(2)] obtain us st' where
      "sc_store sc = Some st'" "queue (sc_channels sc w) = queue (sc_channels ?sc w) @ us"
      "\<forall>i v v'. im_invoice_map st i = Some v \<longrightarrow> im_invoice_map st' i = Some v' \<longrightarrow> v' \<noteq> v \<longrightarrow> v' \<in> set us"
    by blast
  with st(2) assms(7,9,10) show ?thesis by (auto simp: under_way_def publish_def gw_invoices_def)
qed

theorem changed_invoices_are_reported_witness:
  "\<exists>v'. amount_paid v' = 4
     \<and> v' \<in># under_way (ex_listening\<lparr>sys_gateway := publish ex_scanned (sys_gateway ex_listening), sys_scanner := ex_scanned\<rparr>)"
proof -
  let ?i = "InvoiceId (SubIndex 0 1) 3"
  have v: "gw_invoices (sys_gateway ex_listening) ?i = Some ex_sold"
    by (simp add: ex_listening_def ex_spawned_def gw_subscribe_all_def subscribe_all_def publish_def ex_booted_store gw_invoices_def
        im_invoice_map_def ex_store_def) (simp add: ex_sold_def invoice_new_def invoice_ident_def)
  obtain v' where v': "gw_invoices (publish ex_scanned (sys_gateway ex_listening)) ?i = Some v'" and paid: "amount_paid v' = 4"
    using ex_scanned_paid by (auto simp: paid_in_def gw_invoices_def publish_def im_invoice_map_def split: option.splits)
  have ne: "v' \<noteq> ex_sold" using paid by (auto simp: ex_sold_def invoice_new_def)
  have w: "sys_watcher ex_listening = Some 1" by (simp add: ex_listening_def)
  from changed_invoices_are_reported [OF ex_spawn ex_seller_publisher ex_sold_ok ex_draws ex_run_listening ex_scans w v v' ne] paid
  show ?thesis by blast
qed

text \<open>
  C40. An old update can remove a paid invoice.  The watching task decides on the invoice as it was when
  the update was sent.  When that was expired and unpaid and a later scan has recorded the payment, the
  task removes the invoice although it is paid and waits for its confirmations.
\<close>

theorem stale_update_removes_paid_invoice:
  fixes g :: "(in_memory_store, 'g, 'w) gateway" and q :: "'c callback_queue"
  assumes "gw_ok im_wf im_invoice_map addr g" and "cq_open q" and "length (cq_queue q) < n"
    and "is_expired v" and "\<not> is_paid v"
    and "gw_invoices g (invoice_ident v) = Some now" and "is_paid now" and "\<not> is_confirmed now"
  shows "\<exists>g' q'. watch_update in_memory n True v (g, q) = Some (Ok (), (g', q')) \<and> gw_invoices g' (invoice_ident v) = None"
proof -
  obtain s where "gw_store g = Some s" using assms(6) by (auto simp: gw_invoices_def split: option.splits)
  then obtain g' where "remove_invoice in_memory (invoice_ident v) g
        = (Ok (gw_invoices g (invoice_ident v)) :: (_, (in_memory_storage_error, unit, unit) accept_xmr_error) result, g')"
      and "gw_invoices g' = (gw_invoices g)(invoice_ident v := None)"
    using remove_invoice_in_memory [OF assms(1), where 'r = unit and 'm = unit] by blast
  then show ?thesis using assms by (auto simp: watch_update_def callback_send_def)
qed

theorem stale_update_removes_paid_invoice_witness:
  "let v = ex_sold\<lparr>current_height := 23\<rparr>; now = v\<lparr>amount_paid := 10, paid_height := Some 23\<rparr>
   in is_paid now \<and> (\<exists>g' q'. watch_update in_memory 5 True v (ex_seller now, callback_queue_init ()) = Some (Ok (), (g', q'))
     \<and> gw_invoices g' (invoice_ident v) = None)"
proof -
  define v where "v = ex_sold\<lparr>current_height := 23\<rparr>"
  define now where "now = v\<lparr>amount_paid := 10, paid_height := Some 23\<rparr>"
  note defs = v_def now_def ex_sold_def invoice_new_def invoice_ident_def
  have ok: "gw_ok im_wf im_invoice_map (\<lambda>_. ''x'') (ex_seller now)" by (rule ex_seller_ok) (simp_all add: defs)
  have q: "cq_open (callback_queue_init ())" "length (cq_queue (callback_queue_init ())) < 5"
    by (simp_all add: callback_queue_init_def)
  have e: "is_expired v" "\<not> is_paid v" and n: "is_paid now" "\<not> is_confirmed now"
    by (simp_all add: defs is_expired_def is_paid_def is_confirmed_def confirmations_def saturating_sub_def)
  have g: "gw_invoices (ex_seller now) (invoice_ident v) = Some now"
    by (simp add: ex_seller_def gw_invoices_def im_invoice_map_def ex_store_def) (simp add: defs)
  from stale_update_removes_paid_invoice [OF ok q e g n] n show ?thesis by (simp add: Let_def v_def now_def)
qed

end
