(* ===== verification/Interleaving.thy ===== *)
theory Interleaving
  imports System Opening
begin

text \<open>
  The gateway's operations as they really overlap.  \<open>new_invoice\<close> and \<open>remove_invoice\<close> of
  \<open>library/src/payment_gateway.rs\<close> and \<open>scan\<close> of \<open>library/src/scanner.rs\<close> give up the locks and channels
  they use between any two accesses to shared state, so the parts of one run between the parts of
  another.  Here each operation is cut at its accesses to the pool, the store, the publisher and the
  node, and \<open>conc_step\<close> lets any operation under way do its next part.  A request whose client
  disconnects is dropped at the await where it waits.

  Looking for transfers in the blocks and the pool is one part: among the parts below only the scanner
  uses the output keys, and what it reads of the invoices while it looks is whether a subaddress is tracked.
\<close>

section \<open>Requests in parts\<close>

datatype ('e, 'r, 'm) task =
    Drawn sub_index string u64 u64 u64 string
      \<comment> \<open>\<open>new_invoice\<close> has drawn a subaddress; the arguments of the call\<close>
  | Timed invoice
      \<comment> \<open>it knows the creation height and has built the invoice\<close>
  | Inserted invoice_id
      \<comment> \<open>the store has the invoice, the publisher not yet\<close>
  | Created "(invoice_id, ('e, 'r, 'm) accept_xmr_error) result"
  | Removing invoice_id
      \<comment> \<open>\<open>remove_invoice\<close> before the store's answer\<close>
  | Removed invoice_id invoice
      \<comment> \<open>the store has removed the invoice, its subaddress is not back yet\<close>
  | Returned invoice_id invoice
      \<comment> \<open>the subaddress is back, the subscriptions are still alive\<close>
  | Gone "(invoice option, ('e, 'r, 'm) accept_xmr_error) result"

text \<open>The first part of \<open>new_invoice\<close>: drawing the subaddress.\<close>

definition draw_part ::
  "(sub_index \<Rightarrow> string) \<Rightarrow> (nat \<Rightarrow> 'g \<Rightarrow> nat \<times> 'g) \<Rightarrow> u64 \<Rightarrow> u64 \<Rightarrow> u64 \<Rightarrow> string \<Rightarrow> ('s, 'g, 'w) gateway
     \<Rightarrow> (('e, 'r, 'm) task \<times> ('s, 'g, 'w) gateway) option" where
  "draw_part addr gen_range piconeros confs expires desc g =
     map_option (\<lambda>(r, pool).
         (case r of Ok (idx, subaddress) \<Rightarrow> Drawn idx subaddress piconeros confs expires desc | _ \<Rightarrow> Created Panic,
          g\<lparr>gw_subaddresses := pool\<rparr>))
       (remove_random addr gen_range (gw_subaddresses g))"

text \<open>The other parts of both operations.  A finished one has nothing more to do.\<close>

fun task_part ::
  "('s, 'e) storage \<Rightarrow> ('w, 'r) monerod \<Rightarrow> ('e, 'r, 'm) task \<Rightarrow> ('s, 'g, 'w) gateway
     \<Rightarrow> ('e, 'r, 'm) task \<times> ('s, 'g, 'w) gateway" where
  "task_part S D (Drawn idx subaddress piconeros confs expires desc) g =
     (let (rh, w) = creation_height_of D g
      in (case rh of
            Ok creation \<Rightarrow> Timed (invoice_new subaddress idx creation piconeros confs expires desc)
          | Err e \<Rightarrow> Created (Err (Rpc e))
          | Panic \<Rightarrow> Created Panic,
          g\<lparr>gw_world := w\<rparr>))"
| "task_part S D (Timed v) g =
     (let (ri, mgr) = client_insert_invoice S v (gw_store g)
      in (case ri of
            Ok _ \<Rightarrow> Inserted (invoice_ident v)
          | Err e \<Rightarrow> Created (Err (Storage e))
          | Panic \<Rightarrow> Created Panic,
          g\<lparr>gw_store := mgr\<rparr>))"
| "task_part S D (Inserted i) g =
     (Created (Ok i), g\<lparr>gw_publisher := publisher_insert_invoice i (gw_publisher g)\<rparr>)"
| "task_part S D (Removing i) g =
     (let (r, mgr) = client_remove_invoice S i (gw_store g)
      in (case r of
            Ok (Some old) \<Rightarrow> Removed i old
          | Ok None \<Rightarrow> Gone (Ok None)
          | Err e \<Rightarrow> Gone (Err (Storage e))
          | Panic \<Rightarrow> Gone Panic,
          g\<lparr>gw_store := mgr\<rparr>))"
| "task_part S D (Removed i old) g =
     (Returned i old, g\<lparr>gw_subaddresses := snd (cache_insert (sub_index i) (address old) (gw_subaddresses g))\<rparr>)"
| "task_part S D (Returned i old) g =
     (Gone (Ok (Some old)), g\<lparr>gw_publisher := publisher_remove_invoice i (gw_publisher g)\<rparr>)"
| "task_part S D t g = (t, g)"

text \<open>A request can be dropped where it waits: everywhere but between the last two parts of a removal.\<close>

definition awaits :: "('e, 'r, 'm) task \<Rightarrow> bool" where
  "awaits t \<longleftrightarrow> (case t of Returned i old \<Rightarrow> False | _ \<Rightarrow> True)"

section \<open>A scan in parts\<close>

datatype ('e, 'r, 'm) phase =
    Starting
  | Updated nat "transaction list"
  | Found "(sub_index \<times> transfer) list" nat
  | Saving "invoice list"
      \<comment> \<open>the updated invoices that are not written yet\<close>
  | Flushing
  | Scanned "(unit, ('e, 'r, 'm) scanner_error) result"

fun ended_or :: "('a \<Rightarrow> ('e, 'r, 'm) phase) \<Rightarrow> ('a, ('e, 'r, 'm) scanner_error) result \<Rightarrow> ('e, 'r, 'm) phase" where
  "ended_or f (Ok a) = f a"
| "ended_or f (Err e) = Scanned (Err e)"
| "ended_or f Panic = Scanned Panic"

fun scan_part ::
  "('s, 'e) storage \<Rightarrow> ('w, 'r) monerod \<Rightarrow> (transaction \<Rightarrow> (owned_tx_out list, 'm) result)
     \<Rightarrow> ('e, 'r, 'm) phase \<times> ('s, 'w) scanner \<Rightarrow> ('e, 'r, 'm) phase \<times> ('s, 'w) scanner" where
  "scan_part S D owned (Starting, self) =
     apfst (ended_or (\<lambda>(blocks_updated, new_transactions). Updated blocks_updated new_transactions)) (update_caches D self)"
| "scan_part S D owned (Updated blocks_updated new_transactions, self) =
     apfst (ended_or (\<lambda>ts. Found ts blocks_updated)) (find_transfers S owned blocks_updated new_transactions self)"
| "scan_part S D owned (Found ts blocks_updated, self) =
     (let (ru, mgr) = update_invoices S ts blocks_updated (bc_height (sc_block_cache self)) (sc_store self)
      in (ended_or Saving ru, self\<lparr>sc_store := mgr\<rparr>))"
| "scan_part S D owned (Saving (v # vs), self) = (Saving vs, save_invoices S [v] self)"
| "scan_part S D owned (Saving [], self) =
     apfst (ended_or (\<lambda>_. Flushing)) (on_store (client_upsert_height S (bc_height (sc_block_cache self))) self)"
| "scan_part S D owned (Flushing, self) = apfst Scanned (on_store (client_flush S) self)"
| "scan_part S D owned (Scanned r, self) = (Scanned r, self)"

section \<open>The parts interleaved\<close>

record ('s, 'e, 'r, 'm, 'g, 'w) running =
  run_gateway :: "('s, 'g, 'w) gateway"
  run_scanner :: "('s, 'w) scanner"
  run_phase :: "('e, 'r, 'm) phase"
  run_tasks :: "('e, 'r, 'm) task multiset"

definition launch :: "('s, 'g, 'w) gateway \<Rightarrow> ('s, 'w) scanner \<Rightarrow> ('s, 'e, 'r, 'm, 'g, 'w) running" where
  "launch g sc = \<lparr>run_gateway = g, run_scanner = sc, run_phase = Starting, run_tasks = {#}\<rparr>"

definition put :: "('s, 'g, 'w) gateway \<Rightarrow> ('e, 'r, 'm) task multiset \<Rightarrow> ('s, 'e, 'r, 'm, 'g, 'w) running
     \<Rightarrow> ('s, 'e, 'r, 'm, 'g, 'w) running" where
  "put g ts r = r\<lparr>run_gateway := g, run_tasks := ts\<rparr>"

text \<open>The scanner's next part runs on what it shares with the gateway.\<close>

definition scanner_part ::
  "('s, 'e) storage \<Rightarrow> ('w, 'r) monerod \<Rightarrow> (transaction \<Rightarrow> (owned_tx_out list, 'm) result)
     \<Rightarrow> ('s, 'e, 'r, 'm, 'g, 'w) running \<Rightarrow> ('s, 'e, 'r, 'm, 'g, 'w) running" where
  "scanner_part S D owned r =
     (let (ph, sc) = scan_part S D owned (run_phase r, share (run_gateway r) (run_scanner r))
      in r\<lparr>run_gateway := publish sc (run_gateway r), run_scanner := sc, run_phase := ph\<rparr>)"

inductive conc_step ::
  "('s, 'e) storage \<Rightarrow> ('w, 'r) monerod \<Rightarrow> (sub_index \<Rightarrow> string) \<Rightarrow> (nat \<Rightarrow> 'g \<Rightarrow> nat \<times> 'g)
     \<Rightarrow> (transaction \<Rightarrow> (owned_tx_out list, 'm) result)
     \<Rightarrow> ('s, 'e, 'r, 'm, 'g, 'w) running \<Rightarrow> ('s, 'e, 'r, 'm, 'g, 'w) running \<Rightarrow> bool"
  for S D addr gen_range owned where
  asked_new: "draw_part addr gen_range piconeros confs expires desc (run_gateway r) = Some (t, g)
    \<Longrightarrow> conc_step S D addr gen_range owned r (put g (add_mset t (run_tasks r)) r)"
| asked_removal: "conc_step S D addr gen_range owned r (put (run_gateway r) (add_mset (Removing i) (run_tasks r)) r)"
| went_on: "run_tasks r = add_mset t ts \<Longrightarrow> task_part S D t (run_gateway r) = (t', g)
    \<Longrightarrow> conc_step S D addr gen_range owned r (put g (add_mset t' ts) r)"
| dropped: "run_tasks r = add_mset t ts \<Longrightarrow> awaits t
    \<Longrightarrow> conc_step S D addr gen_range owned r (put (run_gateway r) ts r)"
| scanned_on: "conc_step S D addr gen_range owned r (scanner_part S D owned r)"
| scans_again: "run_phase r = Scanned x \<Longrightarrow> x \<noteq> Panic
    \<Longrightarrow> conc_step S D addr gen_range owned r (r\<lparr>run_phase := Starting\<rparr>)"

section \<open>Parts without interruption\<close>

text \<open>Run to the end on its own, a scan in parts is \<open>scan\<close>.\<close>

lemma saving_run:
  "(scan_part S D owned ^^ length vs) (Saving vs, self) = (Saving [], save_invoices S vs self)"
proof (induction vs arbitrary: self)
  case (Cons v vs)
  have "save_invoices S (v # vs) self = save_invoices S vs (save_invoices S [v] self)"
    by (auto simp: Let_def split: result.splits prod.splits)
  with Cons.IH [of "save_invoices S [v] self"] show ?case
    by (simp only: list.size add_0_right add_Suc_right funpow_Suc_right comp_apply scan_part.simps)
qed simp

abbreviation part_runs where
  "part_runs S D owned x y \<equiv> \<exists>n. (scan_part S D owned ^^ n) x = y"

lemma saved_store: "sc_store (save_invoices S [v] self) = snd (direct (inv_update S v) (sc_store self))"
  by (auto simp: Let_def split: prod.splits result.splits)

lemma part_trans: "part_runs S D owned x y \<Longrightarrow> part_runs S D owned y z \<Longrightarrow> part_runs S D owned x z"
  by (auto simp: funpow_add [symmetric] simp flip: comp_apply [of "f ^^ m" for f m])

lemma part_once: "scan_part S D owned x = y \<Longrightarrow> part_runs S D owned x y"
  by (rule exI [where x = 1]) simp

lemma apply_run:
  fixes S :: "('s, 'e) storage" and D :: "('w, 'r) monerod" and owned :: "transaction \<Rightarrow> (owned_tx_out list, 'm) result"
  shows "part_runs S D owned (Found ts k, self) (apfst Scanned (apply_transfers S ts k self))"
proof -
  obtain ru mgr where ru: "update_invoices S ts k (bc_height (sc_block_cache self)) (sc_store self) = (ru :: (_, ('e, 'r, 'm) scanner_error) result, mgr)" by force
  show ?thesis
  proof (cases ru)
    case (Ok vs)
    define sc where "sc = save_invoices S vs (self\<lparr>sc_store := mgr\<rparr>)"
    obtain r1 sc1 where up: "on_store (client_upsert_height S (bc_height (sc_block_cache sc))) sc = (r1 :: (_, ('e, 'r, 'm) scanner_error) result, sc1)" by force
    have 1: "part_runs S D owned (Found ts k, self) (Saving vs, self\<lparr>sc_store := mgr\<rparr>)"
      by (rule part_once) (simp add: ru Ok)
    have 2: "part_runs S D owned (Saving vs, self\<lparr>sc_store := mgr\<rparr>) (Saving [], sc)"
      unfolding sc_def using saving_run by blast
    have 3: "part_runs S D owned (Saving [], sc) (ended_or (\<lambda>_. Flushing) r1, sc1)"
      by (rule part_once) (simp add: up del: client_calls)
    have 4: "part_runs S D owned (Flushing, sc1) (apfst Scanned (on_store (client_flush S) sc1))"
      by (rule part_once) (simp del: client_calls)
    have a: "apply_transfers S ts k self = try_st (r1, sc1) (\<lambda>_ self3. on_store (client_flush S) self3)"
      using up by (simp add: apply_transfers_def ru Ok Let_def sc_def del: client_calls)
    from part_trans [OF part_trans [OF 1 2] 3] part_trans [OF _ 4] show ?thesis
      unfolding a by (cases r1) (simp_all del: client_calls)
  next
    case (Err e)
    show ?thesis by (rule part_once) (simp add: ru Err apply_transfers_def)
  next
    case Panic
    show ?thesis by (rule part_once) (simp add: ru Panic apply_transfers_def)
  qed
qed

lemma scan_run:
  fixes S :: "('s, 'e) storage" and D :: "('w, 'r) monerod" and owned :: "transaction \<Rightarrow> (owned_tx_out list, 'm) result"
  shows "part_runs S D owned (Starting, self) (apfst Scanned (scan S D owned self))"
proof -
  obtain r1 sc1 where u: "update_caches D self = (r1 :: (_, ('e, 'r, 'm) scanner_error) result, sc1)" by force
  show ?thesis
  proof (cases r1)
    case (Ok kt)
    obtain k txs where kt: "kt = (k, txs)" by force
    obtain r2 sc2 where f: "find_transfers S owned k txs sc1 = (r2 :: (_, ('e, 'r, 'm) scanner_error) result, sc2)" by force
    have 1: "part_runs S D owned (Starting, self) (Updated k txs, sc1)"
      by (rule part_once) (simp add: u Ok kt)
    have 2: "part_runs S D owned (Updated k txs, sc1) (ended_or (\<lambda>ts. Found ts k) r2, sc2)"
      by (rule part_once) (simp add: f)
    have s: "scan S D owned self = try_st (r2, sc2) (\<lambda>ts self2. apply_transfers S ts k self2)"
      by (simp add: scan_def u Ok kt f)
    from part_trans [OF 1 2] part_trans [OF _ apply_run] show ?thesis
      unfolding s by (cases r2) simp_all
  next
    case (Err e)
    show ?thesis by (rule part_once) (simp add: u Err scan_def)
  next
    case Panic
    show ?thesis by (rule part_once) (simp add: u Panic scan_def)
  qed
qed

text \<open>The same for the gateway: each of its operations is a run of steps in which nothing else happens.\<close>

abbreviation at :: "('s, 'g, 'w) gateway \<Rightarrow> ('s, 'w) scanner \<Rightarrow> ('e, 'r, 'm) phase \<Rightarrow> ('e, 'r, 'm) task multiset
     \<Rightarrow> ('s, 'e, 'r, 'm, 'g, 'w) running" where
  "at g sc ph ts \<equiv> \<lparr>run_gateway = g, run_scanner = sc, run_phase = ph, run_tasks = ts\<rparr>"

lemma put_at [simp]: "put g ts (at g0 sc ph ts0) = at g sc ph ts"
  by (simp add: put_def)

lemma at_cases: obtains g sc ph ts where "r = at g sc ph ts"
  by (cases r) auto

lemma went_on_at:
  "task_part S D t g = (t', g') \<Longrightarrow> conc_step S D addr gen_range owned (at g sc ph (add_mset t ts)) (at g' sc ph (add_mset t' ts))"
  using conc_step.went_on [of "at g sc ph (add_mset t ts)" t ts S D t' g'] by simp

lemma asked_new_at:
  "draw_part addr gen_range amt confs ex d g = Some (t, g')
     \<Longrightarrow> conc_step S D addr gen_range owned (at g sc ph ts) (at g' sc ph (add_mset t ts))"
  using conc_step.asked_new [of addr gen_range amt confs ex d "at g sc ph ts" t g'] by simp

lemma asked_removal_at: "conc_step S D addr gen_range owned (at g sc ph ts) (at g sc ph (add_mset (Removing i) ts))"
  using conc_step.asked_removal [of S D addr gen_range owned "at g sc ph ts" i] by simp

lemmas run_on = converse_rtranclp_into_rtranclp [of "conc_step S D addr gen_range owned" for S D addr gen_range owned]

lemma new_invoice_run:
  fixes S :: "('s, 'e) storage" and D :: "('w, 'r) monerod" and owned :: "transaction \<Rightarrow> (owned_tx_out list, 'm) result"
  assumes "new_invoice S D addr gen_range amt confs ex d g = Some (r :: (_, ('e, 'r, 'm) accept_xmr_error) result, g')"
  shows "(conc_step S D addr gen_range owned)\<^sup>*\<^sup>* (at g sc ph ts) (at g' sc ph (add_mset (Created r) ts))"
proof -
  obtain rr pool where rr: "remove_random addr gen_range (gw_subaddresses g) = Some (rr, pool)"
    using assms by (auto simp: new_invoice_def split: option.splits)
  let ?g1 = "g\<lparr>gw_subaddresses := pool\<rparr>"
  show ?thesis
  proof (cases rr)
    case (Ok p)
    obtain idx a where p: "p = (idx, a)" by force
    obtain rh w where h: "creation_height_of D g = (rh, w)" by force
    then have h1: "creation_height_of D ?g1 = (rh, w)" by (auto simp: creation_height_of_def split: if_splits)
    note run = assms [unfolded new_invoice_after_draw [OF rr [unfolded Ok p] h]]
    let ?g2 = "?g1\<lparr>gw_world := w\<rparr>"
    have 1: "draw_part addr gen_range amt confs ex d g = Some (Drawn idx a amt confs ex d, ?g1)"
      by (simp add: draw_part_def rr Ok p)
    show ?thesis
    proof (cases rh)
      case (Ok c)
      let ?v = "invoice_new a idx c amt confs ex d"
      obtain ri mgr where ri: "direct (inv_insert S ?v) (gw_store g) = (ri, mgr)" by force
      have "ri \<noteq> Panic" using direct_not_Panic [of "inv_insert S ?v" "gw_store g"] ri by simp
      have 2: "task_part S D (Drawn idx a amt confs ex d) ?g1 = (Timed ?v, ?g2)" by (simp add: h1 Ok)
      show ?thesis
      proof (cases ri)
        case (Ok u)
        have 3: "task_part S D (Timed ?v) ?g2 = (Inserted (invoice_ident ?v), ?g2\<lparr>gw_store := mgr\<rparr>)" by (simp add: ri Ok)
        have 4: "task_part S D (Inserted (invoice_ident ?v)) (?g2\<lparr>gw_store := mgr\<rparr>) = (Created r, g')"
          using run by (simp add: \<open>rh = Ok c\<close> ri Ok Let_def)
        show ?thesis by (intro run_on [OF asked_new_at [OF 1]] run_on [OF went_on_at [OF 2]]
            run_on [OF went_on_at [OF 3]] r_into_rtranclp went_on_at [OF 4])
      next
        case (Err e)
        have 3: "task_part S D (Timed ?v) ?g2 = (Created r, g')" using run by (simp add: \<open>rh = Ok c\<close> ri Err Let_def)
        show ?thesis by (intro run_on [OF asked_new_at [OF 1]] run_on [OF went_on_at [OF 2]] r_into_rtranclp went_on_at [OF 3])
      qed (use \<open>ri \<noteq> Panic\<close> in simp)
    next
      case (Err e)
      have 2: "task_part S D (Drawn idx a amt confs ex d) ?g1 = (Created r, g')" using run by (simp add: h1 Err Let_def)
      show ?thesis by (intro run_on [OF asked_new_at [OF 1]] r_into_rtranclp went_on_at [OF 2])
    next
      case Panic
      have 2: "task_part S D (Drawn idx a amt confs ex d) ?g1 = (Created r, g')" using run by (simp add: h1 Panic Let_def)
      show ?thesis by (intro run_on [OF asked_new_at [OF 1]] r_into_rtranclp went_on_at [OF 2])
    qed
  qed (use assms rr in \<open>intro r_into_rtranclp asked_new_at; simp add: draw_part_def new_invoice_def Let_def\<close>)+
qed

lemma remove_invoice_run:
  fixes S :: "('s, 'e) storage" and D :: "('w, 'r) monerod" and owned :: "transaction \<Rightarrow> (owned_tx_out list, 'm) result"
  assumes "remove_invoice S i g = (r :: (_, ('e, 'r, 'm) accept_xmr_error) result, g')"
  shows "(conc_step S D addr gen_range owned)\<^sup>*\<^sup>* (at g sc ph ts) (at g' sc ph (add_mset (Gone r) ts))"
proof -
  obtain rr mgr where rr: "direct (inv_remove S i) (gw_store g) = (rr, mgr)" by force
  have np: "rr \<noteq> Panic" using direct_not_Panic [of "inv_remove S i" "gw_store g"] rr by simp
  show ?thesis
  proof (cases "\<exists>old. rr = Ok (Some old)")
    case True
    then obtain old where old: "rr = Ok (Some old)" by blast
    let ?g1 = "g\<lparr>gw_store := mgr\<rparr>"
    have 1: "task_part S D (Removing i) g = (Removed i old, ?g1)" by (simp add: rr old)
    let ?g2 = "?g1\<lparr>gw_subaddresses := snd (cache_insert (sub_index i) (address old) (gw_subaddresses ?g1))\<rparr>"
    have 2: "task_part S D (Removed i old) ?g1 = (Returned i old, ?g2)" by simp
    have 3: "task_part S D (Returned i old) ?g2 = (Gone r, g')" using assms by (simp add: remove_invoice_def rr old)
    show ?thesis by (rule run_on [OF asked_removal_at [where i = i]], intro run_on [OF went_on_at [OF 1]] run_on [OF went_on_at [OF 2]]
          r_into_rtranclp went_on_at [OF 3])
  next
    case False
    then have 1: "task_part S D (Removing i) g = (Gone r, g')"
      using assms np by (cases rr) (auto simp: remove_invoice_def rr split: option.splits)
    show ?thesis by (rule run_on [OF asked_removal_at [where i = i]], intro r_into_rtranclp went_on_at [OF 1])
  qed
qed

lemma share_publish [simp]: "share (publish sc g) sc = sc" "publish sc' (publish sc g) = publish sc' g"
  by (simp_all add: share_def publish_def)

lemma scanned_on_at:
  assumes "scan_part S D owned (ph, share g sc) = (ph', sc')"
  shows "conc_step S D addr gen_range owned (at g sc ph ts) (at (publish sc' g) sc' ph' ts)"
  using conc_step.scanned_on [of S D addr gen_range owned "at g sc ph ts"] assms by (simp add: scanner_part_def)

lemma parts_run:
  "(scan_part S D owned ^^ n) (ph, sc) = (ph', sc')
     \<Longrightarrow> (conc_step S D addr gen_range owned)\<^sup>*\<^sup>* (at (publish sc g) sc ph ts) (at (publish sc' g) sc' ph' ts)"
proof (induction n arbitrary: ph' sc')
  case (Suc n)
  obtain ph1 sc1 where 1: "(scan_part S D owned ^^ n) (ph, sc) = (ph1, sc1)" by force
  with Suc.prems have "scan_part S D owned (ph1, share (publish sc1 g) sc1) = (ph', sc')" by simp
  from Suc.IH [OF 1] scanned_on_at [OF this] show ?case by (simp add: rtranclp.rtrancl_into_rtrancl)
qed simp

lemma parts_run_from:
  assumes "(scan_part S D owned ^^ Suc n) (ph, share g sc) = (ph', sc')"
  shows "(conc_step S D addr gen_range owned)\<^sup>*\<^sup>* (at g sc ph ts) (at (publish sc' g) sc' ph' ts)"
proof -
  obtain ph1 sc1 where 1: "scan_part S D owned (ph, share g sc) = (ph1, sc1)" by force
  with assms have "(scan_part S D owned ^^ n) (ph1, sc1) = (ph', sc')" by (simp add: funpow_Suc_right del: funpow.simps)
  from parts_run [OF this, of addr gen_range g ts] show ?thesis by (rule run_on [OF scanned_on_at [OF 1]])
qed

lemma scan_run_at:
  fixes S :: "('s, 'e) storage" and D :: "('w, 'r) monerod" and owned :: "transaction \<Rightarrow> (owned_tx_out list, 'm) result"
  assumes "scan S D owned (share g sc) = (r, sc')"
  shows "(conc_step S D addr gen_range owned)\<^sup>*\<^sup>* (at g sc Starting ts) (at (publish sc' g) sc' (Scanned r) ts)"
proof -
  obtain n where n: "(scan_part S D owned ^^ n) (Starting, share g sc) = (Scanned r, sc')"
    using scan_run [of S D owned "share g sc"] assms by auto
  then obtain m where "n = Suc m" by (cases n) auto
  with n show ?thesis by (intro parts_run_from) simp
qed

section \<open>Subaddresses of operations under way\<close>

text \<open>A subaddress is held by the request that has drawn it or is about to put it back.\<close>

fun holds :: "('e, 'r, 'm) task \<Rightarrow> sub_index multiset" where
  "holds (Drawn idx a amt confs expires desc) = {#idx#}"
| "holds (Timed v) = {#index v#}"
| "holds (Removed i old) = {#sub_index i#}"
| "holds t = {#}"

definition held :: "('e, 'r, 'm) task multiset \<Rightarrow> sub_index multiset" where
  "held ts = \<Sum>\<^sub># (image_mset holds ts)"

lemma held_simps [simp]: "held {#} = {#}" "held (add_mset t ts) = holds t + held ts"
  by (simp_all add: held_def)

text \<open>
  The invariant of the pool extended to them: what is held is neither available nor tracked, lies
  within the indices generated so far, and is held once.
\<close>

definition apart ::
  "(sub_index \<Rightarrow> string) \<Rightarrow> (invoice_id \<Rightarrow> invoice option) \<Rightarrow> sub_index multiset \<Rightarrow> 'g subaddress_cache \<Rightarrow> bool" where
  "apart addr invs H pool \<longleftrightarrow> pool_ok addr invs pool
     \<and> (\<forall>idx \<in># H. idx \<notin> available pool \<and> major idx = major_index pool \<and> minor idx \<le> highest_minor_index pool
          \<and> count H idx = 1 \<and> (\<forall>i \<in> dom invs. sub_index i \<noteq> idx))"

lemma apart_pool: "apart addr invs H pool \<Longrightarrow> pool_ok addr invs pool"
  by (simp add: apart_def)

lemma apart_cong:
  assumes "\<And>i. map_option address (a i) = map_option address (b i)"
  shows "apart addr a H pool \<longleftrightarrow> apart addr b H pool"
proof -
  have "dom a = dom b" by (metis (no_types, lifting) assms domIff map_option_is_None subsetI subset_antisym)
  with pool_ok_cong [of a b addr pool, OF assms] show ?thesis by (simp add: apart_def)
qed

lemma apart_drop: "apart addr invs (K + H) pool \<Longrightarrow> apart addr invs H pool"
  unfolding apart_def
proof (elim conjE, intro conjI ballI, goal_cases)
  case (5 idx)
  then have "count K idx + count H idx = 1" by auto
  moreover have "0 < count H idx" using 5 by simp
  ultimately show ?case by linarith
qed auto

lemma apart_draw:
  assumes ap: "apart addr invs H pool" and gen: "draws_in_range gen_range"
    and r: "remove_random addr gen_range pool = Some (Ok (idx, a), pool')"
  shows "a = addr idx" and "apart addr invs (add_mset idx H) pool'"
proof -
  have ok: "pool_ok addr invs pool" using ap by (rule apart_pool)
  then have wf: "sc_wf addr pool" by (simp add: pool_ok_def)
  have ne: "available_subaddresses pool \<noteq> []" using r by (subst (asm) remove_random.simps) auto
  have gen': "\<And>n r. 0 < n \<Longrightarrow> fst (gen_range n r) < n" using gen by (simp add: draws_in_range_def)
  obtain j c where j: "remove_random addr gen_range pool = Some (Ok (j, addr j), c)" and post: "j \<in> available pool" "sc_wf addr c"
      "available c = (available pool - {j}) \<union>
        {k. major k = major_index pool \<and> highest_minor_index pool < minor k \<and> minor k \<le> highest_minor_index c}"
      "100 \<le> cache_len c \<or> highest_minor_index c = - 1" "major_index c = major_index pool" "highest_minor_index pool \<le> highest_minor_index c"
    by (rule remove_random_post [OF wf ne gen'])
  with r have [simp]: "j = idx" "c = pool'" "a = addr idx" by auto
  obtain idx' pool'' where d: "remove_random addr gen_range pool = Some (Ok (idx', addr idx'), pool'')"
    and keep: "pool_ok addr invs pool''" and "idx' \<notin> available pool''"
    and "\<forall>i v. sub_index i = idx' \<longrightarrow> address v = addr idx' \<longrightarrow> pool_ok addr (invs(i \<mapsto> v)) pool''"
    and free: "\<forall>i. sub_index i = idx' \<longrightarrow> i \<notin> dom invs" and "idx' \<in> available pool"
    by (rule pool_ok_draw [OF ok ne gen])
  with r have [simp]: "idx' = idx" "pool'' = pool'" by simp_all
  show "a = addr idx" by simp
  have idx: "major idx = major_index pool" "minor idx \<le> highest_minor_index pool" "idx \<notin># H"
    using wf post ap by (auto simp: sc_wf_def apart_def)
  have "x \<notin> available pool' \<and> major x = major_index pool' \<and> minor x \<le> highest_minor_index pool'
      \<and> count (add_mset idx H) x = 1 \<and> (\<forall>i \<in> dom invs. sub_index i \<noteq> x)" if "x \<in># add_mset idx H" for x
  proof (cases "x = idx")
    case True
    then show ?thesis using post idx free by (auto simp: not_in_iff)
  next
    case False
    with that have "x \<in># H" by simp
    then have "x \<notin> available pool" "major x = major_index pool" "minor x \<le> highest_minor_index pool"
        "count H x = 1" "\<forall>i \<in> dom invs. sub_index i \<noteq> x"
      using ap unfolding apart_def by blast+
    with False post show ?thesis by (intro conjI) auto
  qed
  with keep show "apart addr invs (add_mset idx H) pool'" by (simp add: apart_def)
qed

lemma apart_undrawn:
  assumes ap: "apart addr invs H pool" and gen: "draws_in_range gen_range"
    and r: "remove_random addr gen_range pool = Some (rr, pool')" and rr: "\<And>p. rr \<noteq> Ok p"
  shows "pool' = pool"
proof (cases "available_subaddresses pool = []")
  case True
  with r show ?thesis by (subst (asm) remove_random.simps) simp
next
  case False
  from pool_ok_draw [OF apart_pool [OF ap] False gen] r rr show ?thesis by (metis option.inject prod.inject)
qed

lemma apart_insert:
  assumes "apart addr invs (add_mset idx H) pool" and "sub_index i = idx" and "address v = addr idx"
  shows "apart addr (invs(i \<mapsto> v)) H pool"
proof -
  have h: "apart addr invs H pool" using apart_drop [of addr invs "{#idx#}" H pool] assms(1) by simp
  have idx: "idx \<notin># H" "idx \<notin> available pool" "major idx = major_index pool" "minor idx \<le> highest_minor_index pool"
      "\<forall>j \<in> dom invs. sub_index j \<noteq> idx"
    using assms(1) by (auto simp: apart_def not_in_iff)
  have "pool_ok addr (invs(i \<mapsto> v)) pool"
    using apart_pool [OF h] idx assms(2,3) unfolding pool_ok_def by (auto simp: dom_def split: if_splits)
  with h idx assms(2) show ?thesis by (auto simp: apart_def)
qed

lemma apart_remove:
  assumes "apart addr invs H pool" and "invs i = Some v"
  shows "apart addr (invs(i := None)) (add_mset (sub_index i) H) pool"
proof -
  have "i \<in> dom invs" using assms(2) by blast
  then have i: "sub_index i \<notin># H" "sub_index i \<notin> available pool" "major (sub_index i) = major_index pool"
      "minor (sub_index i) \<le> highest_minor_index pool" "\<forall>j \<in> dom invs. sub_index j = sub_index i \<longrightarrow> j = i"
    using assms(1) unfolding apart_def pool_ok_def by blast+
  have "pool_ok addr (invs(i := None)) pool" using apart_pool [OF assms(1)] by (auto simp: pool_ok_def)
  with assms(1) i show ?thesis by (auto simp: apart_def not_in_iff)
qed

lemma apart_return:
  fixes old :: invoice
  assumes "apart addr invs (add_mset (sub_index i) H) pool" and "address old = addr (sub_index i)"
  shows "apart addr invs H (snd (cache_insert (sub_index i) (address old) pool))"
proof -
  have h: "apart addr (invs(i \<mapsto> old)) H pool" by (rule apart_insert [OF assms(1) _ assms(2)]) simp
  have i: "i \<notin> dom invs" "sub_index i \<notin># H" using assms(1) by (auto simp: apart_def not_in_iff)
  have d: "distinct (map fst (available_subaddresses pool))" using apart_pool [OF h] by (simp add: pool_ok_def sc_wf_def)
  have "pool_ok addr ((invs(i \<mapsto> old))(i := None)) (snd (cache_insert (sub_index i) (address old) pool))"
    by (rule pool_ok_return [OF apart_pool [OF h]]) simp
  moreover have "(invs(i \<mapsto> old))(i := None) = invs" using i(1) by (simp add: domIff fun_upd_idem)
  moreover have "available (snd (cache_insert (sub_index i) (address old) pool)) = insert (sub_index i) (available pool)"
    by (auto simp: cache_insert_def set_im_insert [OF d] image_iff)
  ultimately show ?thesis using h i by (auto simp: apart_def cache_insert_def)
qed

section \<open>The invariant of the interleaving\<close>

fun task_ok :: "(sub_index \<Rightarrow> string) \<Rightarrow> ('e, 'r, 'm) task \<Rightarrow> bool" where
  "task_ok addr (Drawn idx a amt confs expires desc) \<longleftrightarrow> a = addr idx"
| "task_ok addr (Timed v) \<longleftrightarrow> address v = addr (index v)"
| "task_ok addr (Removed i old) \<longleftrightarrow> address old = addr (sub_index i)"
| "task_ok addr t \<longleftrightarrow> True"

fun phase_ok :: "(sub_index \<Rightarrow> string) \<Rightarrow> ('e, 'r, 'm) phase \<Rightarrow> bool" where
  "phase_ok addr (Saving vs) \<longleftrightarrow> (\<forall>v \<in> set vs. address v = addr (index v))"
| "phase_ok addr ph \<longleftrightarrow> True"

text \<open>\<open>L\<close> are subaddresses that are nowhere any more: not available, not tracked, held by no request.\<close>

definition run_ok ::
  "('s \<Rightarrow> bool) \<Rightarrow> ('s \<Rightarrow> invoice_id \<Rightarrow> invoice option) \<Rightarrow> (sub_index \<Rightarrow> string) \<Rightarrow> sub_index multiset
     \<Rightarrow> ('s, 'e, 'r, 'm, 'g, 'w) running \<Rightarrow> bool" where
  "run_ok sok invs addr L r \<longleftrightarrow> (\<forall>s. gw_store (run_gateway r) = Some s \<longrightarrow>
     sok s \<and> apart addr (invs s) (held (run_tasks r) + L) (gw_subaddresses (run_gateway r))
     \<and> (\<forall>t \<in># run_tasks r. task_ok addr t) \<and> phase_ok addr (run_phase r))"

lemma launch_ok: "gw_ok sok invs addr g \<Longrightarrow> run_ok sok invs addr {#} (launch g sc)"
  by (simp add: gw_ok_def run_ok_def launch_def apart_def)

lemma dropped_ok:
  assumes "run_ok sok invs addr L r" and "run_tasks r = add_mset t ts"
  shows "run_ok sok invs addr (holds t + L) (put (run_gateway r) ts r)"
  using assms by (simp add: run_ok_def put_def add.left_commute add.assoc)

lemma phase_ok_ended: "(\<And>a. phase_ok addr (f a)) \<Longrightarrow> phase_ok addr (ended_or f r)"
  by (cases r) simp_all

context full_storage
begin

lemma task_part_ok:
  assumes ap: "apart addr (invoices s) (holds t + H) (gw_subaddresses g)" and wf: "wf s" and s: "gw_store g = Some s" and t: "task_ok addr t"
    and part: "task_part S D t g = (t', g')" and s': "gw_store g' = Some s'"
  shows "wf s' \<and> apart addr (invoices s') (holds t' + H) (gw_subaddresses g') \<and> task_ok addr t'"
proof (cases t)
  case (Drawn idx a amt confs expires desc)
  then show ?thesis using assms apart_drop [of addr "invoices s" "{#idx#}" H]
    by (cases "creation_height_of D g"; cases "fst (creation_height_of D g)") (auto simp: invoice_new_def)
next
  case (Timed v)
  obtain ri s1 where ri: "inv_insert S v s = (ri, s1)" by force
  have s1: "s' = s1" using part s' by (auto simp: Timed s direct_def ri split: result.splits)
  have wf1: "wf s1" using insert_wf [OF wf, of v] ri by simp
  have H: "apart addr (invoices s) (add_mset (index v) H) (gw_subaddresses g)" using ap by (simp add: Timed)
  show ?thesis
  proof (cases "ri = Ok ()")
    case True
    have "apart addr ((invoices s)(invoice_ident v \<mapsto> v)) H (gw_subaddresses g)"
      by (rule apart_insert [OF H]) (use t in \<open>simp_all add: Timed invoice_ident_def\<close>)
    with insert_Ok [OF wf, of v s1] ri True part s1 wf1 show ?thesis by (auto simp: Timed s direct_def)
  next
    case False
    with insert_fail [OF wf ri] part s1 wf1 apart_drop [of addr "invoices s" "{#index v#}" H] H show ?thesis
      by (auto simp: Timed s direct_def ri split: result.splits)
  qed
next
  case (Removing i)
  obtain rr s1 where rr: "inv_remove S i s = (rr, s1)" by force
  have s1: "s' = s1" using part s' by (auto simp: Removing s direct_def rr split: result.splits)
  have wf1: "wf s1" using remove_wf [OF wf, of i] rr by simp
  have H: "apart addr (invoices s) H (gw_subaddresses g)" using ap by (simp add: Removing)
  show ?thesis
  proof (cases rr)
    case (Ok old)
    note ok = remove_Ok [OF wf rr [unfolded Ok]]
    show ?thesis
    proof (cases old)
      case None
      then have "invoices s1 = invoices s" using ok by (simp add: fun_upd_idem)
      with part s1 wf1 H show ?thesis by (auto simp: Removing s direct_def rr Ok None)
    next
      case (Some v)
      then have v: "invoices s i = Some v" using ok by simp
      moreover have "address v = addr (sub_index i)" using apart_pool [OF H] v by (simp add: pool_ok_def)
      ultimately show ?thesis using apart_remove [OF H v] ok part s1 wf1 by (auto simp: Removing s direct_def rr Ok Some)
    qed
  next
    case (Err e)
    with remove_fail [OF wf rr] part s1 wf1 H show ?thesis by (auto simp: Removing s direct_def rr)
  next
    case Panic
    with part s' show ?thesis by (auto simp: Removing s direct_def rr)
  qed
next
  case (Removed i old)
  then show ?thesis using assms apart_return [of addr "invoices s" i H "gw_subaddresses g" old] by auto
qed (use assms in auto)

lemma task_part_store: "gw_store g = None \<Longrightarrow> task_part S D t g = (t', g') \<Longrightarrow> gw_store g' = None"
  by (cases t) (auto split: prod.splits)

lemma scan_part_store:
  assumes "scan_part S D owned (ph, sc) = (ph', sc')" and "sc_store sc' = Some s'"
  shows "\<exists>s. sc_store sc = Some s"
proof (cases "sc_store sc")
  case None
  have 1: "sc_store (snd (find_transfers S owned k txs sc)) = None" for k txs
    using find_transfers_le [of sc owned k txs] None by (cases "sc_store (snd (find_transfers S owned k txs sc))") (auto simp: scan_le_def)
  have 2: "sc_store (snd (update_caches D sc)) = None" using None by simp
  show ?thesis using assms None
  proof (cases "(S, D, owned, ph, sc)" rule: scan_part.cases)
    case (1 S D owned self)
    then show ?thesis using assms 2 by (metis scan_part.simps(1) snd_apfst snd_conv option.distinct(1))
  next
    case (2 S D owned k txs self)
    then show ?thesis using assms 1 by (metis scan_part.simps(2) snd_apfst snd_conv option.distinct(1) prod.inject)
  qed (auto simp: update_invoices_def Let_def on_store_def)
qed simp

lemma scan_part_ok:
  assumes wf: "wf s" and s: "sc_store sc = Some s" and own: "\<forall>i v. invoices s i = Some v \<longrightarrow> address v = addr (sub_index i)"
    and ph: "phase_ok addr ph" and part: "scan_part S D owned (ph, sc) = (ph', sc')" and s': "sc_store sc' = Some s'"
  shows "wf s' \<and> (\<forall>i. map_option address (invoices s' i) = map_option address (invoices s i)) \<and> phase_ok addr ph'"
proof -
  have le: "wf s' \<and> (\<forall>i. map_option address (invoices s' i) = map_option address (invoices s i))"
    if "addr_le (sc_store sc) (sc_store sc')" using that wf s s' unfolding scan_le_def by (metis option.inject)
  show ?thesis
  proof (cases ph)
    case Starting
    have "sc_store sc' = sc_store sc" using update_caches_store [of D sc] part by (metis Starting scan_part.simps(1) snd_apfst snd_conv)
    moreover have "phase_ok addr (fst (scan_part S D owned (ph, sc)))" by (auto simp: Starting intro: phase_ok_ended)
    ultimately show ?thesis using wf s s' part by simp
  next
    case (Updated k txs)
    have "addr_le (sc_store sc) (sc_store sc')"
      using addr_le_store [OF find_transfers_le [of sc owned k txs]] part by (metis Updated scan_part.simps(2) snd_apfst snd_conv)
    moreover have "phase_ok addr (fst (scan_part S D owned (ph, sc)))" by (auto simp: Updated intro: phase_ok_ended)
    ultimately show ?thesis using le part by simp
  next
    case (Found ts k)
    obtain ru mgr where ru: "update_invoices S ts k (bc_height (sc_block_cache sc)) (Some s) = (ru, mgr)" and ph': "ph' = ended_or Saving ru" and "sc_store sc' = mgr"
      using part by (auto simp: Found s split: prod.splits)
    then have "s' = s" using s' by (auto simp: update_invoices_def Let_def direct_def split: result.splits prod.splits)
    moreover have "phase_ok addr ph'"
    proof (cases ru)
      case (Ok vs)
      have "address v = addr (index v)" if "v \<in> set vs" for v
        using update_invoices_stored [OF ru [unfolded Ok] wf that] own by (auto simp: invoice_ident_def)
      then show ?thesis by (simp add: ph' Ok)
    qed (simp_all add: ph')
    ultimately show ?thesis using wf by simp
  next
    case (Saving vs)
    show ?thesis
    proof (cases vs)
      case Nil
      have "addr_le (sc_store sc) (sc_store sc')"
        using upsert_addr_le [of "sc_store sc" "bc_height (sc_block_cache sc)"] part by (auto simp: Saving Nil on_store_def split: prod.splits)
      moreover have "phase_ok addr (fst (scan_part S D owned (ph, sc)))" by (auto simp: Saving Nil intro: phase_ok_ended)
      ultimately show ?thesis using le part by simp
    next
      case (Cons v ws)
      obtain ru s1 where ru: "inv_update S v s = (ru, s1)" by force
      have s1: "s' = s1" using part s' by (auto simp: Saving Cons s direct_def ru split: result.splits prod.splits)
      have "map_option address (invoices s1 i) = map_option address (invoices s i)" for i
        using update_Ok [OF wf, of v _ s1] update_fail [OF wf ru] ru own ph
        by (cases ru; cases "invoices s (invoice_ident v)") (auto simp: Saving Cons invoice_ident_def)
      with s1 update_wf [OF wf, of v] ru part ph show ?thesis by (auto simp: Saving Cons)
    qed
  next
    case Flushing
    have "sc_store sc' = sc_store sc \<or> sc_store sc' = None" "phase_ok addr ph'"
      using part by (auto simp: Flushing on_store_def direct_def reading_def s split: result.splits)
    then show ?thesis using wf s s' by auto
  next
    case (Scanned x)
    then show ?thesis using part wf s s' by auto
  qed
qed


lemma conc_step_ok:
  assumes "conc_step S D addr gen_range owned r r'" and ok: "run_ok wf invoices addr L r" and gen: "draws_in_range gen_range"
  shows "run_ok wf invoices addr L r'"
  using assms(1)
proof (cases rule: conc_step.cases)
  case (asked_new amt confs expires desc t g)
  obtain rr pool where rr: "remove_random addr gen_range (gw_subaddresses (run_gateway r)) = Some (rr, pool)"
      and t: "t = (case rr of Ok (idx, a) \<Rightarrow> Drawn idx a amt confs expires desc | _ \<Rightarrow> Created Panic)"
      and g: "g = (run_gateway r)\<lparr>gw_subaddresses := pool\<rparr>"
    using asked_new(2) by (auto simp: draw_part_def)
  have "apart addr (invoices s) (holds t + held (run_tasks r) + L) pool \<and> task_ok addr t" if s: "gw_store (run_gateway r) = Some s" for s
  proof -
    have ap: "apart addr (invoices s) (held (run_tasks r) + L) (gw_subaddresses (run_gateway r))" using ok s by (simp add: run_ok_def)
    show ?thesis
    proof (cases rr)
      case (Ok p)
      obtain idx a where "p = (idx, a)" by force
      with apart_draw [OF ap gen rr [unfolded Ok this]] show ?thesis by (simp add: t Ok)
    qed (use apart_undrawn [OF ap gen rr] ap in \<open>simp_all add: t\<close>)
  qed
  with ok show ?thesis by (simp add: asked_new(1) run_ok_def put_def g)
next
  case (asked_removal i)
  then show ?thesis using ok by (simp add: run_ok_def put_def)
next
  case (went_on t ts t' g)
  show ?thesis
  proof (cases "gw_store (run_gateway r)")
    case None
    with task_part_store [OF None went_on(3)] went_on(1) show ?thesis by (simp add: run_ok_def put_def)
  next
    case (Some s)
    with ok went_on(2) have "wf s" and ap: "apart addr (invoices s) (holds t + (held ts + L)) (gw_subaddresses (run_gateway r))" and "task_ok addr t"
      by (simp_all add: run_ok_def add.assoc)
    from task_part_ok [OF ap this(1) Some this(3) went_on(3)] show ?thesis
      using ok Some went_on(1,2) by (simp add: run_ok_def put_def add.assoc)
  qed
next
  case (dropped t ts)
  with dropped_ok [OF ok dropped(2)] apart_drop [of addr _ "holds t" "held ts + L"] show ?thesis
    by (auto simp: run_ok_def put_def add.left_commute)
next
  case scanned_on
  let ?g = "run_gateway r"
  obtain ph sc where part: "scan_part S D owned (run_phase r, share ?g (run_scanner r)) = (ph, sc)" by force
  have "wf s' \<and> apart addr (invoices s') (held (run_tasks r) + L) (gw_subaddresses ?g) \<and> (\<forall>t \<in># run_tasks r. task_ok addr t) \<and> phase_ok addr ph"
    if s': "sc_store sc = Some s'" for s'
  proof -
    obtain s where s: "gw_store ?g = Some s" using scan_part_store [OF part s'] by (auto simp: share_def)
    with ok have o: "wf s" "apart addr (invoices s) (held (run_tasks r) + L) (gw_subaddresses ?g)" "phase_ok addr (run_phase r)"
        "\<forall>t \<in># run_tasks r. task_ok addr t"
      by (simp_all add: run_ok_def)
    have "\<forall>i v. invoices s i = Some v \<longrightarrow> address v = addr (sub_index i)" using apart_pool [OF o(2)] by (simp add: pool_ok_def)
    from scan_part_ok [OF o(1) _ this o(3) part s'] s have "wf s'" "phase_ok addr ph"
        and same: "\<And>i. map_option address (invoices s' i) = map_option address (invoices s i)"
      by (simp_all add: share_def)
    with o apart_cong [of "invoices s'" "invoices s" addr "held (run_tasks r) + L" "gw_subaddresses ?g", OF same] show ?thesis by simp
  qed
  with scanned_on part show ?thesis by (simp add: run_ok_def scanner_part_def publish_def)
next
  case (scans_again x)
  then show ?thesis using ok by (simp add: run_ok_def)
qed

lemma conc_steps_ok:
  "(conc_step S D addr gen_range owned)\<^sup>*\<^sup>* r r' \<Longrightarrow> run_ok wf invoices addr L r \<Longrightarrow> draws_in_range gen_range \<Longrightarrow> run_ok wf invoices addr L r'"
  by (induction rule: rtranclp_induct) (auto intro: conc_step_ok)

end

section \<open>A connection with an open transaction\<close>

context full_storage
begin

text \<open>A contract holds on fewer states too, when no operation leaves them.\<close>

lemma restricted:
  assumes "\<And>v s. P s \<Longrightarrow> P (snd (inv_insert S v s))" "\<And>i s. P s \<Longrightarrow> P (snd (inv_remove S i s))"
    "\<And>v s. P s \<Longrightarrow> P (snd (inv_update S v s))" "\<And>k oid s. P s \<Longrightarrow> P (snd (key_insert S k oid s))"
    "\<And>h s. P s \<Longrightarrow> P (snd (height_upsert S h s))"
  shows "full_storage S (\<lambda>s. wf s \<and> P s) invoices out_keys stored_height"
  using insert_Ok insert_fail remove_Ok remove_fail update_Ok update_fail rows_complete
  by unfold_locales
    (auto simp: assms ident insert_wf remove_wf update_wf get_Ok get_ids_Ok contains_complete rows_sound key_insert_wf key_insert_Ok
      key_insert_fail key_get_Ok upsert_wf upsert_Ok height_get_Ok key_insert_invoices upsert_invoices upsert_keys update_keys insert_keys remove_keys)

end

lemma begun_contract:
  assumes "sqlite_connection C E"
  shows "full_storage (sqlite_storage C E) (\<lambda>s. sq_wf C s \<and> sq_begun s = Some t) (sq_invoice_map C) (sq_key_map C) (sq_height_of C)"
  by (rule full_storage.restricted [OF conjunct1 [OF sqlite_connection.contract [OF assms]]])
    (simp_all add: autocommit_operations update_nested upsert_nested)

text \<open>While the transaction is open, no scan gets as far as flushing.\<close>

definition stuck :: "('v, 'o, 'h) tables \<Rightarrow> ('v, 'o, 'h) sqlite option \<Rightarrow> bool" where
  "stuck t m \<longleftrightarrow> (\<forall>s. m = Some s \<longrightarrow> sq_begun s = Some t)"

lemma upsert_stuck:
  assumes "stuck t m"
  shows "fst (direct (height_upsert (sqlite_storage C E) h) m) \<noteq> Ok x"
  using assms upsert_nested [where C = C and E = E and h = h] by (cases m) (auto simp: stuck_def direct_def split: result.splits prod.splits, force)

lemma ended_or_Flushing [simp]: "ended_or f x = Flushing \<longleftrightarrow> (\<exists>a. x = Ok a \<and> f a = Flushing)"
  by (cases x) auto

lemma part_not_flushing:
  assumes "stuck t (sc_store sc)" and "ph \<noteq> Flushing" and "scan_part (sqlite_storage C E) D owned (ph, sc) = (ph', sc')"
  shows "ph' \<noteq> Flushing"
proof (cases "ph = Saving []")
  case True
  then show ?thesis using assms(3) upsert_stuck [OF assms(1), of C E "bc_height (sc_block_cache sc)"]
    by (cases "fst (direct (height_upsert (sqlite_storage C E) (bc_height (sc_block_cache sc))) (sc_store sc))")
      (auto simp: on_store_def split: prod.splits)
next
  case False
  show ?thesis using assms False by (cases "(sqlite_storage C E, D, owned, ph, sc)" rule: scan_part.cases)
      (auto simp: apfst_def map_prod_def split_beta)
qed

text \<open>
  The update of an invoice that has been removed opens the transaction; whatever happens then, it
  stays open.
\<close>

lemma stuck_run:
  assumes conn: "sqlite_connection C E" and gen: "draws_in_range gen_range"
    and "run_ok (\<lambda>s. sq_wf C s \<and> sq_begun s = Some t) (sq_invoice_map C) addr L r" and "run_phase r \<noteq> Flushing"
    and "(conc_step (sqlite_storage C E) D addr gen_range owned)\<^sup>*\<^sup>* r r'"
  shows "run_ok (\<lambda>s. sq_wf C s \<and> sq_begun s = Some t) (sq_invoice_map C) addr L r' \<and> run_phase r' \<noteq> Flushing"
  using assms(5,3,4)
proof (induction rule: rtranclp_induct)
  case (step r1 r2)
  then have ok: "run_ok (\<lambda>s. sq_wf C s \<and> sq_begun s = Some t) (sq_invoice_map C) addr L r1" "run_phase r1 \<noteq> Flushing" by simp_all
  have "run_phase r2 \<noteq> Flushing"
    using step.hyps(2)
  proof (cases rule: conc_step.cases)
    case scanned_on
    obtain ph sc where part: "scan_part (sqlite_storage C E) D owned (run_phase r1, share (run_gateway r1) (run_scanner r1)) = (ph, sc)" by force
    have "stuck t (sc_store (share (run_gateway r1) (run_scanner r1)))" using ok(1) by (simp add: stuck_def share_def run_ok_def)
    from part_not_flushing [OF this ok(2) part] show ?thesis using scanned_on part by (simp add: scanner_part_def)
  qed (use ok(2) in \<open>simp_all add: put_def\<close>)
  with full_storage.conc_step_ok [OF begun_contract [OF conn] step.hyps(2) ok(1) gen] show ?case by simp
qed simp

lemma update_removed:
  fixes r :: "(('v, 'o, 'h) sqlite, ('c, 'x) sqlite_storage_error, 'r, 'm, 'g, 'w) running" and gen_range :: "nat \<Rightarrow> 'g \<Rightarrow> nat \<times> 'g"
  assumes conn: "sqlite_connection C E" and ok: "run_ok (sq_wf C) (sq_invoice_map C) addr L r" and gen: "draws_in_range gen_range"
    and r: "run_phase r = Saving (v # vs)" "gw_store (run_gateway r) = Some s"
    and gone: "sq_invoice_map C s (invoice_ident v) = None" and up: "fst (sq_update C E v s) = Ok x"
  shows "run_ok (\<lambda>s1. sq_wf C s1 \<and> sq_begun s1 = Some (sq_tables s)) (sq_invoice_map C) addr L (scanner_part (sqlite_storage C E) D owned r)"
    and "run_phase (scanner_part (sqlite_storage C E) D owned r) = Saving vs"
proof -
  note full = conjunct1 [OF sqlite_connection.contract [OF conn]]
  obtain s1 where s1: "sq_update C E v s = (Ok x, s1)" using up by (metis prod.collapse)
  have "sq_wf C s" using ok r(2) by (simp add: run_ok_def)
  then have "x = None"
    using invoice_storage.update_Ok [OF full_storage.axioms(1) [OF full], of s v x s1] s1 gone by simp
  then have b: "sq_begun s1 = Some (sq_tables s)" using s1 update_unknown_begun by metis
  obtain sc where sc: "scan_part (sqlite_storage C E) D owned (run_phase r, share (run_gateway r) (run_scanner r)) = (Saving vs, sc)"
      and st: "sc_store sc = Some s1"
    using r s1 by (auto simp: share_def direct_def split: prod.splits)
  show "run_phase (scanner_part (sqlite_storage C E) D owned r) = Saving vs" by (simp add: scanner_part_def sc)
  have "run_ok (sq_wf C) (sq_invoice_map C) addr L (scanner_part (sqlite_storage C E) D owned r)"
    by (rule full_storage.conc_step_ok [OF full conc_step.scanned_on ok gen])
  then show "run_ok (\<lambda>s1. sq_wf C s1 \<and> sq_begun s1 = Some (sq_tables s)) (sq_invoice_map C) addr L (scanner_part (sqlite_storage C E) D owned r)"
    using b st by (simp add: run_ok_def scanner_part_def sc publish_def)
qed

section \<open>Examples\<close>

text \<open>
  A gateway and a scanner on any store in which the invoice of subaddress (0,1) is stored; a scan by
  parts up to the point where it writes the updated invoices.
\<close>

definition ex_shop :: "'s \<Rightarrow> ('s, unit, bool) gateway" where
  "ex_shop s = \<lparr>gw_store = Some s, gw_subaddresses = cache_from_used (\<lambda>_. ''x'') 0 () [SubIndex 0 1],
     gw_publisher = publisher_new, gw_channels = (\<lambda>_. \<lparr>closed = False, queue = []\<rparr>), gw_cached_daemon_height = 0,
     gw_block_cache_height = 0, gw_initial_height = None, gw_scan_interval = 1000, gw_world = False\<rparr>"

definition ex_reader :: "'s \<Rightarrow> ('s, bool) scanner" where
  "ex_reader s = \<lparr>sc_store = Some s,
     sc_block_cache = \<lparr>bc_height = 5, bc_daemon_height = 6, bc_blocks = [ex_blk 5, ex_blk 4]\<rparr>,
     sc_txpool_cache = \<lparr>tp_transactions = [], tp_discovered = []\<rparr>,
     sc_publisher = publisher_new, sc_channels = (\<lambda>_. \<lparr>closed = False, queue = []\<rparr>),
     sc_first_scan = False, sc_world = False\<rparr>"

lemma ex_shop_ok:
  assumes "sok s" and "invs s = [InvoiceId (SubIndex 0 1) h \<mapsto> v]" and "address v = ''x''"
  shows "gw_ok sok invs (\<lambda>_. ''x'') (ex_shop s)"
  using cache_from_used_highest [of "[SubIndex 0 1]" 0 "SubIndex 0 1" "\<lambda>_. ''x''" "()"] assms
  by (simp add: gw_ok_def ex_shop_def pool_ok_def cache_from_used_wf cache_from_used_available major_cache_from_used)

lemma ex_shop_in_memory:
  assumes "address v = ''x''" and "invoice_ident v = InvoiceId (SubIndex 0 1) h"
  shows "gw_ok im_wf im_invoice_map (\<lambda>_. ''x'') (ex_shop (ex_store v))"
    and "gw_invoices (ex_shop (ex_store v)) = [InvoiceId (SubIndex 0 1) h \<mapsto> v]"
proof -
  have "im_invoice_map (ex_store v) = [InvoiceId (SubIndex 0 1) h \<mapsto> v]" by (simp add: im_invoice_map_def ex_store_def assms(2))
  then show "gw_ok im_wf im_invoice_map (\<lambda>_. ''x'') (ex_shop (ex_store v))"
      "gw_invoices (ex_shop (ex_store v)) = [InvoiceId (SubIndex 0 1) h \<mapsto> v]"
    using ex_shop_ok [of im_wf "ex_store v" im_invoice_map h v] assms(1) by (simp_all add: ex_store_wf gw_invoices_def ex_shop_def)
qed

lemma ex_share: "share (ex_shop s) (ex_reader s) = ex_reader s"
  by (simp add: share_def ex_shop_def ex_reader_def)

definition ex_parts :: "('s, 'e) storage \<Rightarrow> 's \<Rightarrow> ('e, unit, unit) phase \<times> ('s, bool) scanner" where
  "ex_parts S s = (scan_part S (ex_node 6 6) ex_check ^^ 3) (Starting, ex_reader s)"

abbreviation ex_conc where
  "ex_conc S \<equiv> conc_step S (ex_node 6 6) (\<lambda>_. ''x'') (\<lambda>n r. (n - 1, r)) ex_check"

lemma ex_parts_run:
  assumes "ex_parts S s = (ph, sc)"
  shows "(ex_conc S)\<^sup>*\<^sup>* (launch (ex_shop s) (ex_reader s)) (at (publish sc (ex_shop s)) sc ph {#})"
  unfolding launch_def by (rule parts_run_from [where n = 2]) (use assms in \<open>simp add: ex_share ex_parts_def numeral_3_eq_3 numeral_2_eq_2\<close>)

definition ex_sq_store :: "invoice \<Rightarrow> (invoice, output_id, u64) sqlite" where
  "ex_sq_store v = \<lparr>sq_tables = \<lparr>t_invoices = [(row_key_of (invoice_ident v), v)], t_output_keys = [], t_height = Some 5\<rparr>,
     sq_begun = None, sq_changes = 0\<rparr>"

abbreviation ex_sqlite :: "((invoice, output_id, u64) sqlite, (unit, unit) sqlite_storage_error) storage" where
  "ex_sqlite \<equiv> sqlite_storage vi_codec calm_env"

definition saving_in where
  "saving_in p = (case p of (Saving [v], sc) \<Rightarrow> Some (v, sc) | _ \<Rightarrow> None)"

lemma saving_in_Some: "saving_in p = Some (v, sc) \<longleftrightarrow> p = (Saving [v], sc)"
  by (auto simp: saving_in_def split: prod.splits phase.splits list.splits)

lemma ex_sq_parts:
  obtains v sc s where "ex_parts ex_sqlite (ex_sq_store ex_sold) = (Saving [v], sc)" and "invoice_ident v = InvoiceId (SubIndex 0 1) 3"
    and "sc_store sc = Some s" and "fst (sq_remove vi_codec calm_env (InvoiceId (SubIndex 0 1) 3) s) = Ok (Some ex_sold)"
    and "fst (sq_update vi_codec calm_env v (snd (sq_remove vi_codec calm_env (InvoiceId (SubIndex 0 1) 3) s))) = Ok None"
proof -
  have "(case saving_in (ex_parts ex_sqlite (ex_sq_store ex_sold)) of
      Some (v, sc) \<Rightarrow> invoice_ident v = InvoiceId (SubIndex 0 1) 3
        \<and> (case sc_store sc of Some s \<Rightarrow> fst (sq_remove vi_codec calm_env (InvoiceId (SubIndex 0 1) 3) s) = Ok (Some ex_sold)
             \<and> fst (sq_update vi_codec calm_env v (snd (sq_remove vi_codec calm_env (InvoiceId (SubIndex 0 1) 3) s))) = Ok None
           | None \<Rightarrow> False)
    | None \<Rightarrow> False)" by code_simp
  then show thesis using that by (auto simp: saving_in_Some split: option.splits)
qed

text \<open>An invoice created at the height of the next block.\<close>

definition ex_late :: invoice where
  "ex_late = invoice_new ''x'' (SubIndex 0 1) 7 10 2 20 ''d''"

lemma ex_late_parts:
  obtains v sc s where "ex_parts in_memory (ex_store ex_late) = (Saving [v], sc)" and "index v = SubIndex 0 1" "creation_height v = 7"
    and "amount_requested v = 10" and "sc_store sc = Some s" and "im_invoice_map s (InvoiceId (SubIndex 0 1) 7) = Some ex_late"
    and "bc_daemon_height (sc_block_cache sc) = 7"
proof -
  have "(case saving_in (ex_parts in_memory (ex_store ex_late)) of
      Some (v, sc) \<Rightarrow> index v = SubIndex 0 1 \<and> creation_height v = 7 \<and> amount_requested v = 10 \<and> bc_daemon_height (sc_block_cache sc) = 7
        \<and> (case sc_store sc of Some s \<Rightarrow> map_of (im_invoices s) (InvoiceId (SubIndex 0 1) 7) = Some ex_late | None \<Rightarrow> False)
    | None \<Rightarrow> False)" by code_simp
  then show thesis using that by (auto simp: saving_in_Some im_invoice_map_def split: option.splits)
qed

text \<open>The generator that picks the last entry draws the subaddress that has just come back.\<close>

lemma draw_returned:
  assumes "idx \<notin> available pool"
  shows "\<exists>pool'. remove_random addr (\<lambda>n r. (n - 1, r)) (snd (cache_insert idx a pool)) = Some (Ok (idx, a), pool')"
proof -
  have "available_subaddresses (snd (cache_insert idx a pool)) = available_subaddresses pool @ [(idx, a)]"
    using assms by (simp add: cache_insert_def im_insert_fresh)
  then show ?thesis by (subst remove_random.simps) (simp add: Let_def nth_append)
qed

text \<open>A request that has drawn a subaddress while the shop tracks its invoice.\<close>

lemma ex_drawn:
  obtains idx g where "(ex_conc in_memory)\<^sup>*\<^sup>* (launch (ex_shop (ex_store ex_sold)) sc) (at g sc Starting {#Drawn idx ''x'' 5 2 20 ''d''#})"
    and "gw_store g = Some (ex_store ex_sold)"
proof -
  let ?g = "ex_shop (ex_store ex_sold)"
  have ok: "gw_ok im_wf im_invoice_map (\<lambda>_. ''x'') ?g"
    using ex_shop_in_memory [of ex_sold 3] by (simp_all add: ex_sold_def invoice_new_def invoice_ident_def)
  then have pool: "pool_ok (\<lambda>_. ''x'') (im_invoice_map (ex_store ex_sold)) (gw_subaddresses ?g)" by (simp add: gw_ok_def ex_shop_def)
  have "SubIndex 0 0 \<in> available (gw_subaddresses ?g)" by (simp add: ex_shop_def cache_from_used_available)
  then have ne: "available_subaddresses (gw_subaddresses ?g) \<noteq> []" by auto
  obtain idx pool' where "remove_random (\<lambda>_. ''x'') (\<lambda>n r. (n - 1, r)) (gw_subaddresses ?g) = Some (Ok (idx, ''x''), pool')"
    by (rule pool_ok_draw [OF pool ne ex_draws]) blast
  then have "draw_part (\<lambda>_. ''x'') (\<lambda>n r. (n - 1, r)) 5 2 20 ''d'' ?g = Some (Drawn idx ''x'' 5 2 20 ''d'', ?g\<lparr>gw_subaddresses := pool'\<rparr>)"
    by (simp add: draw_part_def)
  from asked_new_at [OF this, of in_memory "ex_node 6 6" ex_check sc Starting "{#}"] show thesis
    by (intro that [of "?g\<lparr>gw_subaddresses := pool'\<rparr>" idx]) (simp_all add: launch_def r_into_rtranclp, simp add: ex_shop_def)
qed

section \<open>Properties\<close>



text \<open>
  C2. Subaddresses stay apart in every interleaving.  For every store that keeps the contract, whatever
  the order in which the parts of new invoices, removals and scans run, and whichever requests are
  dropped half way: two tracked invoices never share a subaddress, the subaddress of a tracked invoice
  is neither available nor held by a request under way, and each has the address of its index.
\<close>

theorem interleavings_keep_subaddresses_apart:
  assumes "full_storage S sok invoices out_keys stored_height" and "gw_ok sok invoices addr g" and "draws_in_range gen_range"
    and "(conc_step S D addr gen_range owned)\<^sup>*\<^sup>* (launch g sc) r"
    and "gw_store (run_gateway r) = Some st" and "invoices st i = Some v"
  shows "address v = addr (sub_index i) \<and> sub_index i \<notin> available (gw_subaddresses (run_gateway r))
    \<and> (\<forall>t. t \<in># run_tasks r \<longrightarrow> sub_index i \<notin># holds t)
    \<and> (\<forall>j. invoices st j \<noteq> None \<and> sub_index j = sub_index i \<longrightarrow> j = i)"
proof -
  have "run_ok sok invoices addr {#} r"
    by (rule full_storage.conc_steps_ok [OF assms(1,4) launch_ok [OF assms(2)] assms(3)])
  with assms(5) have ap: "apart addr (invoices st) (held (run_tasks r)) (gw_subaddresses (run_gateway r))" by (simp add: run_ok_def)
  have i: "i \<in> dom (invoices st)" using assms(6) by blast
  have "sub_index i \<notin># held (run_tasks r)" using ap i unfolding apart_def by blast
  then have "\<forall>t. t \<in># run_tasks r \<longrightarrow> sub_index i \<notin># holds t" by (auto simp: held_def)
  moreover have "address v = addr (sub_index i)" "sub_index i \<notin> available (gw_subaddresses (run_gateway r))"
    using apart_pool [OF ap] assms(6) i by (auto simp: pool_ok_def)
  moreover have "\<forall>j. invoices st j \<noteq> None \<and> sub_index j = sub_index i \<longrightarrow> j = i"
    using pool_ok_inj [OF apart_pool [OF ap] _ i] by (auto simp: domIff)
  ultimately show ?thesis by blast
qed

theorem interleavings_keep_subaddresses_apart_witness:
  "\<exists>r idx. (ex_conc in_memory)\<^sup>*\<^sup>* (launch (ex_shop (ex_store ex_sold)) (ex_reader (ex_store ex_sold))) r
     \<and> Drawn idx ''x'' 5 2 20 ''d'' \<in># run_tasks r \<and> gw_invoices (run_gateway r) (InvoiceId (SubIndex 0 1) 3) = Some ex_sold
     \<and> idx \<noteq> SubIndex 0 1"
proof -
  let ?g = "ex_shop (ex_store ex_sold)" and ?sc = "ex_reader (ex_store ex_sold)" and ?i = "InvoiceId (SubIndex 0 1) 3"
  have ok: "gw_ok im_wf im_invoice_map (\<lambda>_. ''x'') ?g" and inv: "im_invoice_map (ex_store ex_sold) ?i = Some ex_sold"
    using ex_shop_in_memory [of ex_sold 3] by (simp_all add: ex_sold_def invoice_new_def invoice_ident_def gw_invoices_def ex_shop_def)
  obtain idx g where run: "(ex_conc in_memory)\<^sup>*\<^sup>* (launch ?g ?sc) (at g ?sc Starting {#Drawn idx ''x'' 5 2 20 ''d''#})"
      and st: "gw_store g = Some (ex_store ex_sold)" by (rule ex_drawn)
  from interleavings_keep_subaddresses_apart [OF im.full_storage_axioms ok ex_draws run, of "ex_store ex_sold" ?i ex_sold] st inv
  have "idx \<noteq> SubIndex 0 1" by auto
  with run st inv show ?thesis by (intro exI [where x = "at g ?sc Starting {#Drawn idx ''x'' 5 2 20 ''d''#}"]) (auto simp: gw_invoices_def)
qed



text \<open>
  C16. Removing an invoice during a scan can stop the SQLite store for good.  When the invoice whose
  update the scan is about to write has been removed since the scan read it, the update leaves the
  transaction open; from then on no scan gets as far as flushing, and the database file keeps the
  content it had.
\<close>

theorem removal_during_scan_blocks_sqlite:
  assumes "sqlite_connection C E" and "gw_ok (sq_wf C) (sq_invoice_map C) addr g" and "draws_in_range gen_range"
    and "(conc_step (sqlite_storage C E) D addr gen_range owned)\<^sup>*\<^sup>* (launch g sc) r"
    and "run_phase r = Saving (v # vs)" and "gw_store (run_gateway r) = Some s"
    and "sq_invoice_map C s (invoice_ident v) = None" and "fst (sq_update C E v s) = Ok x"
    and "(conc_step (sqlite_storage C E) D addr gen_range owned)\<^sup>*\<^sup>* (scanner_part (sqlite_storage C E) D owned r) r'"
  shows "run_phase r' \<noteq> Flushing \<and> (\<forall>s'. gw_store (run_gateway r') = Some s' \<longrightarrow> in_file s' = sq_tables s)"
proof -
  have "run_ok (sq_wf C) (sq_invoice_map C) addr {#} r"
    by (rule full_storage.conc_steps_ok [OF conjunct1 [OF sqlite_connection.contract [OF assms(1)]] assms(4) launch_ok [OF assms(2)] assms(3)])
  note up = update_removed [OF assms(1) this assms(3,5,6,7,8), of D owned]
  from stuck_run [OF assms(1,3) up(1) _ assms(9)] up(2) show ?thesis by (simp add: run_ok_def in_file_def)
qed

theorem removal_during_scan_blocks_sqlite_witness:
  "\<exists>r vs s v. (ex_conc ex_sqlite)\<^sup>*\<^sup>* (launch (ex_shop (ex_sq_store ex_sold)) (ex_reader (ex_sq_store ex_sold))) r
     \<and> run_phase r = Saving (v # vs) \<and> Removed (invoice_ident v) ex_sold \<in># run_tasks r \<and> gw_store (run_gateway r) = Some s
     \<and> (\<forall>r'. (ex_conc ex_sqlite)\<^sup>*\<^sup>* (scanner_part ex_sqlite (ex_node 6 6) ex_check r) r' \<longrightarrow> run_phase r' \<noteq> Flushing)"
proof -
  let ?s = "ex_sq_store ex_sold" and ?i = "InvoiceId (SubIndex 0 1) 3"
  let ?g = "ex_shop ?s" and ?sc = "ex_reader ?s"
  have "sq_wf vi_codec ?s" "sq_invoice_map vi_codec ?s = [?i \<mapsto> ex_sold]"
    by (auto simp: sq_wf_def sq_invoice_map_def ex_sq_store_def vi_codec_def decoded_def ex_sold_def invoice_new_def invoice_ident_def)
  then have ok: "gw_ok (sq_wf vi_codec) (sq_invoice_map vi_codec) (\<lambda>_. ''x'') ?g"
    by (rule ex_shop_ok) (simp add: ex_sold_def invoice_new_def)
  obtain v sc s where parts: "ex_parts ex_sqlite ?s = (Saving [v], sc)" and v: "invoice_ident v = ?i" and s: "sc_store sc = Some s"
      and rm: "fst (sq_remove vi_codec calm_env ?i s) = Ok (Some ex_sold)"
      and up: "fst (sq_update vi_codec calm_env v (snd (sq_remove vi_codec calm_env ?i s))) = Ok None"
    by (rule ex_sq_parts)
  obtain s1 where s1: "sq_remove vi_codec calm_env ?i s = (Ok (Some ex_sold), s1)" using rm by (metis prod.collapse)
  define r :: "(_, (unit, unit) sqlite_storage_error, unit, unit, _, _) running"
    where "r = at ((publish sc ?g)\<lparr>gw_store := Some s1\<rparr>) sc (Saving [v]) {#Removed ?i ex_sold#}"
  have "(ex_conc ex_sqlite)\<^sup>*\<^sup>* (launch ?g ?sc) (at (publish sc ?g) sc (Saving [v]) {#})" by (rule ex_parts_run [OF parts])
  moreover have "(ex_conc ex_sqlite)\<^sup>*\<^sup>* (at (publish sc ?g) sc (Saving [v]) {#}) r"
    unfolding r_def by (rule run_on [OF asked_removal_at [where i = ?i]], rule r_into_rtranclp, rule went_on_at)
      (simp add: publish_def s direct_def s1)
  ultimately have run: "(ex_conc ex_sqlite)\<^sup>*\<^sup>* (launch ?g ?sc) r" by (rule rtranclp_trans)
  have r: "run_phase r = Saving [v]" "gw_store (run_gateway r) = Some s1" by (simp_all add: r_def)
  have full: "full_storage ex_sqlite (sq_wf vi_codec) (sq_invoice_map vi_codec) (sq_key_map vi_codec) (sq_height_of vi_codec)"
    by (rule conjunct1 [OF sqlite_connection.contract [OF sq.sqlite_connection_axioms]])
  have "run_ok (sq_wf vi_codec) (sq_invoice_map vi_codec) (\<lambda>_. ''x'') {#} r"
    by (rule full_storage.conc_steps_ok [OF full run launch_ok [OF ok] ex_draws])
  then have "\<forall>i \<in> dom (sq_invoice_map vi_codec s1). sub_index i \<noteq> SubIndex 0 1" by (simp add: run_ok_def r_def apart_def)
  then have gone: "sq_invoice_map vi_codec s1 (invoice_ident v) = None" unfolding v by (metis domIff invoice_id.sel(1))
  have up1: "fst (sq_update vi_codec calm_env v s1) = Ok None" using up s1 by simp
  note * = removal_during_scan_blocks_sqlite [OF sq.sqlite_connection_axioms ok ex_draws run r gone up1]
  have "Removed (invoice_ident v) ex_sold \<in># run_tasks r" by (simp add: r_def v)
  with run r * show ?thesis by blast
qed

text \<open>
  C17. A scan can overwrite an invoice it has never seen.  When an invoice that a scan has read is removed
  before the scan writes its update, and a new invoice draws the same subaddress at the same height, the
  new invoice has the identifier of the old one, and the scan replaces it by the old one: with the old
  amount, payments and description.
\<close>

theorem stale_scan_overwrites_new_invoice:
  fixes D :: "('w, 'r) monerod" and owned :: "transaction \<Rightarrow> (owned_tx_out list, 'm) result" and g :: "(in_memory_store, 'g, 'w) gateway"
  assumes "gw_ok im_wf im_invoice_map addr g" and "draws_in_range gen_range"
    and "(conc_step in_memory D addr gen_range owned)\<^sup>*\<^sup>* (launch g sc) r"
    and "run_phase r = Saving (v # vs)" and "gw_invoices (run_gateway r) (invoice_ident v) = Some old"
    and "remove_random addr gen_range (snd (cache_insert (index v) (address old) (gw_subaddresses (run_gateway r)))) = Some (Ok (index v, a), pool)"
    and "creation_height_of D (run_gateway r) = (Ok (creation_height v), w)"
  shows "\<exists>r1 r2. (conc_step in_memory D addr gen_range owned)\<^sup>*\<^sup>* r r1 \<and> Created (Ok (invoice_ident v)) \<in># run_tasks r1
    \<and> gw_invoices (run_gateway r1) (invoice_ident v) = Some (invoice_new a (index v) (creation_height v) amt confs ex d)
    \<and> conc_step in_memory D addr gen_range owned r1 r2 \<and> gw_invoices (run_gateway r2) (invoice_ident v) = Some v"
proof -
  obtain g0 sc0 ph0 ts where r: "r = at g0 sc0 ph0 ts" by (rule at_cases)
  let ?i = "invoice_ident v" and ?new = "invoice_new a (index v) (creation_height v) amt confs ex d"
  have "run_ok im_wf im_invoice_map addr {#} r" by (rule im.conc_steps_ok [OF assms(3) launch_ok [OF assms(1)] assms(2)])
  then have ok: "gw_ok im_wf im_invoice_map addr g0" by (simp add: r run_ok_def gw_ok_def apart_def)
  obtain s where s: "gw_store g0 = Some s" "im_invoice_map s ?i = Some old"
    using assms(5) by (auto simp: r gw_invoices_def split: option.splits)
  from remove_invoice_in_memory [OF ok s(1), where 'r = 'r and 'm = 'm and i = ?i] obtain g1 s1 where
      rm: "remove_invoice in_memory ?i g0 = (Ok (Some old) :: (_, (in_memory_storage_error, 'r, 'm) accept_xmr_error) result, g1)"
      and g1: "gw_invoices g1 = (gw_invoices g0)(?i := None)" and s1: "gw_store g1 = Some s1"
      and ok1: "gw_ok im_wf im_invoice_map addr g1"
    using assms(5) by (auto simp: r)
  obtain s1' where "inv_remove in_memory ?i s = (Ok (Some old), s1')" using s by (auto simp: im_method_defs im_invoice_map_def)
  then have sub: "gw_subaddresses g1 = snd (cache_insert (index v) (address old) (gw_subaddresses g0))"
      and h: "creation_height_of D g1 = (Ok (creation_height v), w)"
    using rm assms(7) s(1) by (auto simp: r remove_invoice_def direct_def creation_height_of_def invoice_ident_def split: if_splits)
  have wf1: "im_wf s1" using ok1 s1 by (simp add: gw_ok_def)
  have "invoice_ident ?new = ?i" by (simp add: invoice_new_def invoice_ident_def)
  moreover have "im_invoice_map s1 ?i = None" using g1 s1 by (simp add: gw_invoices_def)
  ultimately obtain s2 where ins: "inv_insert in_memory ?new s1 = (Ok (), s2)"
    by (auto simp: im_method_defs im_invoice_map_def split: option.splits)
  have s2: "im_invoice_map s2 ?i = Some ?new" "im_wf s2"
    using im.insert_Ok [OF wf1 ins] im.insert_wf [OF wf1, of ?new] ins \<open>invoice_ident ?new = ?i\<close> by simp_all
  define g2 where "g2 = g1\<lparr>gw_subaddresses := pool, gw_world := w, gw_store := Some s2, gw_publisher := publisher_insert_invoice ?i (gw_publisher g1)\<rparr>"
  have draw: "remove_random addr gen_range (gw_subaddresses g1) = Some (Ok (index v, a), pool)" using assms(6) by (simp add: r sub)
  have new: "new_invoice in_memory D addr gen_range amt confs ex d g1 = Some (Ok ?i :: (_, (in_memory_storage_error, 'r, 'm) accept_xmr_error) result, g2)"
    unfolding new_invoice_after_draw [OF draw h] by (simp add: Let_def direct_def s1 ins [simplified] \<open>invoice_ident ?new = ?i\<close> g2_def)
  have g2: "gw_store g2 = Some s2" by (simp add: g2_def)
  define r1 where "r1 = at g2 sc0 ph0 (add_mset (Created (Ok ?i)) (add_mset (Gone (Ok (Some old))) ts))"
  have run: "(conc_step in_memory D addr gen_range owned)\<^sup>*\<^sup>* r r1"
    unfolding r r1_def by (rule rtranclp_trans [OF remove_invoice_run [OF rm] new_invoice_run [OF new]])
  obtain old' s3 where up: "inv_update in_memory v s2 = (Ok old', s3)" using imr.update_returns [OF s2(2)] by blast
  from im.update_Ok [OF s2(2) up] s2(1) have "im_invoice_map s3 ?i = Some v" by simp
  then have "gw_invoices (run_gateway (scanner_part in_memory D owned r1)) ?i = Some v"
    using assms(4) by (simp add: r r1_def scanner_part_def share_def publish_def g2 gw_invoices_def saved_store direct_def up [simplified]
        del: save_invoices.simps)
  then show ?thesis
    using run s2(1) g2 by (intro exI [where x = r1] exI [where x = "scanner_part in_memory D owned r1"])
      (auto simp: r1_def gw_invoices_def intro: conc_step.scanned_on)
qed

theorem stale_scan_overwrites_new_invoice_witness:
  "\<exists>r r1 r2 v. (ex_conc in_memory)\<^sup>*\<^sup>* (launch (ex_shop (ex_store ex_late)) (ex_reader (ex_store ex_late))) r
     \<and> (ex_conc in_memory)\<^sup>*\<^sup>* r r1 \<and> gw_invoices (run_gateway r1) (invoice_ident v) = Some (invoice_new ''x'' (SubIndex 0 1) 7 500 2 20 ''new'')
     \<and> ex_conc in_memory r1 r2 \<and> map_option amount_requested (gw_invoices (run_gateway r2) (invoice_ident v)) = Some 10"
proof -
  let ?s = "ex_store ex_late" and ?i = "InvoiceId (SubIndex 0 1) 7"
  let ?g = "ex_shop ?s" and ?sc = "ex_reader ?s"
  have ok: "gw_ok im_wf im_invoice_map (\<lambda>_. ''x'') ?g"
    using ex_shop_in_memory [of ex_late 7] by (simp add: ex_late_def invoice_new_def invoice_ident_def)
  obtain v sc s where parts: "ex_parts in_memory ?s = (Saving [v], sc)" and v: "index v = SubIndex 0 1" "creation_height v = 7"
      and amt: "amount_requested v = 10" and s: "sc_store sc = Some s" and old: "im_invoice_map s ?i = Some ex_late" and dh: "bc_daemon_height (sc_block_cache sc) = 7"
    by (rule ex_late_parts)
  define r :: "(_, in_memory_storage_error, unit, unit, _, _) running" where "r = at (publish sc ?g) sc (Saving [v]) {#}"
  have i: "invoice_ident v = ?i" by (simp add: invoice_ident_def v)
  have run: "(ex_conc in_memory)\<^sup>*\<^sup>* (launch ?g ?sc) r" unfolding r_def by (rule ex_parts_run [OF parts])
  have "SubIndex 0 1 \<notin> available (gw_subaddresses ?g)" by (simp add: ex_shop_def cache_from_used_available)
  then obtain pool where draw: "remove_random (\<lambda>_. ''x'') (\<lambda>n r. (n - 1, r)) (snd (cache_insert (index v) (address ex_late) (gw_subaddresses (run_gateway r))))
      = Some (Ok (index v, ''x''), pool)"
    using draw_returned [of "SubIndex 0 1" "gw_subaddresses ?g" "\<lambda>_. ''x''" "''x''"] by (auto simp: r_def publish_def v ex_late_def invoice_new_def)
  have h: "creation_height_of (ex_node 6 6) (run_gateway r) = (Ok (creation_height v), sc_world sc)"
    by (simp add: r_def publish_def creation_height_of_def dh v)
  have ph: "run_phase r = Saving (v # [])" and cur: "gw_invoices (run_gateway r) (invoice_ident v) = Some ex_late"
    by (simp_all add: r_def publish_def gw_invoices_def s i old)
  from stale_scan_overwrites_new_invoice [OF ok ex_draws run ph cur draw h, of 500 2 20 "''new''"] obtain r1 r2 where
      "(ex_conc in_memory)\<^sup>*\<^sup>* r r1" "gw_invoices (run_gateway r1) (invoice_ident v) = Some (invoice_new ''x'' (SubIndex 0 1) 7 500 2 20 ''new'')"
      "ex_conc in_memory r1 r2" "gw_invoices (run_gateway r2) (invoice_ident v) = Some v"
    unfolding v by blast
  with run amt show ?thesis by (intro exI [where x = r] exI [where x = r1] exI [where x = r2] exI [where x = v]) simp
qed

end
