(* ===== verification/Serving.thy ===== *)
theory Serving
  imports Http_Server
begin

text \<open>
  The loops that accept connections: \<open>serve_inner\<close> and \<open>serve\<close> of \<open>server/src/server/mod.rs\<close> and
  \<open>run_server\<close> of \<open>server/src/lib.rs\<close>.

  Each server runs in a task of its own and waits on one listener or two.  What its listeners return is
  the input: \<open>accept()\<close> gives a connection or an error.  A connection gets a task of its own
  (\<open>serve_connection\<close>), and the loop goes on; an error is unwrapped, which ends the task of that server
  with both its listeners.  \<open>run_server\<close> waits for both tasks and discards how they ended.
\<close>

section \<open>The loops\<close>

datatype api = ExternalApi | InternalApi

datatype listener = Ipv4 | Ipv6

type_synonym ('cnx, 'i) accept_event = "api \<times> listener \<times> ('cnx, 'i) result"

text \<open>The two servers under way: which tasks are still alive and the connections they have accepted.\<close>

record 'cnx running_servers =
  external_alive :: bool
  internal_alive :: bool
  connections :: "(api \<times> 'cnx) list"

definition alive :: "api \<Rightarrow> 'cnx running_servers \<Rightarrow> bool" where
  "alive a st = (case a of ExternalApi \<Rightarrow> external_alive st | InternalApi \<Rightarrow> internal_alive st)"

definition end_task :: "api \<Rightarrow> 'cnx running_servers \<Rightarrow> 'cnx running_servers" where
  "end_task a st = (case a of ExternalApi \<Rightarrow> st\<lparr>external_alive := False\<rparr> | InternalApi \<Rightarrow> st\<lparr>internal_alive := False\<rparr>)"

text \<open>\<open>serve\<close> waits on the listener for IPv6 when there is one.\<close>

definition listens :: "('l, 't) http_server \<Rightarrow> listener \<Rightarrow> bool" where
  "listens srv f = (case f of Ipv4 \<Rightarrow> True | Ipv6 \<Rightarrow> srv_ipv6 srv \<noteq> None)"

text \<open>One turn of the loop in \<open>serve_inner\<close>.\<close>

definition serve_inner :: "api \<Rightarrow> ('cnx, 'i) result \<Rightarrow> 'cnx running_servers \<Rightarrow> 'cnx running_servers" where
  "serve_inner a r st =
     (case r of Ok cnx \<Rightarrow> st\<lparr>connections := connections st @ [(a, cnx)]\<rparr> | _ \<Rightarrow> end_task a st)"

definition serve :: "(api \<Rightarrow> ('l, 't) http_server) \<Rightarrow> ('cnx, 'i) accept_event \<Rightarrow> 'cnx running_servers \<Rightarrow> 'cnx running_servers" where
  "serve srv e st =
     (case e of (a, f, r) \<Rightarrow> if alive a st \<and> listens (srv a) f then serve_inner a r st else st)"

definition run_server :: "(api \<Rightarrow> ('l, 't) http_server) \<Rightarrow> ('cnx, 'i) accept_event list \<Rightarrow> 'cnx running_servers" where
  "run_server srv es = fold (serve srv) es \<lparr>external_alive = True, internal_alive = True, connections = []\<rparr>"

text \<open>\<open>run_server\<close> returns once both tasks have ended.\<close>

definition run_server_returned :: "'cnx running_servers \<Rightarrow> bool" where
  "run_server_returned st \<longleftrightarrow> \<not> external_alive st \<and> \<not> internal_alive st"

section \<open>What each server accepts\<close>

text \<open>The results a server's own listeners have given, and the connections among them up to the first error.\<close>

definition results_of :: "(api \<Rightarrow> ('l, 't) http_server) \<Rightarrow> api \<Rightarrow> ('cnx, 'i) accept_event list \<Rightarrow> ('cnx, 'i) result list" where
  "results_of srv a es = map (\<lambda>(_, _, r). r) (filter (\<lambda>(b, f, _). b = a \<and> listens (srv a) f) es)"

fun until_error :: "('cnx, 'i) result list \<Rightarrow> 'cnx list" where
  "until_error (Ok cnx # rs) = cnx # until_error rs"
| "until_error _ = []"

definition connections_of :: "api \<Rightarrow> 'cnx running_servers \<Rightarrow> 'cnx list" where
  "connections_of a st = map snd (filter (\<lambda>p. fst p = a) (connections st))"

fun is_Ok :: "('a, 'e) result \<Rightarrow> bool" where
  "is_Ok (Ok a) \<longleftrightarrow> True"
| "is_Ok _ \<longleftrightarrow> False"

lemma alive_simps [simp]:
  "alive a (end_task b st) \<longleftrightarrow> alive a st \<and> a \<noteq> b" "alive a (st\<lparr>connections := cs\<rparr>) \<longleftrightarrow> alive a st"
  "connections (end_task b st) = connections st"
  by (auto simp: alive_def end_task_def split: api.splits)

lemma serve_fold:
  "connections_of a (fold (serve srv) es st) = connections_of a st @ (if alive a st then until_error (results_of srv a es) else [])
   \<and> (alive a (fold (serve srv) es st) \<longleftrightarrow> alive a st \<and> list_all is_Ok (results_of srv a es))"
proof (induction es arbitrary: st)
  case (Cons e es)
  obtain b f r where e: "e = (b, f, r)" by (metis prod_cases3)
  show ?case
  proof (cases "alive b st \<and> listens (srv b) f")
    case True
    with Cons.IH [of "serve_inner b r st"] show ?thesis
      by (cases r) (auto simp: e serve_def serve_inner_def results_of_def connections_of_def)
  next
    case False
    with Cons.IH [of st] show ?thesis
      by (cases "b = a") (auto simp: e serve_def results_of_def)
  qed
qed (simp add: results_of_def)

section \<open>Properties\<close>

text \<open>
  C36. A server stops accepting at the first error of its listeners, and the other goes on.  Each server
  takes exactly the connections its listeners give before their first error, an error of the listener
  for IPv6 ends the one for IPv4 too, and the process stays up with one server left: \<open>run_server\<close> only
  returns once both have failed.
\<close>

theorem accept_error_ends_one_server:
  "connections_of a (run_server srv es) = until_error (results_of srv a es)
   \<and> (alive a (run_server srv es) \<longleftrightarrow> list_all is_Ok (results_of srv a es))
   \<and> (run_server_returned (run_server srv es)
        \<longleftrightarrow> \<not> list_all is_Ok (results_of srv ExternalApi es) \<and> \<not> list_all is_Ok (results_of srv InternalApi es))"
  using serve_fold [of a srv es] serve_fold [of ExternalApi srv es "\<lparr>external_alive = True, internal_alive = True, connections = []\<rparr>"]
    serve_fold [of InternalApi srv es "\<lparr>external_alive = True, internal_alive = True, connections = []\<rparr>"]
  by (cases a) (simp_all add: run_server_def run_server_returned_def alive_def connections_of_def)

end
