(* ===== verification/Custom_Storage.thy ===== *)
theory Custom_Storage
  imports In_Memory
begin

text \<open>
  \<open>library/examples/custom_storage/main.rs\<close>: the store that shows how an application implements the
  storage traits itself.  It is compared with the in-memory store of the library: \<open>storage_simulation\<close>
  states when one store behaves like another under a function on their states, and such a store
  inherits the contract.
\<close>

section \<open>The store and its methods\<close>

datatype my_custom_storage_error = MyDuplicateInvoice | MyDuplicateOutputKey

record my_custom_storage =
  my_invoices :: "(invoice_id, invoice) btree_map"
  my_output_keys :: "(output_pub_key, output_id) btree_map"
  my_height :: "u64 option"

definition my_new :: my_custom_storage where
  "my_new = \<lparr>my_invoices = [], my_output_keys = [], my_height = None\<rparr>"

definition my_invoice_insert ::
  "invoice \<Rightarrow> my_custom_storage \<Rightarrow> (unit, my_custom_storage_error) result \<times> my_custom_storage" where
  "my_invoice_insert invoice self =
     (if map_of (my_invoices self) (invoice_ident invoice) \<noteq> None then (Err MyDuplicateInvoice, self)
      else (Ok (), self\<lparr>my_invoices := bt_insert (invoice_ident invoice) invoice (my_invoices self)\<rparr>))"

definition my_invoice_remove ::
  "invoice_id \<Rightarrow> my_custom_storage \<Rightarrow> (invoice option, my_custom_storage_error) result \<times> my_custom_storage" where
  "my_invoice_remove invoice_id self =
     (Ok (map_of (my_invoices self) invoice_id), self\<lparr>my_invoices := bt_remove invoice_id (my_invoices self)\<rparr>)"

text \<open>\<open>entry\<close>: the occupied entry's value is replaced in place.\<close>

definition my_invoice_update ::
  "invoice \<Rightarrow> my_custom_storage \<Rightarrow> (invoice option, my_custom_storage_error) result \<times> my_custom_storage" where
  "my_invoice_update invoice self =
     (case map_of (my_invoices self) (invoice_ident invoice) of
        Some old \<Rightarrow> (Ok (Some old), self\<lparr>my_invoices := bt_insert (invoice_ident invoice) invoice (my_invoices self)\<rparr>)
      | None \<Rightarrow> (Ok None, self))"

definition my_invoice_get :: "invoice_id \<Rightarrow> my_custom_storage \<Rightarrow> (invoice option, my_custom_storage_error) result" where
  "my_invoice_get invoice_id self = Ok (map_of (my_invoices self) invoice_id)"

definition my_get_ids :: "my_custom_storage \<Rightarrow> (invoice_id list, my_custom_storage_error) result" where
  "my_get_ids self = Ok (map fst (my_invoices self))"

definition my_contains_sub_index :: "sub_index \<Rightarrow> my_custom_storage \<Rightarrow> (bool, my_custom_storage_error) result" where
  "my_contains_sub_index idx self = Ok (filter (\<lambda>p. InvoiceId idx 0 \<le> fst p) (my_invoices self) \<noteq> [])"

definition my_rows ::
  "my_custom_storage \<Rightarrow> ((invoice, my_custom_storage_error) result list, my_custom_storage_error) result" where
  "my_rows self = Ok (map (\<lambda>(_, invoice). Ok invoice) (my_invoices self))"

definition my_is_empty :: "my_custom_storage \<Rightarrow> (bool, my_custom_storage_error) result" where
  "my_is_empty self = Ok (my_invoices self = [])"

definition my_key_insert ::
  "output_pub_key \<Rightarrow> output_id \<Rightarrow> my_custom_storage \<Rightarrow> (unit, my_custom_storage_error) result \<times> my_custom_storage" where
  "my_key_insert key output_id self =
     (if map_of (my_output_keys self) key \<noteq> None then (Err MyDuplicateOutputKey, self)
      else (Ok (), self\<lparr>my_output_keys := bt_insert key output_id (my_output_keys self)\<rparr>))"

definition my_key_get :: "output_pub_key \<Rightarrow> my_custom_storage \<Rightarrow> (output_id option, my_custom_storage_error) result" where
  "my_key_get key self = Ok (map_of (my_output_keys self) key)"

definition my_height_upsert ::
  "u64 \<Rightarrow> my_custom_storage \<Rightarrow> (u64 option, my_custom_storage_error) result \<times> my_custom_storage" where
  "my_height_upsert h self = (let old_height = my_height self in (Ok old_height, self\<lparr>my_height := Some h\<rparr>))"

definition my_height_get :: "my_custom_storage \<Rightarrow> (u64 option, my_custom_storage_error) result" where
  "my_height_get self = Ok (my_height self)"

text \<open>\<open>flush\<close> is the trait's default method.\<close>

definition custom_storage :: "(my_custom_storage, my_custom_storage_error) storage" where
  "custom_storage =
     \<lparr>inv_insert = my_invoice_insert, inv_remove = my_invoice_remove, inv_update = my_invoice_update,
      inv_get = my_invoice_get, inv_get_ids = my_get_ids, inv_contains_sub_index = my_contains_sub_index,
      inv_rows = my_rows, inv_is_empty = my_is_empty, key_insert = my_key_insert, key_get = my_key_get,
      height_upsert = my_height_upsert, height_get = my_height_get, store_flush = (\<lambda>_. Ok ())\<rparr>"

section \<open>One store simulates another\<close>

locale storage_simulation = full_storage S wf invoices out_keys stored_height
  for S :: "('s, 'e) storage" and wf :: "'s \<Rightarrow> bool"
    and invoices :: "'s \<Rightarrow> invoice_id \<Rightarrow> invoice option"
    and out_keys :: "'s \<Rightarrow> output_pub_key \<Rightarrow> output_id option"
    and stored_height :: "'s \<Rightarrow> u64 option" +
  fixes T :: "('t, 'd) storage" and abs_state :: "'t \<Rightarrow> 's" and abs_error :: "'d \<Rightarrow> 'e"
  assumes sim_insert: "inv_insert S v (abs_state t) = map_prod (map_err abs_error) abs_state (inv_insert T v t)"
    and sim_remove: "inv_remove S i (abs_state t) = map_prod (map_err abs_error) abs_state (inv_remove T i t)"
    and sim_update: "inv_update S v (abs_state t) = map_prod (map_err abs_error) abs_state (inv_update T v t)"
    and sim_get: "inv_get S i (abs_state t) = map_err abs_error (inv_get T i t)"
    and sim_get_ids: "inv_get_ids S (abs_state t) = map_err abs_error (inv_get_ids T t)"
    and sim_contains: "inv_contains_sub_index S idx (abs_state t) = map_err abs_error (inv_contains_sub_index T idx t)"
    and sim_rows: "inv_rows S (abs_state t) = map_err abs_error (map_ok (map (map_err abs_error)) (inv_rows T t))"
    and sim_is_empty: "inv_is_empty S (abs_state t) = map_err abs_error (inv_is_empty T t)"
    and sim_key_insert: "key_insert S k oid (abs_state t) = map_prod (map_err abs_error) abs_state (key_insert T k oid t)"
    and sim_key_get: "key_get S k (abs_state t) = map_err abs_error (key_get T k t)"
    and sim_upsert: "height_upsert S h (abs_state t) = map_prod (map_err abs_error) abs_state (height_upsert T h t)"
    and sim_height_get: "height_get S (abs_state t) = map_err abs_error (height_get T t)"
    and sim_flush: "store_flush S (abs_state t) = map_err abs_error (store_flush T t)"
begin

lemma sim_state: "abs_state (snd p) = snd (map_prod (map_err abs_error) abs_state p)"
  by (cases p) simp

lemma sim_Ok:
  assumes "q = map_prod (map_err abs_error) abs_state p" and "p = (Ok a, t')"
  shows "q = (Ok a, abs_state t')"
  using assms by simp

lemma sim_not_Ok:
  assumes "q = map_prod (map_err abs_error) abs_state p" and "p = (r, t')" and "r \<noteq> Ok a"
  shows "\<exists>r'. q = (r', abs_state t') \<and> r' \<noteq> Ok a"
  using assms by (cases r) simp_all

lemma rows_Ok:
  assumes "inv_rows T t = Ok rows"
  shows "inv_rows S (abs_state t) = Ok (map (map_err abs_error) rows)"
  using sim_rows [of t] assms by simp

end

sublocale storage_simulation \<subseteq> simulated: full_storage T "\<lambda>t. wf (abs_state t)" "\<lambda>t. invoices (abs_state t)"
  "\<lambda>t. out_keys (abs_state t)" "\<lambda>t. stored_height (abs_state t)"
proof (unfold_locales, goal_cases)
  case (1 s i v)
  then show ?case by (rule ident)
next
  case (2 s v)
  then show ?case using insert_wf by (simp add: sim_state sim_insert [symmetric])
next
  case (3 s v s')
  then show ?case using insert_Ok [OF _ sim_Ok [OF sim_insert]] by blast
next
  case (4 s v ru s')
  from sim_not_Ok [OF sim_insert 4(2,3)] insert_fail [OF 4(1)] show ?case by blast
next
  case (5 s i)
  then show ?case using remove_wf by (simp add: sim_state sim_remove [symmetric])
next
  case (6 s i r s')
  then show ?case using remove_Ok [OF _ sim_Ok [OF sim_remove]] by blast
next
  case (7 s i rv s')
  have "inv_remove S i (abs_state s) = (map_err abs_error rv, abs_state s')" using sim_remove [of i s] 7 by simp
  then show ?case using remove_fail [OF 7(1)] 7(3) by (metis map_err_eq_Ok)
next
  case (8 s v)
  then show ?case using update_wf by (simp add: sim_state sim_update [symmetric])
next
  case (9 s v r s')
  then show ?case using update_Ok [OF _ sim_Ok [OF sim_update]] by blast
next
  case (10 s v rv s')
  have "inv_update S v (abs_state s) = (map_err abs_error rv, abs_state s')" using sim_update [of v s] 10 by simp
  then show ?case using update_fail [OF 10(1)] 10(3) by (metis map_err_eq_Ok)
next
  case (11 s i r)
  with get_Ok [of "abs_state s" i r] show ?case by (simp add: sim_get)
next
  case (12 s ids)
  with get_ids_Ok [of "abs_state s" ids] show ?case by (simp add: sim_get_ids)
next
  case (13 s i v)
  with contains_complete [of "abs_state s" i v] show ?case by (auto simp: sim_contains)
next
  case (14 s rows v)
  have "Ok v \<in> set (map (map_err abs_error) rows)" using 14(3) by force
  then show ?case using rows_sound [OF 14(1) rows_Ok [OF 14(2)]] by blast
next
  case (15 s rows i v)
  have "\<forall>row \<in> set (map (map_err abs_error) rows). \<exists>x. row = Ok x" using 15(4) by force
  then have "Ok v \<in> map_err abs_error ` set rows" using rows_complete [OF 15(1) rows_Ok [OF 15(2)] 15(3)] by simp
  then obtain row where row: "row \<in> set rows" "Ok v = map_err abs_error row" by blast
  from row(2) have "row = Ok v" by (cases row) simp_all
  with row(1) show ?case by simp
next
  case (16 s k oid)
  then show ?case using key_insert_wf by (simp add: sim_state sim_key_insert [symmetric])
next
  case (17 s k oid s')
  then show ?case using key_insert_Ok [OF 17(1) sim_Ok [OF sim_key_insert 17(2)]] by blast
next
  case (18 s k oid ru s')
  from sim_not_Ok [OF sim_key_insert 18(2,3)] key_insert_fail [OF 18(1)] show ?case by blast
next
  case (19 s k r)
  with key_get_Ok [of "abs_state s" k r] show ?case by (simp add: sim_key_get)
next
  case (20 s h)
  then show ?case using upsert_wf by (simp add: sim_state sim_upsert [symmetric])
next
  case (21 s h r s')
  then show ?case using upsert_Ok [OF _ sim_Ok [OF sim_upsert]] by blast
next
  case (22 s r)
  with height_get_Ok [of "abs_state s" r] show ?case by (simp add: sim_height_get)
qed (simp_all add: sim_state sim_key_insert [symmetric] sim_upsert [symmetric] sim_update [symmetric] sim_insert [symmetric]
    sim_remove [symmetric] key_insert_invoices upsert_invoices upsert_keys update_keys insert_keys remove_keys)

section \<open>The example behaves like the in-memory store\<close>

definition to_in_memory :: "my_custom_storage \<Rightarrow> in_memory_store" where
  "to_in_memory s = \<lparr>im_invoices = my_invoices s, im_output_keys = my_output_keys s, im_height = my_height s\<rparr>"

fun to_in_memory_error :: "my_custom_storage_error \<Rightarrow> in_memory_storage_error" where
  "to_in_memory_error MyDuplicateInvoice = DuplicateInvoice"
| "to_in_memory_error MyDuplicateOutputKey = DuplicateOutputKey"

lemmas my_method_defs = my_invoice_insert_def my_invoice_remove_def my_invoice_update_def my_invoice_get_def my_get_ids_def
  my_contains_sub_index_def my_rows_def my_is_empty_def my_key_insert_def my_key_get_def my_height_upsert_def my_height_get_def

interpretation cs: storage_simulation in_memory im_wf im_invoice_map im_key_map im_height custom_storage to_in_memory to_in_memory_error
  by unfold_locales (auto simp: custom_storage_def to_in_memory_def my_method_defs im_method_defs im_contains_sub_index_def
      split: option.splits)

section \<open>Properties\<close>

text \<open>
  The example of a storage implemented by an application keeps the contract of the storage traits:
  it behaves as the library's in-memory store does, call by call.  It also shares that store's fault:
  \<open>contains_sub_index\<close> reports every index up to the largest one in use.
\<close>

theorem custom_storage_keeps_contract:
  "full_storage custom_storage (\<lambda>s. im_wf (to_in_memory s)) (\<lambda>s. im_invoice_map (to_in_memory s))
     (\<lambda>s. im_key_map (to_in_memory s)) (\<lambda>s. im_height (to_in_memory s))
   \<and> im_wf (to_in_memory my_new)
   \<and> (my_contains_sub_index idx s = Ok b \<longleftrightarrow> b = (\<exists>p \<in> set (my_invoices s). idx \<le> sub_index (fst p)))"
proof (intro conjI)
  show "my_contains_sub_index idx s = Ok b \<longleftrightarrow> b = (\<exists>p \<in> set (my_invoices s). idx \<le> sub_index (fst p))"
    using im_contains_iff [of idx "to_in_memory s" b] by (simp add: my_contains_sub_index_def im_contains_sub_index_def to_in_memory_def)
qed (rule cs.simulated.full_storage_axioms, simp add: my_new_def to_in_memory_def im_wf_def)

end
