(* ===== verification/Amounts.thy ===== *)
theory Amounts
  imports Complex_Main Invoice
begin

text \<open>
  \<open>xmr_requested\<close> and \<open>xmr_paid\<close> of \<open>library/src/invoice.rs\<close>: amounts in XMR as \<open>f64\<close>.

  A positive \<open>f64\<close> is a rational with a 53-bit significand.  \<open>f64_round\<close> is IEEE 754 rounding to nearest,
  ties to even, for zero and the values from \<open>2^-1022\<close> on; every value here is zero or at least
  \<open>10^-12\<close> and below \<open>2^25\<close>.  A cast from \<open>u64\<close>, a division and a sum are the exact results rounded once.
\<close>

section \<open>Rounding\<close>

definition round_half_even :: "rat \<Rightarrow> int" where
  "round_half_even x =
     (let n = \<lfloor>x\<rfloor>; d = x - of_int n
      in if d < 1 / 2 \<or> d = 1 / 2 \<and> even n then n else n + 1)"

text \<open>The exponent: the largest power of two that is not above the value.\<close>

definition f64_exponent :: "rat \<Rightarrow> int" where
  "f64_exponent x = last (filter (\<lambda>k. 2 powi k \<le> x) [-1022..1023])"

definition f64_round :: "rat \<Rightarrow> rat" where
  "f64_round x =
     (if x = 0 then 0
      else let unit_in_last_place = 2 powi (f64_exponent x - 52)
           in of_int (round_half_even (x / unit_in_last_place)) * unit_in_last_place)"

definition as_f64 :: "u64 \<Rightarrow> rat" where
  "as_f64 n = f64_round (of_nat (unat n))"

section \<open>Amounts in XMR\<close>

definition xmr_requested :: "invoice \<Rightarrow> rat" where
  "xmr_requested self =
     (let whole_xmr = amount_requested self div PICONEROS_PER_XMR;
          fractional_xmr = f64_round (as_f64 (amount_requested self mod PICONEROS_PER_XMR) / as_f64 PICONEROS_PER_XMR)
      in f64_round (as_f64 whole_xmr + fractional_xmr))"

definition xmr_paid :: "invoice \<Rightarrow> rat" where
  "xmr_paid self =
     (let whole_xmr = amount_paid self div PICONEROS_PER_XMR;
          fractional_xmr = f64_round (as_f64 (amount_paid self mod PICONEROS_PER_XMR) / as_f64 PICONEROS_PER_XMR)
      in f64_round (as_f64 whole_xmr + fractional_xmr))"

section \<open>The error of one rounding\<close>

lemma round_half_even_error: "\<bar>of_int (round_half_even x) - x\<bar> \<le> 1 / 2"
proof -
  have "0 \<le> x - of_int \<lfloor>x\<rfloor>" "x - of_int \<lfloor>x\<rfloor> < 1" by linarith+
  then show ?thesis unfolding round_half_even_def Let_def by (auto simp: abs_le_iff field_simps)
qed

lemma round_half_even_int [simp]: "round_half_even (of_int n) = n"
  by (simp add: round_half_even_def)

lemma f64_exponent:
  assumes "2 powi (-1022) \<le> x"
  shows "2 powi f64_exponent x \<le> x" and "x < 2 powi (K + 1) \<Longrightarrow> f64_exponent x \<le> K"
proof -
  define a b :: int where "a = -1022" and "b = 1023"
  let ?ks = "filter (\<lambda>k. 2 powi k \<le> x) [a..b]"
  have "a \<in> set ?ks" using assms by (simp add: a_def b_def del: power_int_minus_left)
  then have "?ks \<noteq> []" by force
  then have "last ?ks \<in> set ?ks" by (rule last_in_set)
  then show le: "2 powi f64_exponent x \<le> x" by (simp add: f64_exponent_def a_def [symmetric] b_def [symmetric])
  show "f64_exponent x \<le> K" if "x < 2 powi (K + 1)"
  proof -
    have "(2 :: rat) powi f64_exponent x < 2 powi (K + 1)" using le that by simp
    then have "f64_exponent x < K + 1" by (metis linorder_not_less power_int_increasing one_le_numeral)
    then show ?thesis by simp
  qed
qed

lemma f64_round_error:
  assumes "x = 0 \<or> 2 powi (-1022) \<le> x" and "x < 2 powi (K + 1)"
  shows "\<bar>f64_round x - x\<bar> \<le> 2 powi (K - 53)"
proof (cases "x = 0")
  case False
  with assms(1) have x: "2 powi (-1022) \<le> x" by simp
  define u :: rat where "u = 2 powi (f64_exponent x - 52)"
  have u: "0 < u" by (simp add: u_def)
  have "f64_round x - x = (of_int (round_half_even (x / u)) - x / u) * u"
    using False u by (simp add: f64_round_def u_def [symmetric] Let_def algebra_simps)
  then have "\<bar>f64_round x - x\<bar> = \<bar>of_int (round_half_even (x / u)) - x / u\<bar> * u" using u by (simp add: abs_mult)
  also have "\<dots> \<le> 1 / 2 * u" using round_half_even_error u by (intro mult_right_mono) auto
  also have "\<dots> = 2 powi (f64_exponent x - 53)" by (simp add: u_def power_int_diff)
  also have "\<dots> \<le> 2 powi (K - 53)" using f64_exponent(2) [OF x assms(2)] by (intro power_int_increasing) auto
  finally show ?thesis .
qed (simp add: f64_round_def)

lemma tiny: "(2 :: rat) powi (-1022) \<le> 2 powi (-41)"
  by (rule power_int_increasing) simp_all

lemma f64_round_nat:
  assumes "n < 2 ^ 53"
  shows "f64_round (of_nat n) = of_nat n"
proof (cases "n = 0")
  case False
  define e where "e = f64_exponent (of_nat n)"
  have "(2 :: rat) powi (-1022) \<le> of_nat n" using tiny False by (intro order_trans [OF tiny]) simp
  moreover have "(of_nat n :: rat) < 2 powi (52 + 1)" using assms by (simp add: power_int_def)
  ultimately have e: "e \<le> 52" unfolding e_def by (rule f64_exponent(2))
  have p: "(2 :: rat) powi (52 - e) = of_int (2 ^ nat (52 - e))" using e by (simp add: power_int_def)
  have "(of_nat n :: rat) / 2 powi (e - 52) = of_nat n * 2 powi (52 - e)" by (simp add: power_int_diff)
  also have "\<dots> = of_int (int n * 2 ^ nat (52 - e))" by (simp add: p)
  finally have q: "(of_nat n :: rat) / 2 powi (e - 52) = of_int (int n * 2 ^ nat (52 - e))" .
  have "f64_round (of_nat n) = of_int (round_half_even (of_nat n / 2 powi (e - 52))) * 2 powi (e - 52)"
    using False by (simp add: f64_round_def e_def Let_def)
  also have "\<dots> = of_nat n / 2 powi (e - 52) * 2 powi (e - 52)" unfolding q round_half_even_int ..
  also have "\<dots> = of_nat n" by simp
  finally show ?thesis .
qed (simp add: f64_round_def)

lemma as_f64_exact: "unat n < 2 ^ 53 \<Longrightarrow> as_f64 n = of_nat (unat n)"
  unfolding as_f64_def by (rule f64_round_nat)

text \<open>The two parts of an amount, and how far the sum of their roundings is from the exact quotient.\<close>

lemma fraction_close:
  fixes m :: nat
  assumes "m < 10 ^ 12" and "q = of_nat m / 10 ^ 12"
  shows "\<bar>f64_round q - q\<bar> \<le> 2 powi (-54)" and "f64_round q < 1" and "f64_round q = 0 \<or> 2 powi (-41) \<le> f64_round q"
proof -
  have top: "q \<le> 1 - 1 / 10 ^ 12"
  proof -
    have "(of_nat m :: rat) \<le> of_nat (10 ^ 12 - 1)" using assms(1) by (intro of_nat_mono) simp
    then show ?thesis by (simp add: assms(2) field_simps)
  qed
  have low: "q = 0 \<or> 1 / 10 ^ 12 \<le> q" by (cases m) (simp_all add: assms(2) field_simps)
  have "(2 :: rat) powi (-41) \<le> 1 / 10 ^ 12" by (simp add: power_int_def field_simps)
  with low tiny have "q = 0 \<or> 2 powi (-1022) \<le> q" by (metis order_trans)
  moreover have "q < 2 powi (-1 + 1)" using top by simp
  ultimately show err: "\<bar>f64_round q - q\<bar> \<le> 2 powi (-54)" using f64_round_error [of q "-1"] by simp
  have "(2 :: rat) powi (-54) < 1 / 10 ^ 12" by (simp add: power_int_def field_simps)
  with err top show "f64_round q < 1" by linarith
  have "(2 :: rat) powi (-41) + 2 powi (-54) \<le> 1 / 10 ^ 12" by (simp add: power_int_def field_simps)
  with err low show "f64_round q = 0 \<or> 2 powi (-41) \<le> f64_round q" by (cases "q = 0") (simp add: f64_round_def, linarith)
qed

definition exact_xmr :: "u64 \<Rightarrow> rat" where
  "exact_xmr n = of_nat (unat n) / 10 ^ 12"

lemma xmr_close:
  fixes n :: u64
  assumes "unat n div 10 ^ 12 < 2 ^ Suc K"
  shows "\<bar>f64_round (as_f64 (n div PICONEROS_PER_XMR) + f64_round (as_f64 (n mod PICONEROS_PER_XMR) / as_f64 PICONEROS_PER_XMR))
      - exact_xmr n\<bar> \<le> 2 powi (int K - 53) + 2 powi (-54)"
proof -
  have P: "unat PICONEROS_PER_XMR = 10 ^ 12" by (simp add: PICONEROS_PER_XMR_def)
  define w m q where "w = unat n div 10 ^ 12" and "m = unat n mod 10 ^ 12" and "q = (of_nat m :: rat) / 10 ^ 12"
  have "unat n < 2 ^ 64" using unsigned_less [of n] by simp
  then have "w < 2 ^ 53" "m < 10 ^ 12" by (simp_all add: w_def m_def)
  then have parts: "as_f64 (n div PICONEROS_PER_XMR) = of_nat w" "as_f64 (n mod PICONEROS_PER_XMR) = of_nat m"
      "as_f64 PICONEROS_PER_XMR = 10 ^ 12"
    by (simp_all add: as_f64_exact unat_div unat_mod P w_def m_def)
  have ex: "exact_xmr n = of_nat w + q"
  proof -
    have "(of_nat (unat n) :: rat) = of_nat (w * 10 ^ 12 + m)" by (simp add: w_def m_def)
    then show ?thesis by (simp add: exact_xmr_def q_def field_simps)
  qed
  note fr = fraction_close [OF \<open>m < 10 ^ 12\<close> q_def]
  define s where "s = of_nat w + f64_round q"
  have "s = 0 \<or> 2 powi (-41) \<le> s"
    using fr(3)
  proof
    assume "f64_round q = 0"
    moreover have "w = 0 \<or> (2 :: rat) powi (-41) \<le> of_nat w"
      by (cases w) (simp_all add: power_int_def field_simps)
    ultimately show ?thesis by (auto simp: s_def)
  qed (simp add: s_def add_increasing)
  with tiny have "s = 0 \<or> 2 powi (-1022) \<le> s" by (metis order_trans)
  moreover have "s < 2 powi (int K + 1)"
  proof -
    have "(of_nat (w + 1) :: rat) \<le> of_nat (2 ^ Suc K)" using assms by (intro of_nat_mono) (simp add: w_def)
    then show ?thesis using fr(2) by (simp add: s_def power_int_def nat_add_distrib)
  qed
  ultimately have "\<bar>f64_round s - s\<bar> \<le> 2 powi (int K - 53)" by (rule f64_round_error)
  with fr(1) show ?thesis unfolding parts ex q_def [symmetric] s_def by linarith
qed

section \<open>Properties\<close>

text \<open>
  C34. The amounts in XMR are close to the amounts in piconeros.  Both are off by less than two billionths
  of an XMR for every amount a \<open>u64\<close> can hold; and below 8192 XMR they are so close that the number of
  piconeros can be read off them: the nearest multiple of a piconero is the amount.
\<close>

theorem xmr_amounts_are_close:
  "\<bar>xmr_requested v - exact_xmr (amount_requested v)\<bar> \<le> 2 powi (-29) + 2 powi (-54)
   \<and> \<bar>xmr_paid v - exact_xmr (amount_paid v)\<bar> \<le> 2 powi (-29) + 2 powi (-54)
   \<and> (unat (amount_requested v) < 8192 * 10 ^ 12 \<longrightarrow> round (xmr_requested v * 10 ^ 12) = int (unat (amount_requested v)))
   \<and> (unat (amount_paid v) < 8192 * 10 ^ 12 \<longrightarrow> round (xmr_paid v * 10 ^ 12) = int (unat (amount_paid v)))"
proof -
  have any: "unat a div 10 ^ 12 < 2 ^ Suc 24" for a :: u64
  proof -
    have "unat a < 2 ^ 64" using unsigned_less [of a] by simp
    then show ?thesis by simp
  qed
  have near: "round (x * 10 ^ 12) = int (unat a)"
    if "\<bar>x - exact_xmr a\<bar> \<le> 2 powi (int 12 - 53) + 2 powi (-54)" for x and a :: u64
  proof -
    have "(2 powi (int 12 - 53) + 2 powi (-54)) * 10 ^ 12 < (1 / 2 :: rat)" by (simp add: power_int_def field_simps)
    moreover have "\<bar>x * 10 ^ 12 - of_int (int (unat a))\<bar> = \<bar>x - exact_xmr a\<bar> * 10 ^ 12"
    proof -
      have "x * 10 ^ 12 - of_int (int (unat a)) = (x - exact_xmr a) * 10 ^ 12" by (simp add: exact_xmr_def left_diff_distrib)
      then show ?thesis by (simp only: abs_mult) simp
    qed
    ultimately have "\<bar>x * 10 ^ 12 - of_int (int (unat a))\<bar> < 1 / 2" using that by (simp add: mult_right_mono order_le_less_trans)
    then show ?thesis by (rule round_unique')
  qed
  have small: "unat a div 10 ^ 12 < 2 ^ Suc 12" if "unat a < 8192 * 10 ^ 12" for a :: u64 using that by simp
  show ?thesis
    using xmr_close [OF any, of "amount_requested v"] xmr_close [OF any, of "amount_paid v"]
      near [OF xmr_close [OF small], of "amount_requested v"] near [OF xmr_close [OF small], of "amount_paid v"]
    by (simp add: xmr_requested_def xmr_paid_def Let_def)
qed

theorem xmr_amounts_are_close_witness:
  "round (xmr_requested (invoice_new ''a'' (SubIndex 0 1) 3 1000000000 5 6 ''d'') * 10 ^ 12) = 1000000000
   \<and> round (xmr_paid (invoice_new ''a'' (SubIndex 0 1) 3 1000000000 5 6 ''d'') * 10 ^ 12) = 0"
  using xmr_amounts_are_close [of "invoice_new ''a'' (SubIndex 0 1) 3 1000000000 5 6 ''d''"] by (simp add: invoice_new_def)

end
