(* ===== verification/Spec2Isabelle.thy ===== *)
theory Spec2Isabelle
  imports Storage_Client Opening Monerod_Client System Interleaving Serving Custom_Storage Amounts
begin

text \<open>
  AcceptXMR: a verification library for the payment gateway (\<open>src/library\<close>) and the stand-alone server
  built on it (\<open>src/server\<close>).

  \<^bold>\<open>The program.\<close>  A merchant asks the gateway for invoices.  Each invoice gets a subaddress of the
  merchant's wallet from the subaddress cache and is put into a store.  A scanning task follows the
  monero chain: it updates a cache of the latest blocks and a cache of the transaction pool through the
  daemon's RPC interface, looks for outputs that belong to the wallet, records output keys so that no
  key is credited twice, adds the transfers to the invoices and sends the changed invoices to
  subscribers.  The store is owned by a manager thread that serves messages of a client.  The server
  offers invoices over two HTTP APIs, forwards updates over websockets, calls the merchant's callbacks
  through a queue that retries, and removes finished invoices.

  \<^bold>\<open>Theories and sources.\<close>
  \<^item> \<open>Prelude\<close>, \<open>Strings\<close>: machine integers as words (overflow wraps, as in the release profile of the
    workspace), the type \<open>result\<close> with \<open>Ok\<close>, \<open>Err\<close> and \<open>Panic\<close>, the \<open>?\<close> operator with and without a
    state, ordered and hashed maps, and the string functions the sources call.
  \<^item> \<open>Invoice\<close>: \<open>invoice.rs\<close>, that is invoices, transfers, subaddress indices and invoice IDs.  \<open>Amounts\<close>:
    its amounts in XMR as \<open>f64\<close>, with IEEE rounding on rationals.
  \<^item> \<open>Storage_Spec\<close>: the traits \<open>InvoiceStorage\<close>, \<open>OutputKeyStorage\<close>, \<open>HeightStorage\<close> and \<open>Storage\<close>
    (\<open>storage/*_storage.rs\<close>) as a record of operations, and what they promise as locales over an
    abstract view of the store.  \<open>In_Memory\<close>, \<open>Sled\<close> and \<open>Sqlite\<close> model \<open>storage/stores/*.rs\<close> and
    interpret the locales; \<open>Opening\<close> opens and closes the two databases.  \<open>Custom_Storage\<close> models the store
    of \<open>library/examples/custom_storage\<close>, with a locale for one store simulating another.  \<open>Storage_Client\<close> models the
    manager and the client of \<open>storage/mod.rs\<close>.
  \<^item> \<open>Pubsub\<close>: the publisher of \<open>pubsub.rs\<close>, with every send completed; \<open>Backpressure\<close>: the same loops turn
    by turn, waiting for room in the channels, and the receiving side.  \<open>Subaddress_Cache\<close>, \<open>Block_Cache\<close>, \<open>Txpool_Cache\<close>:
    \<open>caching/*.rs\<close>.  \<open>Daemon\<close>: the trait \<open>MonerodClient\<close> as a record of calls over a world that changes
    with every call.  \<open>Monerod_Client\<close> and \<open>Authentication\<close>: the RPC client that implements it, with
    its loop over digest challenges and its requests in chunks.
  \<^item> \<open>Scanner\<close>: \<open>scanner.rs\<close>, one scan from the cache updates to the stored invoices.
    \<open>Invoice_Update\<close> has the part that updates one invoice, \<open>Scanner_Correct\<close> the theorems on scans.
  \<^item> \<open>Gateway\<close>: the operations on invoices and the builder of \<open>payment_gateway.rs\<close>.  \<open>Lifecycle\<close>:
    \<open>run\<close>, \<open>status\<close>, \<open>stop\<close> and the scanning task, as a step relation.  \<open>Interleaving\<close>: \<open>new_invoice\<close>,
    \<open>remove_invoice\<close> and \<open>scan\<close> cut at their accesses to shared state, as a step relation in which the
    parts of different calls run between one another and requests may be dropped at an await.
  \<^item> \<open>Api_Types\<close>, \<open>Callbacks\<close>, \<open>Config\<close>, \<open>Server\<close>: the API's data, the callback queue as a step
    relation, the configuration with its checks, and the handlers, the bearer check, the websocket
    task and the task that watches updates of \<open>src/server/src\<close>.
  \<^item> \<open>Tls\<close>: loading and generating certificates (\<open>server/tls.rs\<close>).  \<open>Http_Server\<close>: the routes, the layers
    around them, connections and \<open>new_server\<close> (\<open>server/mod.rs\<close>, \<open>server/api\<close>).  \<open>Serving\<close>: the loops that
    accept connections and \<open>run_server\<close>.
  \<^item> \<open>System\<close>: \<open>entrypoint\<close> and \<open>spawn_gateway\<close> of \<open>server/src/lib.rs\<close>, and the running server as a step
    relation over requests, scans, the watching task, callbacks and websocket clients.

  \<^bold>\<open>How the code is modelled.\<close>  A struct is a record, an enum a datatype, and an error a value.  A
  method that changes its object returns the object changed, also when it returns an error: the model
  says what is left behind by every early return.  A method that changes nothing returns no object.
  The manager of the store is \<open>Some\<close> store, and \<open>None\<close> once a panic has ended its thread.  Hash maps are
  association lists: theorems do not rely on their order where the source does not.  Where the code
  takes a lock, waits or hands work to a task, there is a step relation whose steps are the pieces
  between two such points (\<open>Lifecycle\<close>, \<open>Callbacks\<close>, \<open>Backpressure\<close>, \<open>Interleaving\<close>, \<open>System\<close>); elsewhere an operation
  runs as a whole.  In \<open>System\<close> a request and a scan are one step each; \<open>Interleaving\<close> cuts those that
  change invoices or subaddresses into their parts and shows that the parts without interruption make
  the whole operation.  The two
  halves of \<open>join!\<close> in a scan run one after the other; each works on its own part of the state, except
  for the daemon and the table of output keys, which they share.

  \<^bold>\<open>What is shown.\<close>
  \<^item> Storage: each of the three stores keeps the contract of the traits, whatever call of the database
    fails (for SQLite: except COMMIT), and a call of the client has exactly the effect of the method
    of the store.  The in-memory store answers \<open>contains_sub_index\<close> with too many indices, the other
    two exactly.  An SQLite update of an unknown invoice leaves its transaction open.  A restart keeps
    what an SQLite store has committed.  The store of the example behaves as the in-memory store.
  \<^item> Invoices: IDs convert to 128-bit numbers and to text and back; the payment URI names the amount
    due; updating one invoice refines a ledger of transfers, and its books (amount paid, paid height)
    agree with the transfers.  Amounts in XMR are off by less than two billionths of an XMR, and by less
    than half a piconero below 8192 XMR.
  \<^item> Caches: the block cache keeps its shape and follows a chain through reorganisations; the pool
    cache holds the daemon's pool and reports each transaction once; drawing a subaddress ends, and
    never gives one that is in use.
  \<^item> Scans: a scan refreshes every invoice, keeps all books, and never credits an output key twice
    over any sequence of scans.  A restart counts payments in cached blocks twice.
  \<^item> Subscribers: with room in the channels the loops end where the whole send does; one subscriber that
    does not read stops the scanner; a restart drops the subscribers of stored invoices.
  \<^item> Gateway: through any sequence of operations no two invoices share a subaddress; creating and
    removing an invoice change exactly that invoice; at most one task scans as long as calls of \<open>run\<close>
    do not overlap, \<open>stop\<close> ends it, and \<open>status\<close> after its end waits for itself.
  \<^item> Interleavings: in every order of the parts, with any requests dropped, subaddresses stay apart, also
    from those that requests under way hold.  A dropped request loses its subaddress; a removal between
    the read and the write of a scan leaves SQLite in an open transaction for good; and a scan can
    overwrite an invoice created under the same ID in between.
  \<^item> RPC client: printed challenges are read back, nonce counts are not repeated, transactions are
    fetched in chunks that make up the request, and refused credentials are tried for ever.
  \<^item> Server: a created invoice is served under its ID and gone after its deletion; websocket clients
    see the updates up to the one that settles the invoice; accepted callback reports are not lost
    and their delays are bounded; loaded configurations are complete and build a gateway.
    Connections without the token reach nothing of the internal API, the external API only reads, every
    reply has the form of its route, and a bad request changes nothing.  Certificates are stable.  An
    error of a listener ends its server, and the other goes on.
  \<^item> The whole server: from its start and through any interleaving, invoices keep their own
    subaddresses, every invoice changed by a scan is on its way to the callbacks, and no update is lost
    on the way.  An update that is old when it is handled can remove an invoice paid in between.

  \<^bold>\<open>Loops.\<close>  Loops over data are structural.  \<open>remove_random\<close> may not return (its result is an option,
  and it is shown to return when the pool is not empty); the challenge loop of the RPC client is a partial
  function into options.  The repair loop of the block cache runs over a count that is the length of
  the cache, the bound of the source.  No other fuel is used.

  \<^bold>\<open>Parameters.\<close>  Code outside the repository enters as arguments: the monero crate (subaddress
  derivation, the check of outputs), random generators, the daemon, bincode, sled and SQLite with the
  calls that fail, MD5, HTTP sending, JSON, base64, YAML, the file system and the environment.  What a
  theorem relies on is a hypothesis of it or of a locale, and each has an instance: for base64 the
  encoding of RFC 4648, for bincode a variable-length encoding.

  \<^bold>\<open>Not modelled.\<close>  What axum, hyper, tokio and rustls do inside: routing, extractors, static files, the
  Swagger pages and the handshake are parameters.  Logging, the command line, the texts of templates and
  \<open>main.rs\<close>.  The task that logs incoming websocket messages.
  The serde forms, the mock client, the test utilities and the other examples, which only call the
  library.  In \<open>Interleaving\<close>, looking for transfers in the blocks and the pool is one part.
\<close>

end
